(* ===== verification/Prelude.thy ===== *)
theory Prelude
  imports Main "HOL-Library.Word"
begin

text \<open>
  Shared ground of the development: the machine integers of the firmware, the outcome of C code
  that may leave the defined behaviour of the language, checked accesses to arrays (the model of
  \<^verbatim>\<open>a[i]\<close>, \<^verbatim>\<open>memcpy\<close> and \<^verbatim>\<open>memset\<close>), little-endian views of words, and the generic
  list and word lemmas the component theories use.

  \<^item> \<open>u8\<close>, \<open>u16\<close>, \<open>u32\<close> are \<^verbatim>\<open>uint8_t\<close>, \<^verbatim>\<open>uint16_t\<close> and \<^verbatim>\<open>uint32_t\<close>; arithmetic wraps.
  \<^item> An expression that reads or writes outside an object, or through a null pointer, has the
    value \<open>Inl\<close> of a \<open>ub\<close>; otherwise it has the value \<open>Inr\<close> of its result.
\<close>

unbundle bit_operations_syntax

section \<open>Machine integers\<close>

type_synonym u8 = "8 word"
type_synonym u16 = "16 word"
type_synonym u32 = "32 word"

named_theorems checked_simps \<open>rewriting of checked accesses and of sequencing\<close>
named_theorems unat_simps \<open>unsigned readings of word operations that do not wrap\<close>

section \<open>Undefined behaviour and sequencing\<close>

datatype ub =
    OutOfBounds     \<comment> \<open>an access outside the array or object a pointer points into\<close>
  | NullDeref       \<comment> \<open>an access through \<^verbatim>\<open>NULL\<close>\<close>
  | UseAfterFree    \<comment> \<open>an access to a freed heap object\<close>
  | SignedOverflow  \<comment> \<open>a signed operation whose result its type cannot hold\<close>
  | DoubleFree      \<comment> \<open>\<^verbatim>\<open>mem_free\<close> of an object that is already free\<close>

type_synonym 'a cres = "ub + 'a"

definition bindE :: "'e + 'a \<Rightarrow> ('a \<Rightarrow> 'e + 'b) \<Rightarrow> 'e + 'b" where
  "bindE m f = (case m of Inl e \<Rightarrow> Inl e | Inr x \<Rightarrow> f x)"

lemma bindE_Inl [simp, checked_simps]: "bindE (Inl e) f = Inl e"
  by (simp add: bindE_def)

lemma bindE_Inr [simp, checked_simps]: "bindE (Inr x) f = f x"
  by (simp add: bindE_def)

lemma bindE_cong: "m = m' \<Longrightarrow> (\<And>x. m' = Inr x \<Longrightarrow> f x = g x) \<Longrightarrow> bindE m f = bindE m' g"
  by (cases m') auto

lemma bindE_eq_Inr: "bindE m f = Inr y \<longleftrightarrow> (\<exists>x. m = Inr x \<and> f x = Inr y)"
  by (cases m) auto

lemma bindE_eq_Inl: "bindE m f = Inl e \<longleftrightarrow> m = Inl e \<or> (\<exists>x. m = Inr x \<and> f x = Inl e)"
  by (cases m) auto

lemma bindE_assoc: "bindE (bindE m f) g = bindE m (\<lambda>x. bindE (f x) g)"
  by (cases m) auto

section \<open>Code that does not come back\<close>

text \<open>
  Firmware code that does not come back: undefined behaviour, a wait whose condition the
  environment never makes true, a reset of the processor, a jump into another image.
\<close>

datatype 's stop = Faulted ub | Waits 's | SystemReset 's | JumpToApp u32 's

definition ckd :: "'a cres \<Rightarrow> 's stop + 'a" where
  "ckd r = (case r of Inl u \<Rightarrow> Inl (Faulted u) | Inr x \<Rightarrow> Inr x)"

lemma ckd_simps [simp]: "ckd (Inl u) = Inl (Faulted u)" "ckd (Inr x) = Inr x"
  by (simp_all add: ckd_def)

section \<open>Checked array accesses\<close>

text \<open>\<open>rd a i\<close> is \<^verbatim>\<open>a[i]\<close>; \<open>wr a i v\<close> is \<^verbatim>\<open>a[i] = v\<close>.\<close>

definition rd :: "'a list \<Rightarrow> nat \<Rightarrow> 'a cres" where
  "rd a i = (if i < length a then Inr (a ! i) else Inl OutOfBounds)"

definition wr :: "'a list \<Rightarrow> nat \<Rightarrow> 'a \<Rightarrow> 'a list cres" where
  "wr a i v = (if i < length a then Inr (a[i := v]) else Inl OutOfBounds)"

text \<open>
  \<open>rd_range a off n\<close> is the source side of a \<^verbatim>\<open>memcpy\<close> of \<open>n\<close> elements from \<^verbatim>\<open>a + off\<close>, and
  \<open>wr_range a off vs\<close> the destination side: both ranges must lie inside the array.
\<close>

definition rd_range :: "'a list \<Rightarrow> nat \<Rightarrow> nat \<Rightarrow> 'a list cres" where
  "rd_range a off n =
     (if off + n \<le> length a then Inr (take n (drop off a)) else Inl OutOfBounds)"

definition wr_range :: "'a list \<Rightarrow> nat \<Rightarrow> 'a list \<Rightarrow> 'a list cres" where
  "wr_range a off vs =
     (if off + length vs \<le> length a
      then Inr (take off a @ vs @ drop (off + length vs) a) else Inl OutOfBounds)"

lemma rd_ok [simp, checked_simps]: "i < length a \<Longrightarrow> rd a i = Inr (a ! i)"
  by (simp add: rd_def)

lemma wr_ok [simp, checked_simps]: "i < length a \<Longrightarrow> wr a i v = Inr (a[i := v])"
  by (simp add: wr_def)

lemma rd_oob [simp, checked_simps]: "length a \<le> i \<Longrightarrow> rd a i = Inl OutOfBounds"
  by (simp add: rd_def)

lemma wr_oob [simp, checked_simps]: "length a \<le> i \<Longrightarrow> wr a i v = Inl OutOfBounds"
  by (simp add: wr_def)

lemma rd_range_ok [simp, checked_simps]:
  "off + n \<le> length a \<Longrightarrow> rd_range a off n = Inr (take n (drop off a))"
  by (simp add: rd_range_def)

lemma wr_range_ok [simp, checked_simps]:
  "off + length vs \<le> length a \<Longrightarrow>
   wr_range a off vs = Inr (take off a @ vs @ drop (off + length vs) a)"
  by (simp add: wr_range_def)

lemma wr_length: "wr a i v = Inr a' \<Longrightarrow> length a' = length a"
  by (auto simp: wr_def split: if_splits)

lemma wr_range_length: "wr_range a off vs = Inr a' \<Longrightarrow> length a' = length a"
  by (auto simp: wr_range_def split: if_splits)

section \<open>Bytes of words\<close>

text \<open>The bytes of a little-endian \<^verbatim>\<open>uint16_t\<close> and \<^verbatim>\<open>uint32_t\<close>, as \<^verbatim>\<open>memcpy\<close> sees them.\<close>

definition le16 :: "u16 \<Rightarrow> u8 list" where
  "le16 w = [ucast w, ucast (drop_bit 8 w)]"

definition le32 :: "u32 \<Rightarrow> u8 list" where
  "le32 w = [ucast w, ucast (drop_bit 8 w), ucast (drop_bit 16 w), ucast (drop_bit 24 w)]"

definition of_le16 :: "u8 \<Rightarrow> u8 \<Rightarrow> u16" where
  "of_le16 b0 b1 = ucast b0 OR push_bit 8 (ucast b1)"

definition of_le32 :: "u8 \<Rightarrow> u8 \<Rightarrow> u8 \<Rightarrow> u8 \<Rightarrow> u32" where
  "of_le32 b0 b1 b2 b3 =
     ucast b0 OR push_bit 8 (ucast b1) OR push_bit 16 (ucast b2) OR push_bit 24 (ucast b3)"

lemma length_le16 [simp]: "length (le16 w) = 2"
  by (simp add: le16_def)

lemma length_le32 [simp]: "length (le32 w) = 4"
  by (simp add: le32_def)

lemma of_le16_le16 [simp]: "of_le16 (ucast w) (ucast (drop_bit 8 w)) = w"
  by (rule bit_word_eqI)
    (auto simp: of_le16_def bit_simps)

lemma of_le16_lo [simp]: "ucast (of_le16 b0 b1) = b0"
  by (rule bit_word_eqI) (auto simp: of_le16_def bit_simps)

lemma of_le16_hi [simp]: "ucast (drop_bit 8 (of_le16 b0 b1)) = b1"
  by (rule bit_word_eqI) (auto simp: of_le16_def bit_simps dest: bit_imp_le_length)

lemma of_le32_le32 [simp]:
  "of_le32 (ucast w) (ucast (drop_bit 8 w)) (ucast (drop_bit 16 w)) (ucast (drop_bit 24 w)) = w"
proof (rule bit_word_eqI)
  fix n
  assume "n < LENGTH(32)"
  then consider "n < 8" | "8 \<le> n \<and> n < 16" | "16 \<le> n \<and> n < 24" | "24 \<le> n \<and> n < 32"
    by fastforce
  then show "bit (of_le32 (ucast w) (ucast (drop_bit 8 w)) (ucast (drop_bit 16 w))
    (ucast (drop_bit 24 w))) n = bit w n"
    by cases (auto simp: of_le32_def bit_simps)
qed

lemma of_le32_bytes:
  "ucast (of_le32 a b c d) = a" "ucast (drop_bit 8 (of_le32 a b c d)) = b"
  "ucast (drop_bit 16 (of_le32 a b c d)) = c" "ucast (drop_bit 24 (of_le32 a b c d)) = d"
  subgoal by (rule bit_word_eqI) (simp add: of_le32_def bit_simps)
  subgoal by (rule bit_word_eqI) (auto simp: of_le32_def bit_simps dest: bit_imp_le_length)
  subgoal by (rule bit_word_eqI) (auto simp: of_le32_def bit_simps dest: bit_imp_le_length)
  subgoal by (rule bit_word_eqI) (auto simp: of_le32_def bit_simps dest: bit_imp_le_length)
  done

lemma of_le32_inj: "of_le32 a b c d = of_le32 a' b' c' d' \<longleftrightarrow> a = a' \<and> b = b' \<and> c = c' \<and> d = d'"
  by (metis of_le32_bytes)

section \<open>Words that do not wrap\<close>

lemma unat_sub_le [unat_simps]: "b \<le> a \<Longrightarrow> unat (a - b :: 'a::len word) = unat a - unat b"
  by (rule unat_sub)

lemma unat_add_no_wrap [unat_simps]:
  "unat a + unat b < 2 ^ LENGTH('a) \<Longrightarrow> unat (a + b :: 'a::len word) = unat a + unat b"
  by (rule unat_add_lem [THEN iffD1])

lemma unat_add_u32 [unat_simps]:
  "unat a + unat b < 4294967296 \<Longrightarrow> unat (a + b :: u32) = unat a + unat b"
  by (rule unat_add_no_wrap) simp

lemma unat_add_u8 [unat_simps]:
  "unat a + unat b < 256 \<Longrightarrow> unat (a + b :: u8) = unat a + unat b"
  by (rule unat_add_no_wrap) simp

lemma u8_less_256 [simp]: "unat (x :: u8) < 256"
  using unsigned_less [of x] by simp

lemma u16_less [simp]: "unat (x :: u16) < 65536"
  using unsigned_less [of x] by simp

lemma u32_less [simp]: "unat (x :: u32) < 4294967296"
  using unsigned_less [of x] by simp

lemma unat_of_nat_u32 [unat_simps]: "n < 4294967296 \<Longrightarrow> unat (of_nat n :: u32) = n"
  by (simp add: unat_of_nat)

lemma unat_of_nat_u8 [unat_simps]: "n < 256 \<Longrightarrow> unat (of_nat n :: u8) = n"
  by (simp add: unat_of_nat)

lemma unat_ucast_u8_u32 [simp]: "unat (ucast (x :: u8) :: u32) = unat x"
  by (simp add: unsigned_ucast_eq take_bit_nat_eq_self_iff order_less_trans [OF u8_less_256])

lemma unat_ucast_u16_u32 [simp]: "unat (ucast (x :: u16) :: u32) = unat x"
  by (simp add: unsigned_ucast_eq take_bit_nat_eq_self_iff order_less_trans [OF u16_less])

lemma xor_cancel_left [simp]: "a XOR b = a XOR c \<longleftrightarrow> b = (c :: 'a::len word)"
  by (metis xor.assoc xor.left_neutral xor_self_eq)

lemma xor_cancel_right [simp]: "b XOR a = c XOR a \<longleftrightarrow> b = (c :: 'a::len word)"
  by (simp add: xor.commute [of _ a])

lemma xor_eq_0 [simp]: "a XOR b = 0 \<longleftrightarrow> a = (b :: 'a::len word)"
  by (metis xor_cancel_left xor_self_eq)

lemma and_push_bit_1: "w AND push_bit n 1 \<noteq> 0 \<longleftrightarrow> bit (w :: 'a::len word) n"
proof -
  have "w AND push_bit n 1 = (if bit w n then push_bit n 1 else 0)"
    by (rule bit_word_eqI) (auto simp: bit_simps)
  moreover have "push_bit n 1 \<noteq> (0 :: 'a word)" if "bit w n"
  proof -
    have "bit (push_bit n 1 :: 'a word) n"
      using bit_imp_le_length [OF that] by (simp add: bit_simps)
    then show ?thesis by (metis bit_0_eq bot_apply bot_bool_def)
  qed
  ultimately show ?thesis by auto
qed

lemma and_1_iff: "w AND 1 = 0 \<longleftrightarrow> \<not> bit (w :: 'a::len word) 0"
  using and_push_bit_1 [of w 0] by auto

lemma and_2_iff: "w AND 2 = 0 \<longleftrightarrow> \<not> bit (w :: 'a::len word) 1"
  using and_push_bit_1 [of w 1] by auto

section \<open>Lists\<close>

lemma take_drop_update_range:
  assumes "off + length vs \<le> length a"
  shows "take n (drop off (take off a @ vs @ drop (off + length vs) a)) =
         take n (vs @ drop (off + length vs) a)"
  using assms by simp

lemma nth_append_exact [simp]: "length xs = n \<Longrightarrow> (xs @ y # ys) ! n = y"
  by (simp add: nth_append)

lemma list_update_append_exact [simp]: "length xs = n \<Longrightarrow> (xs @ y # ys)[n := z] = xs @ z # ys"
  by (simp add: list_update_append)

lemma take_Suc_update:
  "n < length xs \<Longrightarrow> take (Suc n) (xs[n := v]) = take n xs @ [v]"
  by (simp add: take_Suc_conv_app_nth)

text \<open>Statements about every element of a table, reduced to a finite check.\<close>

lemma all_less_u8I: "(\<And>n. n < 256 \<Longrightarrow> P (of_nat n :: u8)) \<Longrightarrow> P x"
  using u8_less_256 [of x] by (metis unat_of_nat_u8 word_unat_eq_iff)

end
