(* ===== verification/Crc8.thy ===== *)
theory Crc8
  imports Prelude
begin

text \<open>
  The packet checksum of \<^verbatim>\<open>olympus/utils/crc8.c\<close>: the table-driven CRC, the bitwise CRC with
  polynomial \<open>x^8 + x^2 + x + 1\<close> (0x07) it has to equal, and what the checksum detects.
\<close>

section \<open>The code\<close>

definition crc_table :: "u8 list" where
  "crc_table = [
   0x00, 0x07, 0x0e, 0x09, 0x1c, 0x1b, 0x12, 0x15, 0x38, 0x3f, 0x36, 0x31, 0x24, 0x23, 0x2a, 0x2d,
   0x70, 0x77, 0x7e, 0x79, 0x6c, 0x6b, 0x62, 0x65, 0x48, 0x4f, 0x46, 0x41, 0x54, 0x53, 0x5a, 0x5d,
   0xe0, 0xe7, 0xee, 0xe9, 0xfc, 0xfb, 0xf2, 0xf5, 0xd8, 0xdf, 0xd6, 0xd1, 0xc4, 0xc3, 0xca, 0xcd,
   0x90, 0x97, 0x9e, 0x99, 0x8c, 0x8b, 0x82, 0x85, 0xa8, 0xaf, 0xa6, 0xa1, 0xb4, 0xb3, 0xba, 0xbd,
   0xc7, 0xc0, 0xc9, 0xce, 0xdb, 0xdc, 0xd5, 0xd2, 0xff, 0xf8, 0xf1, 0xf6, 0xe3, 0xe4, 0xed, 0xea,
   0xb7, 0xb0, 0xb9, 0xbe, 0xab, 0xac, 0xa5, 0xa2, 0x8f, 0x88, 0x81, 0x86, 0x93, 0x94, 0x9d, 0x9a,
   0x27, 0x20, 0x29, 0x2e, 0x3b, 0x3c, 0x35, 0x32, 0x1f, 0x18, 0x11, 0x16, 0x03, 0x04, 0x0d, 0x0a,
   0x57, 0x50, 0x59, 0x5e, 0x4b, 0x4c, 0x45, 0x42, 0x6f, 0x68, 0x61, 0x66, 0x73, 0x74, 0x7d, 0x7a,
   0x89, 0x8e, 0x87, 0x80, 0x95, 0x92, 0x9b, 0x9c, 0xb1, 0xb6, 0xbf, 0xb8, 0xad, 0xaa, 0xa3, 0xa4,
   0xf9, 0xfe, 0xf7, 0xf0, 0xe5, 0xe2, 0xeb, 0xec, 0xc1, 0xc6, 0xcf, 0xc8, 0xdd, 0xda, 0xd3, 0xd4,
   0x69, 0x6e, 0x67, 0x60, 0x75, 0x72, 0x7b, 0x7c, 0x51, 0x56, 0x5f, 0x58, 0x4d, 0x4a, 0x43, 0x44,
   0x19, 0x1e, 0x17, 0x10, 0x05, 0x02, 0x0b, 0x0c, 0x21, 0x26, 0x2f, 0x28, 0x3d, 0x3a, 0x33, 0x34,
   0x4e, 0x49, 0x40, 0x47, 0x52, 0x55, 0x5c, 0x5b, 0x76, 0x71, 0x78, 0x7f, 0x6a, 0x6d, 0x64, 0x63,
   0x3e, 0x39, 0x30, 0x37, 0x22, 0x25, 0x2c, 0x2b, 0x06, 0x01, 0x08, 0x0f, 0x1a, 0x1d, 0x14, 0x13,
   0xae, 0xa9, 0xa0, 0xa7, 0xb2, 0xb5, 0xbc, 0xbb, 0x96, 0x91, 0x98, 0x9f, 0x8a, 0x8d, 0x84, 0x83,
   0xde, 0xd9, 0xd0, 0xd7, 0xc2, 0xc5, 0xcc, 0xcb, 0xe6, 0xe1, 0xe8, 0xef, 0xfa, 0xfd, 0xf4, 0xf3]"

text \<open>The loop \<^verbatim>\<open>while (len--)\<close>: \<open>i\<close> is how far \<^verbatim>\<open>vptr\<close> has advanced into \<open>buf\<close>.\<close>

fun crc8_loop :: "u8 list \<Rightarrow> nat \<Rightarrow> nat \<Rightarrow> u8 \<Rightarrow> u8 cres" where
  "crc8_loop buf i 0 crc = Inr crc"
| "crc8_loop buf i (Suc len) crc =
     bindE (rd buf i) (\<lambda>b.
     bindE (rd crc_table (unat (b XOR crc))) (\<lambda>crc'.
     crc8_loop buf (Suc i) len crc'))"

definition crc8 :: "u8 list \<Rightarrow> u32 \<Rightarrow> u8 cres" where
  "crc8 vptr len = crc8_loop vptr 0 (unat len) 0"

section \<open>The specification\<close>

definition crc_bit :: "u8 \<Rightarrow> u8" where
  "crc_bit c = (if bit c 7 then push_bit 1 c XOR 7 else push_bit 1 c)"

definition crc_byte :: "u8 \<Rightarrow> u8" where
  "crc_byte c = (crc_bit ^^ 8) c"

text \<open>The checksum of a byte sequence, continued from \<open>c\<close>.\<close>

definition crc_from :: "u8 \<Rightarrow> u8 list \<Rightarrow> u8" where
  "crc_from c xs = foldl (\<lambda>c b. crc_byte (b XOR c)) c xs"

abbreviation crc8_of :: "u8 list \<Rightarrow> u8" where
  "crc8_of xs \<equiv> crc_from 0 xs"

lemma crc_from_Nil [simp]: "crc_from c [] = c"
  by (simp add: crc_from_def)

lemma crc_from_Cons [simp]: "crc_from c (b # xs) = crc_from (crc_byte (b XOR c)) xs"
  by (simp add: crc_from_def)

lemma crc_from_append: "crc_from c (xs @ ys) = crc_from (crc_from c xs) ys"
  by (simp add: crc_from_def)

section \<open>The table\<close>

lemma length_crc_table [simp]: "length crc_table = 256"
  by (simp add: crc_table_def)

lemma crc_byte_unroll:
  "crc_byte c = crc_bit (crc_bit (crc_bit (crc_bit (crc_bit (crc_bit (crc_bit (crc_bit c)))))))"
  by (simp add: crc_byte_def numeral_eq_Suc)

lemma crc_table_eq: "crc_table = map crc_byte (map of_nat [0..<256])"
  by (simp add: crc_table_def crc_byte_unroll crc_bit_def
      upt_rec [of 0] upt_rec [of "Suc 0"] numeral_2_eq_2 [symmetric] upt_rec_numeral)

lemma crc_table_nth [simp]: "crc_table ! unat x = crc_byte x"
  by (simp add: crc_table_eq)

lemma rd_crc_table [simp]: "rd crc_table (unat x) = Inr (crc_byte x)"
  by simp

section \<open>Linearity and injectivity\<close>

lemma crc_bit_xor: "crc_bit (a XOR b) = crc_bit a XOR crc_bit b"
  by (cases "bit a 7"; cases "bit b 7") (rule bit_word_eqI, auto simp: crc_bit_def bit_simps)+

lemma crc_bit_zeroD: "crc_bit x = 0 \<Longrightarrow> x = 0"
proof (cases "bit x 7")
  case True
  assume "crc_bit x = 0"
  then have "\<not> bit (push_bit 1 x XOR 7) 0" using True by (simp add: crc_bit_def)
  moreover have "bit (push_bit 1 x XOR 7) 0"
    by (simp only: bit_xor_iff bit_push_bit_iff) simp
  ultimately show ?thesis by contradiction
next
  case False
  assume "crc_bit x = 0"
  with False have *: "push_bit 1 x = 0" by (simp add: crc_bit_def)
  show ?thesis
  proof (rule bit_word_eqI)
    fix n assume n: "n < LENGTH(8)"
    from * have "\<not> bit (push_bit 1 x) (Suc n)" by (simp del: push_bit_Suc)
    with n have "n = 7 \<or> \<not> bit x n"
      by (auto simp only: bit_push_bit_iff) simp_all
    with False show "bit x n = bit 0 n" by auto
  qed
qed

lemma crc_bit_inj: "crc_bit a = crc_bit b \<Longrightarrow> a = b"
proof -
  assume "crc_bit a = crc_bit b"
  then have "crc_bit (a XOR b) = 0" by (simp add: crc_bit_xor)
  then have "a XOR b = 0" by (rule crc_bit_zeroD)
  then show "a = b" by simp
qed

lemma inj_crc_bit: "inj crc_bit"
  by (rule injI) (rule crc_bit_inj)

lemma crc_byte_inj [simp]: "crc_byte a = crc_byte b \<longleftrightarrow> a = b"
proof -
  have "inj (crc_bit ^^ 8)" by (rule inj_fn [OF inj_crc_bit])
  then show ?thesis by (auto simp: crc_byte_def dest: injD)
qed

lemma crc_bit_0 [simp]: "crc_bit 0 = 0"
  by (simp add: crc_bit_def)

lemma crc_byte_0 [simp]: "crc_byte 0 = 0"
  by (simp add: crc_byte_def numeral_eq_Suc)

lemma crc_from_inj [simp]: "crc_from c xs = crc_from d xs \<longleftrightarrow> c = d"
  by (induction xs arbitrary: c d) auto

section \<open>The code computes the specification\<close>

lemma crc8_loop_eq:
  "i + n \<le> length buf \<Longrightarrow> crc8_loop buf i n c = Inr (crc_from c (take n (drop i buf)))"
proof (induction n arbitrary: i c)
  case 0
  then show ?case by simp
next
  case (Suc n)
  then have "take (Suc n) (drop i buf) = buf ! i # take n (drop (Suc i) buf)"
    by (simp add: Cons_nth_drop_Suc [symmetric])
  with Suc show ?case by simp
qed

lemma crc8_loop_oob:
  "i \<le> length buf \<Longrightarrow> length buf < i + n \<Longrightarrow> crc8_loop buf i n c = Inl OutOfBounds"
proof (induction n arbitrary: i c)
  case 0
  then show ?case by simp
next
  case (Suc n)
  show ?case
  proof (cases "i < length buf")
    case True
    with Suc.prems show ?thesis by (simp add: Suc.IH)
  next
    case False
    then show ?thesis by simp
  qed
qed

lemma crc8_eq: "unat len \<le> length buf \<Longrightarrow> crc8 buf len = Inr (crc8_of (take (unat len) buf))"
  by (simp add: crc8_def crc8_loop_eq)

lemma crc8_oob: "length buf < unat len \<Longrightarrow> crc8 buf len = Inl OutOfBounds"
  by (simp add: crc8_def crc8_loop_oob)

lemma crc_append_self: "crc8_of (xs @ [crc8_of xs]) = 0"
  by (simp add: crc_from_append)

lemma crc_zero_iff: "crc8_of (xs @ [b]) = 0 \<longleftrightarrow> b = crc8_of xs"
proof -
  have "crc8_of (xs @ [b]) = crc_byte (b XOR crc8_of xs)" by (simp add: crc_from_append)
  moreover have "crc_byte (b XOR crc8_of xs) = 0 \<longleftrightarrow> b XOR crc8_of xs = 0"
    using crc_byte_inj [of "b XOR crc8_of xs" 0] by simp
  ultimately show ?thesis by simp
qed

lemma crc_from_update_neq:
  "i < length xs \<Longrightarrow> b \<noteq> xs ! i \<Longrightarrow> crc_from c (xs[i := b]) \<noteq> crc_from c xs"
proof (induction xs arbitrary: i c)
  case Nil
  then show ?case by simp
next
  case (Cons x xs)
  show ?case
  proof (cases i)
    case 0
    with Cons.prems show ?thesis by simp
  next
    case (Suc j)
    with Cons show ?thesis by simp
  qed
qed

section \<open>Properties\<close>

text \<open>
  C16. \<open>crc8\<close> of \<^verbatim>\<open>olympus/utils/crc8.c\<close> is the CRC-8 with polynomial 0x07 and initial value 0:
  on any buffer that holds at least \<open>len\<close> bytes, the table-driven loop returns the checksum that
  the bitwise shift-register definition gives for the first \<open>len\<close> bytes, and a buffer that holds
  fewer is read out of bounds.
\<close>
theorem crc8_is_crc8_poly07:
  "crc8 buf len =
     (if unat len \<le> length buf
      then Inr (foldl (\<lambda>c b. (crc_bit ^^ 8) (b XOR c)) 0 (take (unat len) buf))
      else Inl OutOfBounds)"
  by (simp add: crc8_eq crc8_oob crc_from_def crc_byte_def not_le)



end
