(* ===== verification/ByteQueue.thy ===== *)
theory ByteQueue
  imports Prelude
begin

text \<open>
  The interface between the drivers that collect received bytes and the state machines that
  consume them. Four places of the firmware have this shape: \<^verbatim>\<open>while (doubleBuffer_read(...))
  runCommsFSM(...)\<close> in \<^verbatim>\<open>olympus/main.c\<close>, \<^verbatim>\<open>while (usartRead(...))\<close> in
  \<^verbatim>\<open>olympus/drivers/console.c\<close>, and the \<^verbatim>\<open>readByte\<close> loops of the bootloader and of the slaves.
  The provider is a queue with an abstraction to the list of bytes it holds; the client is a loop
  that takes bytes until there are none.
\<close>

section \<open>Folding a handler that can fail\<close>

fun foldE :: "('b \<Rightarrow> 'c \<Rightarrow> 'e + 'c) \<Rightarrow> 'b list \<Rightarrow> 'c \<Rightarrow> 'e + 'c" where
  "foldE h [] c = Inr c"
| "foldE h (b # bs) c = bindE (h b c) (foldE h bs)"

lemma foldE_append: "foldE h (xs @ ys) c = bindE (foldE h xs c) (foldE h ys)"
proof (induction xs arbitrary: c)
  case (Cons x xs)
  then show ?case by (cases "h x c") auto
qed simp

lemma foldE_single: "foldE h [b] c = h b c"
  by (cases "h b c") simp_all

lemma foldE_invariant:
  assumes "\<And>b c c'. I c \<Longrightarrow> h b c = Inr c' \<Longrightarrow> I c'"
  shows "I c \<Longrightarrow> foldE h bs c = Inr c' \<Longrightarrow> I c'"
  by (induction bs arbitrary: c) (auto simp: bindE_eq_Inr intro: assms)

section \<open>The consuming loop\<close>

text \<open>
  \<^verbatim>\<open>while (get(&b)) h(b);\<close> with fuel: \<open>None\<close> is a loop that has not ended after \<open>fuel\<close> rounds.
\<close>

fun drain :: "nat \<Rightarrow> ('s \<Rightarrow> 'e + (u8 option \<times> 's)) \<Rightarrow> (u8 \<Rightarrow> 'c \<Rightarrow> 'e + 'c) \<Rightarrow> 's \<Rightarrow> 'c
    \<Rightarrow> ('e + ('s \<times> 'c)) option" where
  "drain 0 get h s c = None"
| "drain (Suc fuel) get h s c =
     (case get s of
        Inl e \<Rightarrow> Some (Inl e)
      | Inr (None, s') \<Rightarrow> Some (Inr (s', c))
      | Inr (Some b, s') \<Rightarrow>
          (case h b c of Inl e \<Rightarrow> Some (Inl e) | Inr c' \<Rightarrow> drain fuel get h s' c'))"

lemma drain_invariant:
  assumes "\<And>s b s'. P s \<Longrightarrow> get s = Inr (b, s') \<Longrightarrow> P s'"
    and "P s" and "drain fuel get h s c = Some (Inr (s', c'))"
  shows "P s'"
  using assms(2,3)
proof (induction fuel arbitrary: s c)
  case (Suc fuel)
  from Suc.prems(2) show ?case
    by (auto split: sum.splits option.splits prod.splits dest: assms(1) [OF Suc.prems(1)] intro: Suc.IH)
qed simp

section \<open>Rings\<close>

text \<open>The \<open>len\<close> bytes of a ring that starts at \<open>start\<close>.\<close>

definition ring :: "'a list \<Rightarrow> nat \<Rightarrow> nat \<Rightarrow> 'a list" where
  "ring buf start len = map (\<lambda>i. buf ! ((start + i) mod length buf)) [0..<len]"

lemma length_ring [simp]: "length (ring buf start len) = len"
  by (simp add: ring_def)

lemma ring_0 [simp]: "ring buf start 0 = []"
  by (simp add: ring_def)

lemma ring_nth: "i < len \<Longrightarrow> ring buf start len ! i = buf ! ((start + i) mod length buf)"
  by (simp add: ring_def)

lemma ring_Suc:
  "ring buf start (Suc len) = buf ! (start mod length buf) # ring buf ((start + 1) mod length buf) len"
  by (rule nth_equalityI) (auto simp: ring_nth nth_Cons mod_simps split: nat.splits)

lemma mod_add_eq_cancel:
  assumes "(s + i) mod n = (s + j) mod n" and "i < n" and "j < n"
  shows "i = (j :: nat)"
  using assms
proof (induction i j rule: linorder_wlog)
  case (le i j)
  then have "n dvd (s + j) - (s + i)"
    using mod_eq_dvd_iff_nat [of "s + i" "s + j" n] by simp
  with le show ?case using nat_dvd_not_less [of "j - i" n] by (cases "i = j") auto
next
  case (sym i j)
  then show ?case by simp
qed

lemma ring_snoc:
  assumes "len < length buf"
  shows "ring (buf[(start + len) mod length buf := v]) start (Suc len) = ring buf start len @ [v]"
proof (rule nth_equalityI)
  fix i assume "i < length (ring (buf[(start + len) mod length buf := v]) start (Suc len))"
  then have i: "i < Suc len" by simp
  have pos: "(start + len) mod length buf < length buf"
    using assms by (intro mod_less_divisor) linarith
  show "ring (buf[(start + len) mod length buf := v]) start (Suc len) ! i =
      (ring buf start len @ [v]) ! i"
  proof (cases "i = len")
    case True
    then show ?thesis using pos by (simp add: ring_nth nth_append)
  next
    case False
    with i assms have "(start + i) mod length buf \<noteq> (start + len) mod length buf"
      using mod_add_eq_cancel [of start i "length buf" len] by auto
    with i False show ?thesis by (simp add: ring_nth nth_append)
  qed
qed simp

section \<open>The reading side of a byte queue\<close>

locale byte_queue =
  fixes wf :: "'s \<Rightarrow> bool"
    and content :: "'s \<Rightarrow> u8 list"
    and get :: "'s \<Rightarrow> 'e + (u8 option \<times> 's)"
  assumes get_Nil:
      "wf s \<Longrightarrow> content s = [] \<Longrightarrow> \<exists>s'. get s = Inr (None, s') \<and> wf s' \<and> content s' = []"
    and get_Cons:
      "wf s \<Longrightarrow> content s = b # bs \<Longrightarrow> \<exists>s'. get s = Inr (Some b, s') \<and> wf s' \<and> content s' = bs"
begin

text \<open>The loop ends, and the handler has seen exactly the bytes of the queue, in order.\<close>

lemma drain_all:
  assumes "wf s" and "length (content s) < fuel"
  shows "\<exists>s'. wf s' \<and> content s' = [] \<and>
           (\<forall>c'. foldE h (content s) c = Inr c' \<longrightarrow> drain fuel get h s c = Some (Inr (s', c')))"
  using assms
proof (induction fuel arbitrary: s c)
  case 0
  then show ?case by simp
next
  case (Suc fuel)
  show ?case
  proof (cases "content s")
    case Nil
    with get_Nil [OF Suc.prems(1)] show ?thesis by fastforce
  next
    case (Cons b bs)
    with get_Cons [OF Suc.prems(1)] obtain t where
      t: "get s = Inr (Some b, t)" "wf t" "content t = bs" by blast
    show ?thesis
    proof (cases "h b c")
      case (Inl e)
      from Suc.IH [OF t(2), of c] Suc.prems(2) Cons t(3) obtain s' where "wf s'" "content s' = []"
        by auto
      with Inl Cons show ?thesis by auto
    next
      case (Inr d)
      from Suc.IH [OF t(2), of d] Suc.prems(2) Cons t(3) show ?thesis
        using t(1) Inr Cons by auto
    qed
  qed
qed

lemma drain_fails:
  assumes "wf s" and "length (content s) < fuel" and "foldE h (content s) c = Inl e"
  shows "drain fuel get h s c = Some (Inl e)"
  using assms
proof (induction fuel arbitrary: s c)
  case 0
  then show ?case by simp
next
  case (Suc fuel)
  then obtain b bs where Cons: "content s = b # bs" by (cases "content s") auto
  with get_Cons [OF Suc.prems(1)] obtain t where
    "get s = Inr (Some b, t)" "wf t" "content t = bs" by blast
  with Suc Cons show ?case by (cases "h b c") auto
qed

end

section \<open>A queue with a writing side\<close>

text \<open>
  \<open>put\<close> appends a block of bytes or refuses it whole, as \<^verbatim>\<open>doubleBuffer_write\<close> does; the run of a
  sequence of writes and reads records the bytes that were accepted and the bytes that were read.
\<close>

datatype queue_op = Put "u8 list" | Get

fun run_ops :: "('s \<Rightarrow> u8 list \<Rightarrow> 'e + (bool \<times> 's)) \<Rightarrow> ('s \<Rightarrow> 'e + (u8 option \<times> 's)) \<Rightarrow>
    queue_op list \<Rightarrow> 's \<Rightarrow> 'e + (u8 list \<times> u8 list \<times> 's)" where
  "run_ops put get [] s = Inr ([], [], s)"
| "run_ops put get (Put xs # ops) s =
     bindE (put s xs) (\<lambda>(ok, s').
     bindE (run_ops put get ops s') (\<lambda>(accepted, got, s'').
     Inr ((if ok then xs else []) @ accepted, got, s'')))"
| "run_ops put get (Get # ops) s =
     bindE (get s) (\<lambda>(b, s').
     bindE (run_ops put get ops s') (\<lambda>(accepted, got, s'').
     Inr (accepted, (case b of None \<Rightarrow> [] | Some x \<Rightarrow> [x]) @ got, s'')))"

locale byte_channel = byte_queue wf content get
  for wf :: "'s \<Rightarrow> bool" and content :: "'s \<Rightarrow> u8 list" and get :: "'s \<Rightarrow> 'e + (u8 option \<times> 's)" +
  fixes put :: "'s \<Rightarrow> u8 list \<Rightarrow> 'e + (bool \<times> 's)"
    and may_put :: "u8 list \<Rightarrow> bool"
  assumes put_law:
      "wf s \<Longrightarrow> may_put xs \<Longrightarrow> \<exists>ok s'. put s xs = Inr (ok, s') \<and> wf s' \<and>
         content s' = content s @ (if ok then xs else [])"
begin

text \<open>
  First in, first out: every run succeeds, and the bytes read, followed by the bytes still queued,
  are the bytes queued at the start followed by those accepted, in order.
\<close>

lemma run_fifo:
  assumes "wf s" and "\<And>xs. Put xs \<in> set ops \<Longrightarrow> may_put xs"
  shows "\<exists>accepted got s'. run_ops put get ops s = Inr (accepted, got, s') \<and> wf s' \<and>
           got @ content s' = content s @ accepted"
  using assms
proof (induction ops arbitrary: s)
  case Nil
  then show ?case by simp
next
  case (Cons a ops)
  show ?case
  proof (cases a)
    case (Put xs)
    with Cons.prems put_law obtain ok t where
      t: "put s xs = Inr (ok, t)" "wf t" "content t = content s @ (if ok then xs else [])"
      by (meson list.set_intros(1))
    from Cons.IH [OF t(2)] Cons.prems(2) obtain acc got s' where
      "run_ops put get ops t = Inr (acc, got, s')" "wf s'" "got @ content s' = content t @ acc"
      by (metis list.set_intros(2))
    with Put t show ?thesis by auto
  next
    case Get
    obtain b t where t: "get s = Inr (b, t)" "wf t"
      "content s = (case b of None \<Rightarrow> [] | Some x \<Rightarrow> [x]) @ content t"
    proof (cases "content s")
      case Nil
      with get_Nil [OF Cons.prems(1)] that [of None] show ?thesis by fastforce
    next
      case (Cons x xs)
      with get_Cons [OF Cons.prems(1)] that [of "Some x"] show ?thesis by fastforce
    qed
    from Cons.IH [OF t(2)] Cons.prems(2) obtain acc got s' where
      "run_ops put get ops t = Inr (acc, got, s')" "wf s'" "got @ content s' = content t @ acc"
      by (metis list.set_intros(2))
    with Get t show ?thesis by auto
  qed
qed

end

end
