(* ===== verification/DoubleBuffer.thy ===== *)
theory DoubleBuffer
  imports ByteQueue
begin

text \<open>
  The double buffer of \<^verbatim>\<open>utils/doubleBuffer.c\<close> (the same file in \<^verbatim>\<open>olympus\<close> and \<^verbatim>\<open>master_boot\<close>)
  through which the USB interrupt hands received bytes to the main loop. Writers append to the
  active half, readers consume the other half and swap the halves when it is used up. It refines
  a FIFO of bytes.
\<close>

section \<open>State\<close>

text \<open>
  \<open>base\<close> is the array that \<^verbatim>\<open>base\<close> of \<^verbatim>\<open>doubleBuffer_init\<close> points to; the two pointers
  \<^verbatim>\<open>buffers[0]\<close> and \<^verbatim>\<open>buffers[1]\<close> are offsets into it.
\<close>

record DoubleBuffer_t =
  base :: "u8 list"
  buffers :: "nat list"
  bufferLengths :: "u32 list"
  bufferSize :: u32
  readIdx :: u32
  activeBuffer :: u8

section \<open>Operations\<close>

definition doubleBuffer_init :: "u8 list \<Rightarrow> u32 \<Rightarrow> DoubleBuffer_t" where
  "doubleBuffer_init mem bufLen =
     \<lparr>base = mem, buffers = [0, unat (bufLen div 2)], bufferLengths = [0, 0],
      bufferSize = bufLen div 2, readIdx = 0, activeBuffer = 0\<rparr>"

definition doubleBuffer_switchActive :: "DoubleBuffer_t \<Rightarrow> DoubleBuffer_t" where
  "doubleBuffer_switchActive b =
     (let b' = (if activeBuffer b = 0
                then b\<lparr>bufferLengths := (bufferLengths b)[1 := 0], activeBuffer := 1\<rparr>
                else b\<lparr>bufferLengths := (bufferLengths b)[0 := 0], activeBuffer := 0\<rparr>)
      in b'\<lparr>readIdx := 0\<rparr>)"

definition doubleBuffer_getInactive :: "DoubleBuffer_t \<Rightarrow> u8" where
  "doubleBuffer_getInactive b = (if activeBuffer b = 0 then 1 else 0)"

definition doubleBuffer_write :: "DoubleBuffer_t \<Rightarrow> u8 list \<Rightarrow> u32 \<Rightarrow> (bool \<times> DoubleBuffer_t) cres" where
  "doubleBuffer_write b data len =
     (let active = unat (activeBuffer b) in
      bindE (rd (bufferLengths b) active) (\<lambda>used.
      if len > bufferSize b - used then Inr (False, b)
      else
        bindE (rd (buffers b) active) (\<lambda>off.
        bindE (rd_range data 0 (unat len)) (\<lambda>src.
        bindE (wr_range (base b) (off + unat used) src) (\<lambda>mem.
        Inr (True, b\<lparr>base := mem,
                     bufferLengths := (bufferLengths b)[active := used + len]\<rparr>))))))"

definition doubleBuffer_getReadLength :: "DoubleBuffer_t \<Rightarrow> (u32 \<times> DoubleBuffer_t) cres" where
  "doubleBuffer_getReadLength b =
     bindE (rd (bufferLengths b) (unat (doubleBuffer_getInactive b))) (\<lambda>l.
     let len = l - readIdx b in
     if len = 0
     then let b' = doubleBuffer_switchActive b in
          bindE (rd (bufferLengths b') (unat (doubleBuffer_getInactive b'))) (\<lambda>l'.
          Inr (l' - readIdx b', b'))
     else Inr (len, b))"

text \<open>\<open>doubleBuffer_read\<close> returns the bytes it stores through \<^verbatim>\<open>data\<close>; their number is its result.\<close>

definition doubleBuffer_read :: "DoubleBuffer_t \<Rightarrow> u32 \<Rightarrow> (u8 list \<times> DoubleBuffer_t) cres" where
  "doubleBuffer_read b len =
     bindE (doubleBuffer_getReadLength b) (\<lambda>(bytesAvailable, b').
     if bytesAvailable > 0
     then let numBytesToRead = (if len < bytesAvailable then len else bytesAvailable) in
          bindE (rd (buffers b') (unat (doubleBuffer_getInactive b'))) (\<lambda>off.
          bindE (rd_range (base b') (off + unat (readIdx b')) (unat numBytesToRead)) (\<lambda>bytes.
          Inr (bytes, b'\<lparr>readIdx := readIdx b' + numBytesToRead\<rparr>)))
     else Inr ([], b'))"

text \<open>\<^verbatim>\<open>doubleBuffer_read(&usbReceiveBuffer, &dataIn, 1)\<close>, as the main loop of Olympus calls it.\<close>

definition doubleBuffer_read1 :: "DoubleBuffer_t \<Rightarrow> (u8 option \<times> DoubleBuffer_t) cres" where
  "doubleBuffer_read1 b =
     bindE (doubleBuffer_read b 1) (\<lambda>(bytes, b').
     Inr (case bytes of [] \<Rightarrow> None | x # _ \<Rightarrow> Some x, b'))"

section \<open>Invariant and abstraction\<close>

text \<open>
  The two halves have the same size and fit into the array, at most \<open>bufferSize\<close> bytes of each are
  in use, and the read index has not passed the end of the half being read.
\<close>

definition db_wf :: "DoubleBuffer_t \<Rightarrow> bool" where
  "db_wf b \<longleftrightarrow>
     (\<exists>l0 l1. bufferLengths b = [l0, l1] \<and> l0 \<le> bufferSize b \<and> l1 \<le> bufferSize b \<and>
        buffers b = [0, unat (bufferSize b)] \<and> 2 * unat (bufferSize b) \<le> length (base b) \<and>
        (activeBuffer b = 0 \<and> readIdx b \<le> l1 \<or> activeBuffer b = 1 \<and> readIdx b \<le> l0))"

definition half :: "DoubleBuffer_t \<Rightarrow> nat \<Rightarrow> u8 list" where
  "half b i = take (unat (bufferLengths b ! i)) (drop (buffers b ! i) (base b))"

text \<open>What is still to be read: the rest of the inactive half, then the active half.\<close>

definition db_content :: "DoubleBuffer_t \<Rightarrow> u8 list" where
  "db_content b =
     drop (unat (readIdx b)) (half b (if activeBuffer b = 0 then 1 else 0)) @
     half b (if activeBuffer b = 0 then 0 else 1)"

lemma half_upd [simp]:
  "half (b\<lparr>readIdx := r\<rparr>) i = half b i" "half (b\<lparr>activeBuffer := a\<rparr>) i = half b i"
  by (simp_all add: half_def)

lemma db_wf_cases:
  assumes "db_wf b"
  obtains (zero) l0 l1 where "activeBuffer b = 0" "bufferLengths b = [l0, l1]"
      "buffers b = [0, unat (bufferSize b)]" "unat l0 \<le> unat (bufferSize b)"
      "unat l1 \<le> unat (bufferSize b)" "unat (readIdx b) \<le> unat l1"
      "2 * unat (bufferSize b) \<le> length (base b)"
  | (one) l0 l1 where "activeBuffer b = 1" "bufferLengths b = [l0, l1]"
      "buffers b = [0, unat (bufferSize b)]" "unat l0 \<le> unat (bufferSize b)"
      "unat l1 \<le> unat (bufferSize b)" "unat (readIdx b) \<le> unat l0"
      "2 * unat (bufferSize b) \<le> length (base b)"
  using assms unfolding db_wf_def word_le_nat_alt by blast

lemma db_init_wf: "unat bufLen \<le> length mem \<Longrightarrow> db_wf (doubleBuffer_init mem bufLen)"
  by (auto simp: db_wf_def doubleBuffer_init_def unat_div)

lemma db_init_content: "db_content (doubleBuffer_init mem bufLen) = []"
  by (simp add: db_content_def half_def doubleBuffer_init_def)

section \<open>Writing\<close>

text \<open>The bytes the active half has in use.\<close>

definition db_used :: "DoubleBuffer_t \<Rightarrow> nat" where
  "db_used b = unat (bufferLengths b ! unat (activeBuffer b))"

lemma take_app_range:
  assumes "off + n + length vs \<le> length a"
  shows "take (n + length vs) (drop off (take (off + n) a @ vs @ drop (off + n + length vs) a)) =
         take n (drop off a) @ vs"
  using assms by (simp add: drop_take)

lemma take_before_range:
  assumes "off + length vs \<le> length a" "k + n \<le> off"
  shows "take n (drop k (take off a @ vs @ drop (off + length vs) a)) = take n (drop k a)"
  using assms by (intro nth_equalityI) (auto simp: nth_append)

lemma take_after_range:
  assumes "off + length vs \<le> k" "off + length vs \<le> length a"
  shows "take n (drop k (take off a @ vs @ drop (off + length vs) a)) = take n (drop k a)"
  using assms by (simp add: add.commute)

lemma doubleBuffer_write_spec:
  assumes "db_wf b" and "length data = unat len"
  shows "\<exists>b'. doubleBuffer_write b data len = Inr (unat len \<le> unat (bufferSize b) - db_used b, b') \<and>
    db_wf b' \<and> bufferSize b' = bufferSize b \<and>
    db_content b' = db_content b @ (if unat len \<le> unat (bufferSize b) - db_used b then data else [])"
  using assms(1)
proof (cases rule: db_wf_cases)
  case (zero l0 l1)
  show ?thesis
  proof (cases "unat len \<le> unat (bufferSize b) - unat l0")
    case True
    with zero have "unat l0 + unat len < 4294967296"
      using u32_less [of "bufferSize b"] by linarith
    then have fit: "unat (l0 + len) = unat l0 + unat len" by (rule unat_add_u32)
    from zero True have "\<not> len > bufferSize b - l0"
      by (simp add: word_less_nat_alt word_le_nat_alt unat_simps)
    note fit = this fit
    with zero True assms(2) show ?thesis
      by (auto simp: doubleBuffer_write_def db_used_def db_wf_def db_content_def half_def Let_def
          word_le_nat_alt take_app_range [where off = 0, simplified] take_after_range)
  next
    case False
    with zero have "len > bufferSize b - l0"
      by (auto simp: word_less_nat_alt word_le_nat_alt unat_simps)
    with zero False assms(1) show ?thesis by (auto simp: doubleBuffer_write_def db_used_def)
  qed
next
  case (one l0 l1)
  show ?thesis
  proof (cases "unat len \<le> unat (bufferSize b) - unat l1")
    case True
    with one have "unat l1 + unat len < 4294967296"
      using u32_less [of "bufferSize b"] by linarith
    then have fit: "unat (l1 + len) = unat l1 + unat len" by (rule unat_add_u32)
    from one True have "\<not> len > bufferSize b - l1"
      by (simp add: word_less_nat_alt word_le_nat_alt unat_simps)
    note fit = this fit
    with one True assms(2) show ?thesis
      using take_app_range [of "unat (bufferSize b)" "unat l1" data "base b"]
        take_before_range [of "unat (bufferSize b) + unat l1" data "base b" 0 "unat l0"]
      by (auto simp: doubleBuffer_write_def db_used_def db_wf_def db_content_def half_def Let_def
          word_le_nat_alt)
  next
    case False
    with one have "len > bufferSize b - l1"
      by (auto simp: word_less_nat_alt word_le_nat_alt unat_simps)
    with one False assms(1) show ?thesis by (auto simp: doubleBuffer_write_def db_used_def)
  qed
qed


section \<open>Reading\<close>

lemma db_switch_wf_content:
  assumes "db_wf b" and "drop (unat (readIdx b)) (half b (if activeBuffer b = 0 then 1 else 0)) = []"
  shows "db_wf (doubleBuffer_switchActive b) \<and>
    db_content (doubleBuffer_switchActive b) = db_content b \<and>
    readIdx (doubleBuffer_switchActive b) = 0"
  using assms(1)
proof (cases rule: db_wf_cases)
  case (zero l0 l1)
  with assms(2) show ?thesis
    by (auto simp: doubleBuffer_switchActive_def db_wf_def db_content_def half_def word_le_nat_alt)
next
  case (one l0 l1)
  with assms(2) show ?thesis
    by (auto simp: doubleBuffer_switchActive_def db_wf_def db_content_def half_def word_le_nat_alt)
qed

text \<open>The unread bytes of the half that is being read.\<close>

abbreviation db_pending :: "DoubleBuffer_t \<Rightarrow> u8 list" where
  "db_pending b \<equiv> drop (unat (readIdx b)) (half b (if activeBuffer b = 0 then 1 else 0))"

lemma db_len_pending:
  assumes "db_wf b"
  shows "rd (bufferLengths b) (unat (doubleBuffer_getInactive b)) =
      Inr (bufferLengths b ! unat (doubleBuffer_getInactive b))"
    and "unat (bufferLengths b ! unat (doubleBuffer_getInactive b) - readIdx b) =
      length (db_pending b)"
  using assms by (cases rule: db_wf_cases;
      simp add: doubleBuffer_getInactive_def half_def unat_simps word_le_nat_alt)+

lemma doubleBuffer_getReadLength_spec:
  assumes "db_wf b"
  shows "\<exists>len b'. doubleBuffer_getReadLength b = Inr (len, b') \<and> db_wf b' \<and>
    db_content b' = db_content b \<and> unat len = length (db_pending b') \<and>
    (unat len = 0 \<longrightarrow> db_content b = [])"
proof (cases "db_pending b = []")
  case True
  let ?b = "doubleBuffer_switchActive b"
  have wf: "db_wf ?b" "db_content ?b = db_content b" "readIdx ?b = 0"
    using db_switch_wf_content [OF assms True] by auto
  have "bufferLengths b ! unat (doubleBuffer_getInactive b) - readIdx b = 0"
    using db_len_pending(2) [OF assms] True by (simp add: unat_eq_zero)
  with db_len_pending [OF wf(1)] db_len_pending(1) [OF assms]
  have "doubleBuffer_getReadLength b =
      Inr (bufferLengths ?b ! unat (doubleBuffer_getInactive ?b) - readIdx ?b, ?b)"
    by (simp add: doubleBuffer_getReadLength_def Let_def)
  moreover have "db_pending ?b = [] \<longrightarrow> db_content b = []"
    using assms True wf(2) unfolding db_content_def
    by (cases rule: db_wf_cases) (auto simp: doubleBuffer_switchActive_def half_def)
  ultimately show ?thesis using wf db_len_pending(2) [OF wf(1)] by auto
next
  case False
  then have "bufferLengths b ! unat (doubleBuffer_getInactive b) - readIdx b \<noteq> 0"
    using db_len_pending(2) [OF assms] by (metis length_0_conv unat_0)
  with False show ?thesis
    using assms db_len_pending [OF assms] by (simp add: doubleBuffer_getReadLength_def Let_def)
qed

lemma take_drop_take: "k + n \<le> m \<Longrightarrow> take n (drop k (take m xs)) = take n (drop k xs)"
  by (simp add: drop_take min_def)

lemma db_pending_range:
  assumes "db_wf b" and "n \<le> length (db_pending b)"
  shows "bindE (rd (buffers b) (unat (doubleBuffer_getInactive b)))
      (\<lambda>off. rd_range (base b) (off + unat (readIdx b)) n) = Inr (take n (db_pending b))"
    and "unat r = n \<Longrightarrow> db_wf (b\<lparr>readIdx := readIdx b + r\<rparr>)"
    and "unat r = n \<Longrightarrow> db_content (b\<lparr>readIdx := readIdx b + r\<rparr>) = drop n (db_content b)"
proof -
  have le: "unat (readIdx b) + n \<le> unat (bufferLengths b ! unat (doubleBuffer_getInactive b))"
    using assms by (cases rule: db_wf_cases) (auto simp: doubleBuffer_getInactive_def half_def)
  from assms(1) le show "bindE (rd (buffers b) (unat (doubleBuffer_getInactive b)))
      (\<lambda>off. rd_range (base b) (off + unat (readIdx b)) n) = Inr (take n (db_pending b))"
    by (cases rule: db_wf_cases)
      (simp_all add: doubleBuffer_getInactive_def half_def take_drop_take add.commute)
  assume r: "unat r = n"
  from le have no_wrap: "unat (readIdx b + r) = unat (readIdx b) + n"
    using r u32_less [of "bufferLengths b ! unat (doubleBuffer_getInactive b)"]
      unat_add_u32 [of "readIdx b" r] by linarith
  show "db_wf (b\<lparr>readIdx := readIdx b + r\<rparr>)"
    using assms(1) no_wrap le
    by (cases rule: db_wf_cases)
      (simp_all add: db_wf_def word_le_nat_alt doubleBuffer_getInactive_def)
  show "db_content (b\<lparr>readIdx := readIdx b + r\<rparr>) = drop n (db_content b)"
    using assms(2) no_wrap by (simp add: db_content_def add.commute)
qed

lemma doubleBuffer_read_spec:
  assumes "db_wf b"
  shows "\<exists>bytes b'. doubleBuffer_read b len = Inr (bytes, b') \<and> db_wf b' \<and>
    db_content b = bytes @ db_content b' \<and> length bytes \<le> unat len \<and>
    (bytes = [] \<longrightarrow> len = 0 \<or> db_content b = [])"
proof -
  obtain avail c where c: "doubleBuffer_getReadLength b = Inr (avail, c)" "db_wf c"
    "db_content c = db_content b" "unat avail = length (db_pending c)"
    "unat avail = 0 \<longrightarrow> db_content b = []"
    using doubleBuffer_getReadLength_spec [OF assms] by (elim exE conjE) (rule that)
  show ?thesis
  proof (cases "avail > 0")
    case True
    define n where "n = (if len < avail then len else avail)"
    have n: "unat n \<le> length (db_pending c)" "unat n \<le> unat len"
      using c(4) by (auto simp: n_def word_less_nat_alt)
    have n0: "unat n = 0 \<longrightarrow> len = 0"
      using True by (auto simp: n_def word_less_nat_alt unat_eq_zero)
    note range = db_pending_range [OF c(2) n(1)]
    let ?c = "c\<lparr>readIdx := readIdx c + n\<rparr>"
    have "doubleBuffer_read b len = Inr (take (unat n) (db_pending c), ?c)"
      using True c(1) range(1)
      by (auto simp: doubleBuffer_read_def Let_def bindE_eq_Inr n_def [symmetric])
    moreover have "db_content b = take (unat n) (db_pending c) @ db_content ?c"
    proof -
      have "take (unat n) (db_content c) = take (unat n) (db_pending c)"
        using n(1) by (simp add: db_content_def)
      then show ?thesis
        using c(3) range(3) [OF refl] by (metis append_take_drop_id)
    qed
    ultimately show ?thesis
      using range(2) [OF refl] n n0 by auto
  next
    case False
    then have "avail = 0" by (simp add: word_gt_0)
    with c show ?thesis by (auto simp: doubleBuffer_read_def)
  qed
qed

lemma doubleBuffer_read1_cases:
  assumes "db_wf b"
  shows "(case db_content b of
      [] \<Rightarrow> \<exists>b'. doubleBuffer_read1 b = Inr (None, b') \<and> db_wf b' \<and> db_content b' = []
    | x # xs \<Rightarrow> \<exists>b'. doubleBuffer_read1 b = Inr (Some x, b') \<and> db_wf b' \<and> db_content b' = xs)"
proof -
  obtain bytes b' where r: "doubleBuffer_read b 1 = Inr (bytes, b')" "db_wf b'"
    "db_content b = bytes @ db_content b'" "length bytes \<le> 1"
    "bytes = [] \<longrightarrow> db_content b = []"
    using doubleBuffer_read_spec [OF assms, of 1] by auto
  then show ?thesis
    by (cases bytes) (auto simp: doubleBuffer_read1_def split: list.splits)
qed

section \<open>The double buffer is a byte channel\<close>

definition doubleBuffer_put :: "DoubleBuffer_t \<Rightarrow> u8 list \<Rightarrow> (bool \<times> DoubleBuffer_t) cres" where
  "doubleBuffer_put b data = doubleBuffer_write b data (of_nat (length data))"

lemma doubleBuffer_put_law:
  assumes "db_wf b" and "length data < 4294967296"
  shows "\<exists>ok b'. doubleBuffer_put b data = Inr (ok, b') \<and> db_wf b' \<and>
    db_content b' = db_content b @ (if ok then data else [])"
  using doubleBuffer_write_spec [OF assms(1), of data "of_nat (length data)"] assms(2)
  by (auto simp: doubleBuffer_put_def unat_simps)

interpretation db: byte_channel db_wf db_content doubleBuffer_read1 doubleBuffer_put
  "\<lambda>xs. length xs < 4294967296"
proof unfold_locales
  fix s assume "db_wf s" "db_content s = []"
  then show "\<exists>s'. doubleBuffer_read1 s = Inr (None, s') \<and> db_wf s' \<and> db_content s' = []"
    using doubleBuffer_read1_cases [of s] by simp
next
  fix s b bs assume "db_wf s" "db_content s = b # bs"
  then show "\<exists>s'. doubleBuffer_read1 s = Inr (Some b, s') \<and> db_wf s' \<and> db_content s' = bs"
    using doubleBuffer_read1_cases [of s] by simp
next
  fix s and xs :: "u8 list" assume "db_wf s" "length xs < 4294967296"
  then show "\<exists>ok s'. doubleBuffer_put s xs = Inr (ok, s') \<and> db_wf s' \<and>
      db_content s' = db_content s @ (if ok then xs else [])"
    by (rule doubleBuffer_put_law)
qed

section \<open>Properties\<close>



text \<open>
  \<^verbatim>\<open>doubleBuffer_write\<close> accepts a block exactly when it fits into the free part of the active
  half; an accepted block is appended to the queue, a refused one leaves the queue as it was, and
  in both cases the structure stays well-formed.
\<close>
theorem doubleBuffer_write_accepts_iff_fits:
  assumes "db_wf b" and "length data = unat len"
  shows "\<exists>ok b'. doubleBuffer_write b data len = Inr (ok, b') \<and> db_wf b' \<and>
    (ok \<longleftrightarrow> unat len \<le> unat (bufferSize b) - db_used b) \<and>
    db_content b' = (if ok then db_content b @ data else db_content b)"
  using doubleBuffer_write_spec [OF assms] by auto

theorem doubleBuffer_write_accepts_iff_fits_witness:
  "db_wf (doubleBuffer_init (replicate 8 0) 8) \<and>
   (\<exists>ok b'. doubleBuffer_write (doubleBuffer_init (replicate 8 0) 8) [7, 9] 2 = Inr (ok, b') \<and>
      db_wf b' \<and>
      (ok \<longleftrightarrow> unat (2 :: u32) \<le> unat (bufferSize (doubleBuffer_init (replicate 8 0) 8))
                 - db_used (doubleBuffer_init (replicate 8 0) 8)) \<and>
      db_content b' = (if ok then db_content (doubleBuffer_init (replicate 8 0) 8) @ [7, 9]
                       else db_content (doubleBuffer_init (replicate 8 0) 8)))"
proof -
  have wf: "db_wf (doubleBuffer_init (replicate 8 0) 8)" by (rule db_init_wf) simp
  show ?thesis using wf doubleBuffer_write_accepts_iff_fits [OF wf, of "[7, 9]" 2] by simp
qed

end
