(* ===== verification/UsbCdc.thy ===== *)
theory UsbCdc
  imports DoubleBuffer
begin

text \<open>
  The USB serial link of Olympus and of the master bootloader: the part of
  \<^verbatim>\<open>master_lib/peripherals/USB/usb_otg.c\<close> that connects the CDC class driver to the double buffer,
  and the operations of the class driver (\<^verbatim>\<open>usbd_cdc.c\<close>) it calls. The USB hardware is an event:
  a packet arrives at the armed OUT endpoint, or the transfer on the IN endpoint completes.

  \<open>RxBuffer\<close> is a pointer into \<^verbatim>\<open>usbRecvData\<close>, the array that is also the storage of the double
  buffer, so it is an offset into \<open>base\<close> of \<open>usbReceiveBuffer\<close>: the aliasing of the source is kept.
\<close>

section \<open>State\<close>

datatype USBD_StatusTypeDef = USBD_OK | USBD_BUSY | USBD_FAIL

text \<open>The fields of \<^verbatim>\<open>USBD_CDC_HandleTypeDef\<close> that the operations below read or write.\<close>

record USBD_CDC_HandleTypeDef =
  cdata :: "u8 list"             \<comment> \<open>the array \<^verbatim>\<open>data\<close> for control requests, as bytes\<close>
  CmdOpCode :: u8
  CmdLength :: u8
  RxBuffer :: nat
  TxBuffer :: "u8 list"
  RxLength :: u32
  TxLength :: u32
  TxState :: u32
  RxState :: u32

text \<open>
  \<open>pClassData\<close> is \<open>None\<close> for \<^verbatim>\<open>NULL\<close>. \<open>rxArmed\<close> tells whether the OUT endpoint has been prepared to
  receive (and with how many bytes at most); \<open>transmitted\<close> lists the buffers handed to
  \<^verbatim>\<open>USBD_LL_Transmit\<close>, latest last.
\<close>

record usb_dev =
  pClassData :: "USBD_CDC_HandleTypeDef option"
  high_speed :: bool
  usbReceiveBuffer :: DoubleBuffer_t
  rxArmed :: "nat option"
  transmitted :: "u8 list list"

definition USB_RECEIVE_BUFFER_SIZE :: u32 where "USB_RECEIVE_BUFFER_SIZE = 2048"
definition CDC_DATA_HS_OUT_PACKET_SIZE :: nat where "CDC_DATA_HS_OUT_PACKET_SIZE = 512"
definition CDC_DATA_FS_OUT_PACKET_SIZE :: nat where "CDC_DATA_FS_OUT_PACKET_SIZE = 64"

section \<open>The class driver\<close>

definition USBD_CDC_SetTxBuffer :: "usb_dev \<Rightarrow> u8 list \<Rightarrow> u16 \<Rightarrow> (USBD_StatusTypeDef \<times> usb_dev) cres" where
  "USBD_CDC_SetTxBuffer pdev pbuff len =
     (case pClassData pdev of
        None \<Rightarrow> Inl NullDeref
      | Some hcdc \<Rightarrow>
          Inr (USBD_OK, pdev\<lparr>pClassData := Some (hcdc\<lparr>TxBuffer := pbuff, TxLength := ucast len\<rparr>)\<rparr>))"

definition USBD_CDC_SetRxBuffer :: "usb_dev \<Rightarrow> nat \<Rightarrow> (USBD_StatusTypeDef \<times> usb_dev) cres" where
  "USBD_CDC_SetRxBuffer pdev pbuff =
     (case pClassData pdev of
        None \<Rightarrow> Inl NullDeref
      | Some hcdc \<Rightarrow> Inr (USBD_OK, pdev\<lparr>pClassData := Some (hcdc\<lparr>RxBuffer := pbuff\<rparr>)\<rparr>))"

definition USBD_CDC_TransmitPacket :: "usb_dev \<Rightarrow> (USBD_StatusTypeDef \<times> usb_dev) cres" where
  "USBD_CDC_TransmitPacket pdev =
     (case pClassData pdev of
        None \<Rightarrow> Inr (USBD_FAIL, pdev)
      | Some hcdc \<Rightarrow>
          if TxState hcdc = 0
          then bindE (rd_range (TxBuffer hcdc) 0 (unat (TxLength hcdc))) (\<lambda>bytes.
               Inr (USBD_OK, pdev\<lparr>pClassData := Some (hcdc\<lparr>TxState := 1\<rparr>),
                                  transmitted := transmitted pdev @ [bytes]\<rparr>))
          else Inr (USBD_BUSY, pdev))"

definition USBD_CDC_ReceivePacket :: "usb_dev \<Rightarrow> USBD_StatusTypeDef \<times> usb_dev" where
  "USBD_CDC_ReceivePacket pdev =
     (if pClassData pdev \<noteq> None
      then (USBD_OK, pdev\<lparr>rxArmed := Some (if high_speed pdev then CDC_DATA_HS_OUT_PACKET_SIZE
                                              else CDC_DATA_FS_OUT_PACKET_SIZE)\<rparr>)
      else (USBD_FAIL, pdev))"

definition USBD_CDC_GetTxState :: "usb_dev \<Rightarrow> USBD_StatusTypeDef" where
  "USBD_CDC_GetTxState pdev =
     (case pClassData pdev of
        None \<Rightarrow> USBD_FAIL
      | Some hcdc \<Rightarrow> if TxState hcdc = 0 then USBD_OK else USBD_BUSY)"

definition USBD_CDC_DataIn :: "usb_dev \<Rightarrow> USBD_StatusTypeDef \<times> usb_dev" where
  "USBD_CDC_DataIn pdev =
     (case pClassData pdev of
        None \<Rightarrow> (USBD_FAIL, pdev)
      | Some hcdc \<Rightarrow> (USBD_OK, pdev\<lparr>pClassData := Some (hcdc\<lparr>TxState := 0\<rparr>)\<rparr>))"

section \<open>The CDC interface callbacks\<close>

text \<open>\<open>data\<close> is a pointer into \<^verbatim>\<open>usbRecvData\<close>, hence an offset.\<close>

definition CDC_Receive :: "usb_dev \<Rightarrow> nat \<Rightarrow> u32 \<Rightarrow> (USBD_StatusTypeDef \<times> usb_dev) cres" where
  "CDC_Receive pdev data len =
     bindE (doubleBuffer_write (usbReceiveBuffer pdev)
              (drop data (base (usbReceiveBuffer pdev))) len) (\<lambda>(ok, b).
     let pdev' = pdev\<lparr>usbReceiveBuffer := b\<rparr> in
     if \<not> ok then Inr (USBD_OK, pdev') else Inr (USBD_CDC_ReceivePacket pdev'))"

definition CDC_Init :: "usb_dev \<Rightarrow> (USBD_StatusTypeDef \<times> usb_dev) cres" where
  "CDC_Init pdev =
     USBD_CDC_SetRxBuffer
       (pdev\<lparr>usbReceiveBuffer :=
          doubleBuffer_init (base (usbReceiveBuffer pdev)) USB_RECEIVE_BUFFER_SIZE\<rparr>) 0"

definition CDC_Control :: "usb_dev \<Rightarrow> USBD_StatusTypeDef \<times> usb_dev" where
  "CDC_Control pdev = (USBD_OK, pdev)"

text \<open>
  The hardware stores a received packet at \<^verbatim>\<open>RxBuffer\<close> and the class driver passes it on;
  \<^verbatim>\<open>USBD_LL_GetRxDataSize\<close> is the length of the packet. Only an armed endpoint takes a packet.
\<close>

definition USBD_CDC_DataOut :: "usb_dev \<Rightarrow> u32 \<Rightarrow> (USBD_StatusTypeDef \<times> usb_dev) cres" where
  "USBD_CDC_DataOut pdev rxSize =
     (case pClassData pdev of
        None \<Rightarrow> Inl NullDeref
      | Some hcdc \<Rightarrow>
          bindE (CDC_Receive (pdev\<lparr>pClassData := Some (hcdc\<lparr>RxLength := rxSize\<rparr>)\<rparr>)
                   (RxBuffer hcdc) rxSize) (\<lambda>(_, pdev').
          Inr (USBD_OK, pdev')))"

definition usb_packet_arrives :: "usb_dev \<Rightarrow> u8 list \<Rightarrow> usb_dev cres" where
  "usb_packet_arrives pdev pkt =
     (case (rxArmed pdev, pClassData pdev) of
        (Some maxlen, Some hcdc) \<Rightarrow>
          if length pkt \<le> maxlen
          then bindE (wr_range (base (usbReceiveBuffer pdev)) (RxBuffer hcdc) pkt) (\<lambda>mem.
               bindE (USBD_CDC_DataOut
                        (pdev\<lparr>usbReceiveBuffer := (usbReceiveBuffer pdev)\<lparr>base := mem\<rparr>,
                              rxArmed := None\<rparr>) (of_nat (length pkt))) (\<lambda>(_, pdev').
               Inr pdev'))
          else Inr pdev
      | _ \<Rightarrow> Inr pdev)"

text \<open>\<open>allocated\<close> is what \<^verbatim>\<open>USBD_malloc\<close> returns: \<^verbatim>\<open>NULL\<close>, or a structure with arbitrary contents.\<close>

definition USBD_CDC_Init :: "usb_dev \<Rightarrow> USBD_CDC_HandleTypeDef option \<Rightarrow> (u8 \<times> usb_dev) cres" where
  "USBD_CDC_Init pdev allocated =
     (let pdev1 = pdev\<lparr>pClassData := allocated\<rparr> in
      if pClassData pdev1 = None then Inr (1, pdev1)
      else
        bindE (CDC_Init pdev1) (\<lambda>(_, pdev2).
        Inr (0, pdev2\<lparr>pClassData := map_option (\<lambda>h. h\<lparr>TxState := 0, RxState := 0\<rparr>) (pClassData pdev2),
                       rxArmed := Some (if high_speed pdev2 then CDC_DATA_HS_OUT_PACKET_SIZE
                                        else CDC_DATA_FS_OUT_PACKET_SIZE)\<rparr>)))"

definition usbWrite :: "usb_dev \<Rightarrow> u8 list \<Rightarrow> u16 \<Rightarrow> (USBD_StatusTypeDef \<times> usb_dev) cres" where
  "usbWrite pdev data len =
     bindE (USBD_CDC_SetTxBuffer pdev data len) (\<lambda>(_, pdev'). USBD_CDC_TransmitPacket pdev')"

section \<open>A packet at an armed endpoint\<close>

definition usb_ready :: "usb_dev \<Rightarrow> bool" where
  "usb_ready pdev \<longleftrightarrow>
     (\<exists>hcdc. pClassData pdev = Some hcdc \<and> RxBuffer hcdc = 0) \<and>
     rxArmed pdev = Some CDC_DATA_FS_OUT_PACKET_SIZE \<and> \<not> high_speed pdev \<and>
     length (base (usbReceiveBuffer pdev)) = 2048 \<and>
     bufferSize (usbReceiveBuffer pdev) = 1024 \<and> db_wf (usbReceiveBuffer pdev)"

text \<open>The double buffer after the packet has been stored at the start of its own array.\<close>

abbreviation overwritten :: "DoubleBuffer_t \<Rightarrow> u8 list \<Rightarrow> DoubleBuffer_t" where
  "overwritten b pkt \<equiv> b\<lparr>base := pkt @ drop (length pkt) (base b)\<rparr>"

lemma overwritten_wf:
  "db_wf b \<Longrightarrow> length pkt \<le> length (base b) \<Longrightarrow> db_wf (overwritten b pkt)"
  by (auto simp: db_wf_def)

lemma usb_packet_arrives_eq:
  assumes "usb_ready pdev" and "length pkt \<le> 64"
  shows "usb_packet_arrives pdev pkt =
    bindE (doubleBuffer_write (overwritten (usbReceiveBuffer pdev) pkt)
             (pkt @ drop (length pkt) (base (usbReceiveBuffer pdev))) (of_nat (length pkt)))
      (\<lambda>(ok, b). Inr (pdev\<lparr>pClassData := map_option (\<lambda>h. h\<lparr>RxLength := of_nat (length pkt)\<rparr>)
                                               (pClassData pdev),
                            usbReceiveBuffer := b,
                            rxArmed := (if ok then Some 64 else None)\<rparr>))"
  using assms
  by (auto simp: usb_ready_def usb_packet_arrives_def USBD_CDC_DataOut_def CDC_Receive_def
      USBD_CDC_ReceivePacket_def CDC_DATA_FS_OUT_PACKET_SIZE_def bindE_def Let_def
      split: sum.splits)


lemma usb_init_ready:
  assumes "length (base (usbReceiveBuffer pdev)) = 2048" and "\<not> high_speed pdev"
  shows "\<exists>pdev'. USBD_CDC_Init pdev (Some h) = Inr (0, pdev') \<and> usb_ready pdev' \<and>
    db_content (usbReceiveBuffer pdev') = [] \<and>
    usbReceiveBuffer pdev' = doubleBuffer_init (base (usbReceiveBuffer pdev)) 2048"
  using assms db_init_wf [of 2048 "base (usbReceiveBuffer pdev)"]
  by (simp add: USBD_CDC_Init_def CDC_Init_def USBD_CDC_SetRxBuffer_def usb_ready_def
      USB_RECEIVE_BUFFER_SIZE_def db_init_content)
    (simp add: doubleBuffer_init_def)

lemma doubleBuffer_write_prefix:
  "unat len \<le> length data \<Longrightarrow>
   doubleBuffer_write b data len = doubleBuffer_write b (take (unat len) data) len"
  by (simp add: doubleBuffer_write_def Let_def rd_range_def cong: if_cong)

lemma db_empty_used: "db_wf b \<Longrightarrow> db_content b = [] \<Longrightarrow> db_used b = 0"
  by (cases rule: db_wf_cases) (auto simp: db_content_def half_def db_used_def)

lemma db_empty_overwritten:
  "db_wf b \<Longrightarrow> db_content b = [] \<Longrightarrow> length pkt \<le> length (base b) \<Longrightarrow>
   db_content (overwritten b pkt) = []"
  by (cases rule: db_wf_cases) (auto simp: db_content_def half_def)

section \<open>Properties\<close>

text \<open>
  A USB packet that arrives when everything received before has been read is queued whole and
  the endpoint is armed again: after initialisation, or in any later ready state with an empty
  queue, a packet of 1 to 64 bytes makes the queue hold exactly that packet.
\<close>
theorem usb_packet_queued_when_empty:
  assumes "usb_ready pdev" and "db_content (usbReceiveBuffer pdev) = []" and "length pkt \<le> 64"
  shows "\<exists>pdev'. usb_packet_arrives pdev pkt = Inr pdev' \<and> usb_ready pdev' \<and>
    db_content (usbReceiveBuffer pdev') = pkt"
proof -
  let ?b = "usbReceiveBuffer pdev"
  let ?len = "of_nat (length pkt) :: u32"
  have len: "unat ?len = length pkt" using assms(3) by (simp add: unat_simps)
  have b: "db_wf ?b" "length (base ?b) = 2048" "bufferSize ?b = 1024"
    using assms(1) by (auto simp: usb_ready_def)
  have o: "db_wf (overwritten ?b pkt)" "db_content (overwritten ?b pkt) = []"
    "db_used (overwritten ?b pkt) = 0"
    using b assms(2,3) overwritten_wf [of ?b pkt] db_empty_overwritten [of ?b pkt] db_empty_used
    by auto
  obtain b' where b': "doubleBuffer_write (overwritten ?b pkt) pkt ?len = Inr (True, b')"
      "db_wf b'" "bufferSize b' = 1024" "db_content b' = pkt"
    using doubleBuffer_write_spec [OF o(1), of pkt ?len] o b(3) assms(3) len by auto
  have "length (base b') = 2048"
    using b'(1) b(2) assms(3)
    by (auto simp: doubleBuffer_write_def Let_def bindE_eq_Inr dest!: wr_range_length split: if_splits)
  moreover have "usb_packet_arrives pdev pkt = Inr (pdev\<lparr>pClassData :=
      map_option (\<lambda>h. h\<lparr>RxLength := ?len\<rparr>) (pClassData pdev), usbReceiveBuffer := b',
      rxArmed := Some 64\<rparr>)"
    using usb_packet_arrives_eq [OF assms(1,3)] b'(1) len
      doubleBuffer_write_prefix [of ?len "pkt @ drop (length pkt) (base ?b)" "overwritten ?b pkt"]
    by simp
  ultimately show ?thesis
    using assms(1) b' by (auto simp: usb_ready_def CDC_DATA_FS_OUT_PACKET_SIZE_def)
qed


theorem usb_packet_queued_when_empty_witness:
  "\<exists>pdev pdev'. usb_ready pdev \<and> db_content (usbReceiveBuffer pdev) = [] \<and>
     usb_packet_arrives pdev [0xF0, 0x5A] = Inr pdev' \<and> usb_ready pdev' \<and>
     db_content (usbReceiveBuffer pdev') = [0xF0, 0x5A]"
proof -
  let ?pdev = "\<lparr>pClassData = Some \<lparr>cdata = replicate 512 0, CmdOpCode = 0, CmdLength = 0, RxBuffer = 0, TxBuffer = [],
      RxLength = 0, TxLength = 0, TxState = 0, RxState = 0\<rparr>, high_speed = False,
      usbReceiveBuffer = doubleBuffer_init (replicate 2048 0) 2048, rxArmed = Some 64,
      transmitted = []\<rparr>"
  have ready: "usb_ready ?pdev" and empty: "db_content (usbReceiveBuffer ?pdev) = []"
    using db_init_wf [of 2048 "replicate 2048 0"]
    by (simp_all add: usb_ready_def CDC_DATA_FS_OUT_PACKET_SIZE_def db_init_content)
      (simp_all add: doubleBuffer_init_def)
  from usb_packet_queued_when_empty [OF ready empty, of "[0xF0, 0x5A]"] ready empty
  show ?thesis by auto
qed

text \<open>
  The storage the USB driver receives into is the storage of the queue itself
  (\<^verbatim>\<open>USBD_CDC_SetRxBuffer(&USBD_Device, usbRecvData)\<close>), so a packet that arrives before the previous
  one has been read overwrites it: after initialisation, two packets of the same length leave the
  second one in the queue twice and nothing of the first.
\<close>
theorem usb_second_packet_overwrites_first:
  assumes "length (base (usbReceiveBuffer pdev)) = 2048" and "\<not> high_speed pdev"
    and "length p = n" and "length q = n" and "n \<le> 64"
  shows "\<exists>pdev1 pdev2 pdev3.
    USBD_CDC_Init pdev (Some h) = Inr (0, pdev1) \<and>
    usb_packet_arrives pdev1 p = Inr pdev2 \<and>
    usb_packet_arrives pdev2 q = Inr pdev3 \<and>
    db_content (usbReceiveBuffer pdev3) = q @ q"
proof -
  obtain pdev1 where p1: "USBD_CDC_Init pdev (Some h) = Inr (0, pdev1)" "usb_ready pdev1"
    "usbReceiveBuffer pdev1 = doubleBuffer_init (base (usbReceiveBuffer pdev)) 2048"
    using usb_init_ready [OF assms(1,2)] by blast
  define mem where "mem = base (usbReceiveBuffer pdev)"
  have mem: "length mem = 2048" using assms(1) by (simp add: mem_def)
  have n: "unat (of_nat n :: u32) = n" "\<not> 1024 < (of_nat n :: u32)"
    "\<not> 1024 - of_nat n < (of_nat n :: u32)"
    using assms(5) by (auto simp: unat_simps word_less_nat_alt word_le_nat_alt)
  have nn: "unat (2 * of_nat n :: u32) = n + n"
  proof -
    have "n + n < 4294967296" using assms(5) by linarith
    from unat_add_u32 [of "of_nat n" "of_nat n", unfolded n(1), OF this] show ?thesis
      by (simp only: mult_2)
  qed
  define b2 where "b2 = \<lparr>base = p @ drop n mem, buffers = [0, 1024], bufferLengths = [of_nat n, 0],
      bufferSize = 1024, readIdx = 0, activeBuffer = 0\<rparr>"
  define pdev2 where "pdev2 = pdev1\<lparr>pClassData :=
      map_option (\<lambda>h. h\<lparr>RxLength := of_nat n\<rparr>) (pClassData pdev1), usbReceiveBuffer := b2,
      rxArmed := Some 64\<rparr>"
  have s2: "usb_packet_arrives pdev1 p = Inr pdev2"
    using usb_packet_arrives_eq [OF p1(2), of p] assms(3,5) p1(3) n mem
    by (simp add: doubleBuffer_write_def doubleBuffer_init_def Let_def mem_def [symmetric]
        pdev2_def b2_def)
  have "usb_ready pdev2"
    using p1(2) n assms(3,5) mem
    by (auto simp: usb_ready_def pdev2_def b2_def db_wf_def CDC_DATA_FS_OUT_PACKET_SIZE_def
        word_le_nat_alt)
  from usb_packet_arrives_eq [OF this, of q] assms(3-5) n nn mem
  have s3: "\<exists>pdev3. usb_packet_arrives pdev2 q = Inr pdev3 \<and> usbReceiveBuffer pdev3 =
      b2\<lparr>base := q @ q @ drop (n + n) mem, bufferLengths := [2 * of_nat n, 0]\<rparr>"
    by (simp add: doubleBuffer_write_def Let_def pdev2_def b2_def)
  then obtain pdev3 where "usb_packet_arrives pdev2 q = Inr pdev3"
    "db_content (usbReceiveBuffer pdev3) = q @ q"
    using nn assms(4) by (auto simp: b2_def db_content_def half_def)
  with p1(1) s2 show ?thesis by blast
qed

theorem usb_second_packet_overwrites_first_witness:
  "\<exists>pdev h pdev1 pdev2 pdev3.
    length (base (usbReceiveBuffer pdev)) = 2048 \<and> \<not> high_speed pdev \<and>
    USBD_CDC_Init pdev (Some h) = Inr (0, pdev1) \<and>
    usb_packet_arrives pdev1 [1, 2] = Inr pdev2 \<and>
    usb_packet_arrives pdev2 [3, 4] = Inr pdev3 \<and>
    db_content (usbReceiveBuffer pdev3) = [3, 4, 3, 4]"
proof -
  let ?h = "\<lparr>cdata = replicate 512 0, CmdOpCode = 0, CmdLength = 0, RxBuffer = 0, TxBuffer = [], RxLength = 0,
      TxLength = 0, TxState = 0, RxState = 0\<rparr>"
  let ?pdev = "\<lparr>pClassData = None, high_speed = False,
      usbReceiveBuffer = doubleBuffer_init (replicate 2048 0) 2048, rxArmed = None,
      transmitted = []\<rparr>"
  have h: "length (base (usbReceiveBuffer ?pdev)) = 2048" "\<not> high_speed ?pdev"
    by (simp_all add: doubleBuffer_init_def)
  with usb_second_packet_overwrites_first [of ?pdev "[1, 2]" 2 "[3, 4]" ?h] show ?thesis
    by fastforce
qed

end
