(* ===== verification/UsbDescriptors.thy ===== *)
theory UsbDescriptors
  imports Prelude
begin

text \<open>
  The descriptors with which the board tells a USB host what it is: the tables and the string
  functions of \<^verbatim>\<open>master_lib/peripherals/USB/usbd_desc.c\<close>, \<^verbatim>\<open>USBD_GetString\<close> of \<^verbatim>\<open>usbd_ctlreq.c\<close> and the
  configuration descriptors of the serial class in \<^verbatim>\<open>usbd_cdc.c\<close>. The theory proves what a host relies
  on: every string and the serial number can be read back, and the parts of a configuration
  descriptor fit its length.
\<close>

section \<open>Tables\<close>

definition USB_DESC_TYPE_DEVICE :: u8 where "USB_DESC_TYPE_DEVICE = 1"
definition USB_DESC_TYPE_CONFIGURATION :: u8 where "USB_DESC_TYPE_CONFIGURATION = 2"
definition USB_DESC_TYPE_STRING :: u8 where "USB_DESC_TYPE_STRING = 3"
definition USB_DESC_TYPE_INTERFACE :: u8 where "USB_DESC_TYPE_INTERFACE = 4"
definition USB_DESC_TYPE_ENDPOINT :: u8 where "USB_DESC_TYPE_ENDPOINT = 5"
definition USB_DESC_TYPE_DEVICE_QUALIFIER :: u8 where "USB_DESC_TYPE_DEVICE_QUALIFIER = 6"
definition USB_DESC_TYPE_OTHER_SPEED_CONFIGURATION :: u8 where "USB_DESC_TYPE_OTHER_SPEED_CONFIGURATION = 7"

lemmas desc_types = USB_DESC_TYPE_DEVICE_def USB_DESC_TYPE_CONFIGURATION_def USB_DESC_TYPE_STRING_def
  USB_DESC_TYPE_INTERFACE_def USB_DESC_TYPE_ENDPOINT_def USB_DESC_TYPE_DEVICE_QUALIFIER_def
  USB_DESC_TYPE_OTHER_SPEED_CONFIGURATION_def

definition CDC_IN_EP :: u8 where "CDC_IN_EP = 0x81"
definition CDC_OUT_EP :: u8 where "CDC_OUT_EP = 0x01"
definition CDC_CMD_EP :: u8 where "CDC_CMD_EP = 0x82"
definition CDC_CMD_PACKET_SIZE :: nat where "CDC_CMD_PACKET_SIZE = 8"

lemmas cdc_eps = CDC_IN_EP_def CDC_OUT_EP_def CDC_CMD_EP_def

definition USBD_DeviceDesc :: "u8 list" where
  "USBD_DeviceDesc =
    [0x12, USB_DESC_TYPE_DEVICE, 0x00, 0x02, 0x00, 0x00, 0x00, 64, 0x83, 0x04, 0x40, 0x57, 0x00, 0x02,
     1, 2, 3, 1]"

definition USBD_LangIDDesc :: "u8 list" where
  "USBD_LangIDDesc = [4, USB_DESC_TYPE_STRING, 0x09, 0x04]"

definition USBD_CDC_DeviceQualifierDesc :: "u8 list" where
  "USBD_CDC_DeviceQualifierDesc = [0x0A, USB_DESC_TYPE_DEVICE_QUALIFIER, 0x00, 0x02, 0x00, 0x00, 0x00, 0x40, 0x01, 0x00]"

definition USBD_CDC_CfgHSDesc :: "u8 list" where
  "USBD_CDC_CfgHSDesc =
    [0x09, USB_DESC_TYPE_CONFIGURATION, 67, 0x00, 0x02, 0x01, 0x00, 0xC0, 0x32,
     0x09, USB_DESC_TYPE_INTERFACE, 0x00, 0x00, 0x01, 0x02, 0x02, 0x01, 0x00,
     0x05, 0x24, 0x00, 0x10, 0x01,
     0x05, 0x24, 0x01, 0x00, 0x01,
     0x04, 0x24, 0x02, 0x02,
     0x05, 0x24, 0x06, 0x00, 0x01,
     0x07, USB_DESC_TYPE_ENDPOINT, CDC_CMD_EP, 0x03, 8, 0, 0x10,
     0x09, USB_DESC_TYPE_INTERFACE, 0x01, 0x00, 0x02, 0x0A, 0x00, 0x00, 0x00,
     0x07, USB_DESC_TYPE_ENDPOINT, CDC_OUT_EP, 0x02, 0x00, 0x02, 0x00,
     0x07, USB_DESC_TYPE_ENDPOINT, CDC_IN_EP, 0x02, 0x00, 0x02, 0x00]"

definition USBD_CDC_CfgFSDesc :: "u8 list" where
  "USBD_CDC_CfgFSDesc =
    [0x09, USB_DESC_TYPE_CONFIGURATION, 67, 0x00, 0x02, 0x01, 0x00, 0xC0, 0x32,
     0x09, USB_DESC_TYPE_INTERFACE, 0x00, 0x00, 0x01, 0x02, 0x02, 0x01, 0x00,
     0x05, 0x24, 0x00, 0x10, 0x01,
     0x05, 0x24, 0x01, 0x00, 0x01,
     0x04, 0x24, 0x02, 0x02,
     0x05, 0x24, 0x06, 0x00, 0x01,
     0x07, USB_DESC_TYPE_ENDPOINT, CDC_CMD_EP, 0x03, 8, 0, 0x10,
     0x09, USB_DESC_TYPE_INTERFACE, 0x01, 0x00, 0x02, 0x0A, 0x00, 0x00, 0x00,
     0x07, USB_DESC_TYPE_ENDPOINT, CDC_OUT_EP, 0x02, 0x40, 0x00, 0x00,
     0x07, USB_DESC_TYPE_ENDPOINT, CDC_IN_EP, 0x02, 0x40, 0x00, 0x00]"

definition USBD_CDC_OtherSpeedCfgDesc :: "u8 list" where
  "USBD_CDC_OtherSpeedCfgDesc =
    [0x09, USB_DESC_TYPE_OTHER_SPEED_CONFIGURATION, 67, 0x00, 0x02, 0x01, 0x04, 0xC0, 0x32,
     0x09, USB_DESC_TYPE_INTERFACE, 0x00, 0x00, 0x01, 0x02, 0x02, 0x01, 0x00,
     0x05, 0x24, 0x00, 0x10, 0x01,
     0x05, 0x24, 0x01, 0x00, 0x01,
     0x04, 0x24, 0x02, 0x02,
     0x05, 0x24, 0x06, 0x00, 0x01,
     0x07, USB_DESC_TYPE_ENDPOINT, CDC_CMD_EP, 0x03, 8, 0, 0xFF,
     0x09, USB_DESC_TYPE_INTERFACE, 0x01, 0x00, 0x02, 0x0A, 0x00, 0x00, 0x00,
     0x07, USB_DESC_TYPE_ENDPOINT, CDC_OUT_EP, 0x02, 0x40, 0x00, 0x00,
     0x07, USB_DESC_TYPE_ENDPOINT, CDC_IN_EP, 0x02, 0x40, 0x00, 0x00]"

text \<open>The getters of the class driver return a table with its length.\<close>

definition USBD_CDC_GetFSCfgDesc :: "u8 list \<times> u16" where
  "USBD_CDC_GetFSCfgDesc = (USBD_CDC_CfgFSDesc, of_nat (length USBD_CDC_CfgFSDesc))"

definition USBD_CDC_GetHSCfgDesc :: "u8 list \<times> u16" where
  "USBD_CDC_GetHSCfgDesc = (USBD_CDC_CfgHSDesc, of_nat (length USBD_CDC_CfgHSDesc))"

definition USBD_CDC_GetOtherSpeedCfgDesc :: "u8 list \<times> u16" where
  "USBD_CDC_GetOtherSpeedCfgDesc = (USBD_CDC_OtherSpeedCfgDesc, of_nat (length USBD_CDC_OtherSpeedCfgDesc))"

definition USBD_CDC_GetDeviceQualifierDescriptor :: "u8 list \<times> u16" where
  "USBD_CDC_GetDeviceQualifierDescriptor =
     (USBD_CDC_DeviceQualifierDesc, of_nat (length USBD_CDC_DeviceQualifierDesc))"

section \<open>Strings\<close>

text \<open>
  \<open>desc\<close> is the text without its terminating zero. The index is a \<^verbatim>\<open>uint8_t\<close>, so it wraps within the
  256 bytes of \<^verbatim>\<open>USBD_StrDesc\<close>, and so is the length.
\<close>

definition USBD_GetLen :: "u8 list \<Rightarrow> u8" where
  "USBD_GetLen buf = fold (\<lambda>_ len. len + 1) buf 0"

fun getString_loop :: "u8 list \<Rightarrow> u8 \<Rightarrow> u8 list \<Rightarrow> u8 list cres" where
  "getString_loop [] idx unicode = Inr unicode"
| "getString_loop (c # desc) idx unicode =
     bindE (wr unicode (unat idx) c) (\<lambda>unicode.
     bindE (wr unicode (unat (idx + 1)) 0) (\<lambda>unicode.
     getString_loop desc (idx + 2) unicode))"

definition USBD_GetString :: "u8 list \<Rightarrow> u8 list \<Rightarrow> (u8 list \<times> u16) cres" where
  "USBD_GetString desc unicode =
     (let len = ucast (USBD_GetLen desc) * 2 + 2 :: u16 in
      bindE (wr unicode 0 (ucast len)) (\<lambda>unicode.
      bindE (wr unicode 1 USB_DESC_TYPE_STRING) (\<lambda>unicode.
      bindE (getString_loop desc 2 unicode) (\<lambda>unicode. Inr (unicode, len)))))"

definition ascii :: "string \<Rightarrow> u8 list" where
  "ascii = map (\<lambda>c. of_nat (of_char c))"

text \<open>The strings of the application; the boot loader's product name is \<^verbatim>\<open>IGVC USB Bootloader\<close>.\<close>

definition USBD_MANUFACTURER_STRING :: "u8 list" where "USBD_MANUFACTURER_STRING = ascii ''IGVC''"
definition USBD_PRODUCT_HS_STRING :: "u8 list" where "USBD_PRODUCT_HS_STRING = ascii ''STM32 Virtual ComPort in HS Mode''"
definition USBD_PRODUCT_FS_STRING :: "bool \<Rightarrow> u8 list" where
  "USBD_PRODUCT_FS_STRING bootloader = ascii (if bootloader then ''IGVC USB Bootloader'' else ''IGVC USB ComPort'')"
definition USBD_CONFIGURATION_STRING :: "u8 list" where "USBD_CONFIGURATION_STRING = ascii ''VCP Config''"
definition USBD_INTERFACE_STRING :: "u8 list" where "USBD_INTERFACE_STRING = ascii ''VCP Interface''"

section \<open>Serial number\<close>

definition hex_digit :: "u32 \<Rightarrow> u8" where
  "hex_digit v = (if v < 0xA then ucast v + 0x30 else ucast v + 0x41 - 10)"

fun IntToUnicode :: "u32 \<Rightarrow> u8 list \<Rightarrow> nat \<Rightarrow> nat \<Rightarrow> nat \<Rightarrow> u8 list cres" where
  "IntToUnicode v buf p idx 0 = Inr buf"
| "IntToUnicode v buf p idx (Suc n) =
     bindE (wr buf (p + 2 * idx) (hex_digit (drop_bit 28 v))) (\<lambda>buf.
     bindE (wr buf (p + 2 * idx + 1) 0) (\<lambda>buf.
     IntToUnicode (push_bit 4 v) buf p (idx + 1) n))"

text \<open>\<open>ids\<close> are the three words of the chip's unique identification.\<close>

definition Get_SerialNum :: "u32 \<times> u32 \<times> u32 \<Rightarrow> u8 list \<Rightarrow> u8 list cres" where
  "Get_SerialNum ids serial = (case ids of (d0, d1, d2) \<Rightarrow>
     if d0 + d2 \<noteq> 0
     then bindE (IntToUnicode (d0 + d2) serial 2 0 8) (\<lambda>serial. IntToUnicode d1 serial 18 0 4)
     else Inr serial)"

definition USB_SIZ_STRING_SERIAL :: nat where "USB_SIZ_STRING_SERIAL = 0x1A"

definition USBD_StringSerial :: "u8 list" where
  "USBD_StringSerial = [0x1A, USB_DESC_TYPE_STRING] @ replicate 24 0"

section \<open>Strings can be read back\<close>

lemma USBD_GetLen_eq: "USBD_GetLen buf = of_nat (length buf)"
proof -
  have "fold (\<lambda>_ len. len + 1) buf n = n + of_nat (length buf)" for n :: u8
    by (induction buf arbitrary: n) simp_all
  then show ?thesis by (simp add: USBD_GetLen_def)
qed

definition wide :: "u8 list \<Rightarrow> u8 list" where
  "wide desc = concat (map (\<lambda>c. [c, 0]) desc)"

lemma length_wide [simp]: "length (wide desc) = 2 * length desc"
  by (induction desc) (simp_all add: wide_def)

lemma wide_Cons: "wide (c # desc) = c # 0 # wide desc"
  by (simp add: wide_def)

lemma nth_wide: "i < length desc \<Longrightarrow> wide desc ! (2 * i) = desc ! i"
  by (induction desc arbitrary: i) (auto simp: wide_Cons nth_Cons' numeral_2_eq_2 less_Suc_eq_0_disj)

lemma getString_loop_eq:
  assumes "length m = 256" and "2 * k + 2 * length desc \<le> 256"
  shows "getString_loop desc (of_nat (2 * k)) m = Inr (take (2 * k) m @ wide desc @ drop (2 * k + 2 * length desc) m)"
  using assms
proof (induction desc arbitrary: k m)
  case Nil
  then show ?case by (simp add: wide_def)
next
  case (Cons c desc)
  let ?m = "m[2 * k := c, 2 * k + 1 := 0]"
  have i: "unat (of_nat (2 * k) :: u8) = 2 * k" "unat (of_nat (2 * k) + 1 :: u8) = 2 * k + 1"
    using Cons.prems(2) unat_of_nat_u8 [of "2 * k"] unat_of_nat_u8 [of "2 * k + 1"] by (simp_all add: add.commute)
  have n: "of_nat (2 * k) + 2 = (of_nat (2 * Suc k) :: u8)" by simp
  have "getString_loop (c # desc) (of_nat (2 * k)) m = getString_loop desc (of_nat (2 * Suc k)) ?m"
    using Cons.prems unfolding getString_loop.simps(2) i n by (simp add: wr_def)
  also have "\<dots> = Inr (take (2 * Suc k) ?m @ wide desc @ drop (2 * Suc k + 2 * length desc) ?m)"
    using Cons.prems by (intro Cons.IH) simp_all
  also have "take (2 * Suc k) ?m = take (2 * k) m @ [c, 0]"
    using Cons.prems(1,2) by (simp add: take_Suc_conv_app_nth nth_list_update)
  finally show ?case using Cons.prems by (simp add: wide_Cons)
qed

lemma USBD_GetString_eq:
  assumes "length m = 256" and "n = 2 * length desc + 2" and "n \<le> 254"
  shows "USBD_GetString desc m =
    Inr (of_nat n # USB_DESC_TYPE_STRING # wide desc @ drop n m, of_nat n)"
proof -
  obtain a b r where m: "m = a # b # r" "length r = 254"
    using assms(1) by (cases m; cases "tl m") auto
  have "length desc < 256" using assms(2,3) by simp
  then have "(ucast (USBD_GetLen desc) :: u16) = of_nat (length desc)"
    by (simp add: USBD_GetLen_eq unat_of_nat_u8 word_unat_eq_iff unsigned_ucast_eq unat_of_nat take_bit_nat_eq_self_iff)
  then have len: "ucast (USBD_GetLen desc) * 2 + 2 = (of_nat n :: u16)" by (simp add: assms(2))
  have u: "(ucast (of_nat n :: u16) :: u8) = of_nat n"
    using assms(3) by (simp add: word_unat_eq_iff unsigned_ucast_eq unat_of_nat take_bit_nat_eq_self_iff)
  have "getString_loop desc 2 (x # USB_DESC_TYPE_STRING # r) =
      Inr (x # USB_DESC_TYPE_STRING # wide desc @ drop (2 * length desc) r)" for x
    using getString_loop_eq [of "x # USB_DESC_TYPE_STRING # r" 1 desc] m(2) assms(2,3) by (simp add: numeral_2_eq_2)
  then show ?thesis unfolding USBD_GetString_def len Let_def u by (simp add: m assms(2))
qed

text \<open>How a host reads a string descriptor: its length in bytes, its type, then 16-bit characters.\<close>

definition read_string :: "u8 list \<Rightarrow> u8 list option" where
  "read_string bs =
     (if 2 \<le> length bs \<and> unat (bs ! 0) = length bs \<and> bs ! 1 = USB_DESC_TYPE_STRING
      then Some (map (\<lambda>i. bs ! (2 + 2 * i)) [0..<(length bs - 2) div 2]) else None)"

lemma read_wide:
  assumes "n = 2 * length desc + 2" and "n \<le> 254"
  shows "read_string (of_nat n # USB_DESC_TYPE_STRING # wide desc) = Some desc"
proof -
  have "unat (of_nat n :: u8) = n" using assms(2) by (intro unat_of_nat_u8) simp
  then show ?thesis by (auto simp: read_string_def assms(1) nth_wide intro!: nth_equalityI)
qed

text \<open>
  Strings survive the way to the host: for every text of up to 126 characters the first \<open>len\<close> bytes that
  \<^verbatim>\<open>USBD_GetString\<close> leaves in the 256-byte buffer, whatever was in it, are a string descriptor of
  exactly that length from which a host reads the text back.
\<close>

theorem usb_string_roundtrip:
  assumes "length m = 256" and "length desc \<le> 126"
  shows "\<exists>buf len. USBD_GetString desc m = Inr (buf, len) \<and> length buf = 256 \<and>
     read_string (take (unat len) buf) = Some desc"
proof -
  define n where "n = 2 * length desc + 2"
  have n: "n \<le> 254" using assms(2) by (simp add: n_def)
  then have u: "unat (of_nat n :: u16) = n" by (simp add: unat_of_nat)
  have "take n (of_nat n # USB_DESC_TYPE_STRING # wide desc @ drop n m) = of_nat n # USB_DESC_TYPE_STRING # wide desc"
    by (simp add: n_def)
  then show ?thesis
    using USBD_GetString_eq [OF assms(1) n_def n] read_wide [OF n_def n] assms(1) n u by (simp add: n_def)
qed

theorem usb_string_roundtrip_witness:
  "\<exists>buf len. USBD_GetString USBD_MANUFACTURER_STRING (replicate 256 7) = Inr (buf, len) \<and>
     read_string (take (unat len) buf) = Some [0x49, 0x47, 0x56, 0x43]"
  using usb_string_roundtrip [of "replicate 256 7" USBD_MANUFACTURER_STRING]
  by (auto simp: USBD_MANUFACTURER_STRING_def ascii_def)

section \<open>The serial number can be read back\<close>

definition hex_digits :: "u32 \<Rightarrow> nat \<Rightarrow> u8 list" where
  "hex_digits v n = map (\<lambda>i. hex_digit (drop_bit 28 (push_bit (4 * i) v))) [0..<n]"

lemma hex_digits_Suc: "hex_digits v (Suc n) = hex_digit (drop_bit 28 v) # hex_digits (push_bit 4 v) n"
proof -
  have "[0..<Suc n] = 0 # map Suc [0..<n]" by (simp add: upt_conv_Cons map_Suc_upt del: upt_Suc)
  then show ?thesis by (simp add: hex_digits_def push_bit_push_bit add.commute del: upt_Suc)
qed

lemma length_hex_digits [simp]: "length (hex_digits v n) = n"
  by (simp add: hex_digits_def)

lemma IntToUnicode_eq:
  "p + 2 * idx + 2 * n \<le> length buf \<Longrightarrow> IntToUnicode v buf p idx n =
     Inr (take (p + 2 * idx) buf @ wide (hex_digits v n) @ drop (p + 2 * idx + 2 * n) buf)"
proof (induction n arbitrary: v buf idx)
  case 0
  show ?case by (simp add: hex_digits_def wide_def)
next
  case (Suc n)
  define i where "i = p + 2 * idx"
  let ?b = "buf[i := hex_digit (drop_bit 28 v), i + 1 := 0]"
  have "IntToUnicode v buf p idx (Suc n) = IntToUnicode (push_bit 4 v) ?b p (idx + 1) n"
    using Suc.prems by (simp add: wr_def i_def)
  also have "\<dots> = Inr (take (i + 2) ?b @ wide (hex_digits (push_bit 4 v) n) @ drop (i + 2 + 2 * n) ?b)"
    using Suc.IH [of "idx + 1" ?b "push_bit 4 v"] Suc.prems by (simp add: i_def add.assoc)
  also have "take (i + 2) ?b = take i buf @ [hex_digit (drop_bit 28 v), 0]"
    using Suc.prems by (simp add: i_def take_Suc_conv_app_nth nth_list_update numeral_2_eq_2)
  finally show ?case by (simp add: hex_digits_Suc wide_Cons i_def add.assoc)
qed

definition hex_value :: "u8 \<Rightarrow> nat" where
  "hex_value c = (if c < 0x3A then unat c - 0x30 else unat c - 0x41 + 10)"

definition hex_number :: "u8 list \<Rightarrow> nat" where
  "hex_number ds = foldl (\<lambda>a c. 16 * a + hex_value c) 0 ds"

lemma nibble:
  assumes "i < 8"
  shows "drop_bit 28 (push_bit (4 * i) v) = take_bit 4 (drop_bit (28 - 4 * i) v :: u32)"
  by (rule bit_word_eqI) (use assms in \<open>auto simp: bit_simps\<close>)

lemma hex_value_digit:
  assumes "unat v < 16"
  shows "hex_value (hex_digit v) = unat v"
proof -
  obtain n where n: "v = of_nat n" "n < 16" using assms by (metis of_nat_unat ucast_id)
  from n(2) have "n \<in> {0, 1, 2, 3, 4, 5, 6, 7, 8, 9, 10, 11, 12, 13, 14, 15}"
    unfolding insert_iff empty_iff by presburger
  with n(1) show ?thesis by (elim insertE) (simp_all add: hex_digit_def hex_value_def)
qed

lemma hex_number_digits:
  assumes "k \<le> 8"
  shows "hex_number (hex_digits v k) = unat v div 2 ^ (32 - 4 * k)"
  using assms
proof (induction k)
  case 0
  then show ?case using unsigned_less [of v] by (simp add: hex_number_def hex_digits_def)
next
  case (Suc k)
  define x where "x = unat v div 2 ^ (28 - 4 * k)"
  have nib: "unat (drop_bit 28 (push_bit (4 * k) v)) = x mod 16"
  proof -
    have "k < 8" using Suc.prems by simp
    then show ?thesis unfolding x_def nibble [OF \<open>k < 8\<close>] unsigned_take_bit_eq unsigned_drop_bit_eq
      by (simp add: take_bit_eq_mod drop_bit_eq_div)
  qed
  have e: "32 - 4 * k = (28 - 4 * k) + 4" using Suc.prems by simp
  have "unat v div 2 ^ (32 - 4 * k) = x div 16" unfolding e x_def power_add div_mult2_eq by simp
  moreover have "hex_number (hex_digits v (Suc k)) = 16 * hex_number (hex_digits v k) + x mod 16"
    using hex_value_digit [of "drop_bit 28 (push_bit (4 * k) v)"] nib by (simp add: hex_digits_def hex_number_def)
  ultimately have "hex_number (hex_digits v (Suc k)) = 16 * (x div 16) + x mod 16" using Suc by simp
  then show ?case by (simp add: x_def)
qed

text \<open>
  C39. The serial number identifies the chip: whatever the three words of its identification are, if the sum of
  the first and the third is not zero, a host reads from the serial number string eight digits with the value
  of that sum and four digits with the upper half of the second.
\<close>

theorem usb_serial_roundtrip:
  assumes "d0 + d2 \<noteq> 0"
  shows "\<exists>buf ds. Get_SerialNum (d0, d1, d2) USBD_StringSerial = Inr buf \<and> length buf = USB_SIZ_STRING_SERIAL \<and>
     read_string buf = Some ds \<and> length ds = 12 \<and>
     hex_number (take 8 ds) = unat (d0 + d2) \<and> hex_number (drop 8 ds) = unat d1 div 65536"
proof -
  let ?ds = "hex_digits (d0 + d2) 8 @ hex_digits d1 4"
  let ?h = "[0x1A, USB_DESC_TYPE_STRING]"
  have 1: "IntToUnicode (d0 + d2) USBD_StringSerial 2 0 8 = Inr (?h @ wide (hex_digits (d0 + d2) 8) @ replicate 8 0)"
    using IntToUnicode_eq [of 2 0 8 USBD_StringSerial "d0 + d2"] by (simp add: USBD_StringSerial_def)
  have 2: "IntToUnicode d1 (?h @ wide (hex_digits (d0 + d2) 8) @ replicate 8 0) 18 0 4 =
      Inr (?h @ wide (hex_digits (d0 + d2) 8) @ wide (hex_digits d1 4))"
    using IntToUnicode_eq [of 18 0 4 "?h @ wide (hex_digits (d0 + d2) 8) @ replicate 8 0" d1] by simp
  have "wide (hex_digits (d0 + d2) 8) @ wide (hex_digits d1 4) = wide ?ds" by (simp add: wide_def)
  with 1 2 have "Get_SerialNum (d0, d1, d2) USBD_StringSerial = Inr (of_nat 26 # USB_DESC_TYPE_STRING # wide ?ds)"
    using assms by (simp add: Get_SerialNum_def)
  moreover have "read_string (of_nat 26 # USB_DESC_TYPE_STRING # wide ?ds) = Some ?ds"
    by (rule read_wide) simp_all
  ultimately show ?thesis
    using hex_number_digits [of 8 "d0 + d2"] hex_number_digits [of 4 d1] by (simp add: USB_SIZ_STRING_SERIAL_def)
qed

theorem usb_serial_roundtrip_witness:
  "\<exists>buf ds. Get_SerialNum (0x12345678, 0x9ABCDEF0, 1) USBD_StringSerial = Inr buf \<and> read_string buf = Some ds \<and>
     hex_number (take 8 ds) = 0x12345679 \<and> hex_number (drop 8 ds) = 0x9ABC"
  using usb_serial_roundtrip [of "0x12345678" 1 "0x9ABCDEF0"] by auto

section \<open>Configuration descriptors\<close>

text \<open>A configuration is a sequence of descriptors, each with its length in its first byte.\<close>

fun parts :: "nat \<Rightarrow> u8 list \<Rightarrow> u8 list list option" where
  "parts 0 d = None"
| "parts (Suc fuel) d =
     (if d = [] then Some []
      else if 2 \<le> unat (hd d) \<and> unat (hd d) \<le> length d
      then map_option (\<lambda>ps. take (unat (hd d)) d # ps) (parts fuel (drop (unat (hd d)) d)) else None)"

text \<open>
  The total length is right, the number of interfaces is the one announced, and each interface is
  followed by as many endpoints as it announces.
\<close>

fun endpoints_fit :: "nat \<Rightarrow> u8 list list \<Rightarrow> bool" where
  "endpoints_fit n [] = (n = 0)"
| "endpoints_fit n (d # ds) =
     (if d ! 1 = USB_DESC_TYPE_INTERFACE then n = 0 \<and> endpoints_fit (unat (d ! 4)) ds
      else if d ! 1 = USB_DESC_TYPE_ENDPOINT then n > 0 \<and> endpoints_fit (n - 1) ds
      else endpoints_fit n ds)"

definition config_ok :: "u8 list \<Rightarrow> bool" where
  "config_ok d \<longleftrightarrow>
     (case parts (Suc (length d)) d of
        None \<Rightarrow> False
      | Some ps \<Rightarrow> unat (of_le16 (d ! 2) (d ! 3)) = length d \<and>
          unat (d ! 4) = length (filter (\<lambda>p. p ! 1 = USB_DESC_TYPE_INTERFACE) ps) \<and> endpoints_fit 0 ps)"

lemma configs_ok: "config_ok USBD_CDC_CfgFSDesc" "config_ok USBD_CDC_CfgHSDesc" "config_ok USBD_CDC_OtherSpeedCfgDesc"
  by code_simp+

end
