(* ===== verification/UsbCore.thy ===== *)
theory UsbCore
  imports UsbCdc UsbDescriptors
begin

text \<open>
  The control side of the USB device stack: \<^verbatim>\<open>usbd_core.c\<close>, \<^verbatim>\<open>usbd_ctlreq.c\<close> and \<^verbatim>\<open>usbd_ioreq.c\<close> of
  \<^verbatim>\<open>master_lib/peripherals/USB\<close>, the callbacks and functions that tie it to the controller driver
  (\<^verbatim>\<open>usbd_conf.c\<close>), and the control requests of the serial class (\<^verbatim>\<open>usbd_cdc.c\<close>). A control transfer is a
  sequence of stages, each an interrupt: set-up, data packets in one direction, status.

  The functions return \<^verbatim>\<open>USBD_OK\<close> in all cases and the callers ignore it, so they are functions from
  state to state here. The build is for the full-speed port. The controller driver of the vendor is
  represented by what it does for the stack: it sends at most one packet of a transfer on endpoint 0
  at a time and moves its pointer behind it, stores a received packet at the pointer it was given,
  and keeps the stall flags of its two arrays of 15 endpoints.
\<close>

section \<open>State\<close>

definition USBD_STATE_DEFAULT :: u8 where "USBD_STATE_DEFAULT = 1"
definition USBD_STATE_ADDRESSED :: u8 where "USBD_STATE_ADDRESSED = 2"
definition USBD_STATE_CONFIGURED :: u8 where "USBD_STATE_CONFIGURED = 3"
definition USBD_STATE_SUSPENDED :: u8 where "USBD_STATE_SUSPENDED = 4"

lemmas dev_states = USBD_STATE_DEFAULT_def USBD_STATE_ADDRESSED_def USBD_STATE_CONFIGURED_def USBD_STATE_SUSPENDED_def

definition USBD_EP0_SETUP :: u32 where "USBD_EP0_SETUP = 1"
definition USBD_EP0_DATA_IN :: u32 where "USBD_EP0_DATA_IN = 2"
definition USBD_EP0_DATA_OUT :: u32 where "USBD_EP0_DATA_OUT = 3"
definition USBD_EP0_STATUS_IN :: u32 where "USBD_EP0_STATUS_IN = 4"
definition USBD_EP0_STATUS_OUT :: u32 where "USBD_EP0_STATUS_OUT = 5"

lemmas ep0_states = USBD_EP0_SETUP_def USBD_EP0_DATA_IN_def USBD_EP0_DATA_OUT_def USBD_EP0_STATUS_IN_def
  USBD_EP0_STATUS_OUT_def

definition USB_MAX_EP0_SIZE :: nat where "USB_MAX_EP0_SIZE = 64"
definition USBD_MAX_NUM_INTERFACES :: u8 where "USBD_MAX_NUM_INTERFACES = 1"
definition USBD_MAX_NUM_CONFIGURATION :: u8 where "USBD_MAX_NUM_CONFIGURATION = 1"

record USBD_SetupReqTypedef =
  bmRequest :: u8
  bRequest :: u8
  wValue :: u16
  wIndex :: u16
  wLength :: u16

record USBD_EndpointTypeDef =
  ep_status :: u32
  total_length :: u32
  rem_length :: u32
  maxpacket :: u32

text \<open>Calls of the controller driver, and one register access, that only act on the controller.\<close>

record PCD_InitTypeDef =
  dev_endpoints :: nat
  use_dedicated_ep1 :: bool
  ep0_mps :: nat
  dma_enable :: bool
  low_power_enable :: bool
  phy_embedded :: bool
  Sof_enable :: bool
  speed_high :: bool
  vbus_sensing_enable :: bool

datatype ll_call = SysTick_Priority nat | LL_Init PCD_InitTypeDef | LL_SetRxFiFo nat | LL_SetTxFiFo nat nat
  | LL_DeInit | LL_Start | LL_Stop | LL_Open u8 nat | LL_Close u8
  | LL_SetAddress u8 | LL_Receive u8 nat | GCCFG_NOVBUSSENS

text \<open>
  \<open>cdc\<close> holds the speed, \<^verbatim>\<open>pClassData\<close> and the data endpoints; \<open>pClass\<close>, \<open>pDesc\<close> and \<open>pUserData\<close> tell whether the
  pointers are set. \<open>str_desc\<close> and \<open>serial_desc\<close> are the two arrays that the string functions write, \<open>ids\<close> the
  identification of the chip, \<open>mallocs\<close> what \<^verbatim>\<open>USBD_malloc\<close> returns. \<open>in_buff\<close> is the memory at the pointer of
  the driver for the endpoint 0 IN, \<open>out_buff\<close> that for OUT (an offset into \<open>cdata\<close>, or \<^verbatim>\<open>NULL\<close>), and
  \<open>ep0_sent\<close> the packets it has sent on endpoint 0.
\<close>

record USBD_HandleTypeDef =
  cdc :: usb_dev
  dev_config :: u32
  dev_default_config :: u32
  dev_config_status :: u32
  ep_in :: "USBD_EndpointTypeDef list"
  ep_out :: "USBD_EndpointTypeDef list"
  ep0_state :: u32
  ep0_data_len :: u32
  dev_state :: u8
  dev_old_state :: u8
  dev_address :: u8
  dev_test_mode :: u8
  dev_remote_wakeup :: u32
  request :: USBD_SetupReqTypedef
  pDesc :: bool
  pClass :: bool
  pUserData :: bool
  str_desc :: "u8 list"
  serial_desc :: "u8 list"
  ids :: "u32 \<times> u32 \<times> u32"
  mallocs :: "USBD_CDC_HandleTypeDef option list"
  in_stall :: "bool list"
  out_stall :: "bool list"
  in_buff :: "u8 list"
  out_buff :: "nat option"
  ep0_sent :: "u8 list list"
  ll :: "ll_call list"
  CDC_Device_Initialized :: bool

section \<open>The controller driver\<close>

definition log_ll :: "ll_call \<Rightarrow> USBD_HandleTypeDef \<Rightarrow> USBD_HandleTypeDef" where
  "log_ll c p = p\<lparr>ll := ll p @ [c]\<rparr>"

definition USBD_LL_Init :: "USBD_HandleTypeDef \<Rightarrow> USBD_HandleTypeDef" where
  "USBD_LL_Init = fold log_ll
     [SysTick_Priority 0,
      LL_Init \<lparr>dev_endpoints = 4, use_dedicated_ep1 = False, ep0_mps = 0x40, dma_enable = False, low_power_enable = False,
        phy_embedded = True, Sof_enable = False, speed_high = False, vbus_sensing_enable = True\<rparr>,
      LL_SetRxFiFo 0x80, LL_SetTxFiFo 0 0x40, LL_SetTxFiFo 1 0x80]"

definition USBD_LL_DeInit :: "USBD_HandleTypeDef \<Rightarrow> USBD_HandleTypeDef" where "USBD_LL_DeInit = log_ll LL_DeInit"
definition USBD_LL_Start :: "USBD_HandleTypeDef \<Rightarrow> USBD_HandleTypeDef" where "USBD_LL_Start = log_ll LL_Start"
definition USBD_LL_Stop :: "USBD_HandleTypeDef \<Rightarrow> USBD_HandleTypeDef" where "USBD_LL_Stop = log_ll LL_Stop"

definition USBD_LL_OpenEP :: "u8 \<Rightarrow> nat \<Rightarrow> USBD_HandleTypeDef \<Rightarrow> USBD_HandleTypeDef" where
  "USBD_LL_OpenEP ep_addr ep_mps = log_ll (LL_Open ep_addr ep_mps)"

definition USBD_LL_CloseEP :: "u8 \<Rightarrow> USBD_HandleTypeDef \<Rightarrow> USBD_HandleTypeDef" where
  "USBD_LL_CloseEP ep_addr = log_ll (LL_Close ep_addr)"

definition USBD_LL_SetUSBAddress :: "u8 \<Rightarrow> USBD_HandleTypeDef \<Rightarrow> USBD_HandleTypeDef" where
  "USBD_LL_SetUSBAddress dev_addr = log_ll (LL_SetAddress dev_addr)"

definition set_stall :: "bool \<Rightarrow> u8 \<Rightarrow> USBD_HandleTypeDef \<Rightarrow> USBD_HandleTypeDef cres" where
  "set_stall v ep_addr p =
     (if 0x80 AND ep_addr = 0x80
      then bindE (wr (in_stall p) (unat (ep_addr AND 0x7F)) v) (\<lambda>l. Inr (p\<lparr>in_stall := l\<rparr>))
      else bindE (wr (out_stall p) (unat ep_addr) v) (\<lambda>l. Inr (p\<lparr>out_stall := l\<rparr>)))"

definition USBD_LL_StallEP :: "u8 \<Rightarrow> USBD_HandleTypeDef \<Rightarrow> USBD_HandleTypeDef cres" where
  "USBD_LL_StallEP = set_stall True"

definition USBD_LL_ClearStallEP :: "u8 \<Rightarrow> USBD_HandleTypeDef \<Rightarrow> USBD_HandleTypeDef cres" where
  "USBD_LL_ClearStallEP = set_stall False"

definition USBD_LL_IsStallEP :: "u8 \<Rightarrow> USBD_HandleTypeDef \<Rightarrow> bool cres" where
  "USBD_LL_IsStallEP ep_addr p =
     (if ep_addr AND 0x80 = 0x80 then rd (in_stall p) (unat (ep_addr AND 0x7F))
      else rd (out_stall p) (unat (ep_addr AND 0x7F)))"

text \<open>Both on endpoint 0; the data endpoints are those of \<open>UsbCdc\<close>.\<close>

definition USBD_LL_Transmit :: "u8 list \<Rightarrow> u16 \<Rightarrow> USBD_HandleTypeDef \<Rightarrow> USBD_HandleTypeDef cres" where
  "USBD_LL_Transmit pbuf sz p =
     bindE (rd_range pbuf 0 (min (unat sz) USB_MAX_EP0_SIZE)) (\<lambda>pkt.
     Inr (p\<lparr>ep0_sent := ep0_sent p @ [pkt], in_buff := drop (length pkt) pbuf\<rparr>))"

definition USBD_LL_PrepareReceive :: "nat option \<Rightarrow> u16 \<Rightarrow> USBD_HandleTypeDef \<Rightarrow> USBD_HandleTypeDef" where
  "USBD_LL_PrepareReceive pbuf sz p = log_ll (LL_Receive 0 (unat sz)) (p\<lparr>out_buff := pbuf\<rparr>)"

section \<open>Data and status stages of a control transfer\<close>

definition upd_ep :: "(USBD_EndpointTypeDef \<Rightarrow> USBD_EndpointTypeDef) \<Rightarrow> nat \<Rightarrow> USBD_EndpointTypeDef list \<Rightarrow>
    USBD_EndpointTypeDef list cres" where
  "upd_ep f n eps = bindE (rd eps n) (\<lambda>e. wr eps n (f e))"

definition USBD_CtlSendData :: "u8 list \<Rightarrow> u16 \<Rightarrow> USBD_HandleTypeDef \<Rightarrow> USBD_HandleTypeDef cres" where
  "USBD_CtlSendData pbuf len p =
     bindE (upd_ep (\<lambda>e. e\<lparr>total_length := ucast len, rem_length := ucast len\<rparr>) 0 (ep_in p)) (\<lambda>eps.
     USBD_LL_Transmit pbuf len (p\<lparr>ep0_state := USBD_EP0_DATA_IN, ep_in := eps\<rparr>))"

definition USBD_CtlContinueSendData :: "u8 list \<Rightarrow> u16 \<Rightarrow> USBD_HandleTypeDef \<Rightarrow> USBD_HandleTypeDef cres" where
  "USBD_CtlContinueSendData = USBD_LL_Transmit"

definition USBD_CtlPrepareRx :: "nat option \<Rightarrow> u16 \<Rightarrow> USBD_HandleTypeDef \<Rightarrow> USBD_HandleTypeDef cres" where
  "USBD_CtlPrepareRx pbuf len p =
     bindE (upd_ep (\<lambda>e. e\<lparr>total_length := ucast len, rem_length := ucast len\<rparr>) 0 (ep_out p)) (\<lambda>eps.
     Inr (USBD_LL_PrepareReceive pbuf len (p\<lparr>ep0_state := USBD_EP0_DATA_OUT, ep_out := eps\<rparr>)))"

definition USBD_CtlContinueRx :: "nat option \<Rightarrow> u16 \<Rightarrow> USBD_HandleTypeDef \<Rightarrow> USBD_HandleTypeDef" where
  "USBD_CtlContinueRx = USBD_LL_PrepareReceive"

definition USBD_CtlSendStatus :: "USBD_HandleTypeDef \<Rightarrow> USBD_HandleTypeDef cres" where
  "USBD_CtlSendStatus p = USBD_LL_Transmit [] 0 (p\<lparr>ep0_state := USBD_EP0_STATUS_IN\<rparr>)"

definition USBD_CtlReceiveStatus :: "USBD_HandleTypeDef \<Rightarrow> USBD_HandleTypeDef" where
  "USBD_CtlReceiveStatus p = USBD_LL_PrepareReceive None 0 (p\<lparr>ep0_state := USBD_EP0_STATUS_OUT\<rparr>)"

definition USBD_CtlError :: "USBD_HandleTypeDef \<Rightarrow> USBD_HandleTypeDef cres" where
  "USBD_CtlError p = bindE (USBD_LL_StallEP 0x80 p) (USBD_LL_StallEP 0)"

section \<open>The serial class\<close>

definition USBD_CDC_RegisterInterface :: "bool \<Rightarrow> USBD_HandleTypeDef \<Rightarrow> USBD_StatusTypeDef \<times> USBD_HandleTypeDef" where
  "USBD_CDC_RegisterInterface fops p = (if fops then (USBD_OK, p\<lparr>pUserData := True\<rparr>) else (USBD_FAIL, p))"

definition CDC_Deinit :: "USBD_HandleTypeDef \<Rightarrow> USBD_StatusTypeDef \<times> USBD_HandleTypeDef" where
  "CDC_Deinit = USBD_CDC_RegisterInterface True"

text \<open>\<^verbatim>\<open>USBD_CDC_Init\<close> from \<open>UsbCdc\<close>, with the calls that open the three endpoints and the memory it allocates.\<close>

definition class_Init :: "USBD_HandleTypeDef \<Rightarrow> (u8 \<times> USBD_HandleTypeDef) cres" where
  "class_Init p =
     (let sz = (if high_speed (cdc p) then 512 else 64);
          p = USBD_LL_OpenEP CDC_CMD_EP CDC_CMD_PACKET_SIZE (USBD_LL_OpenEP CDC_OUT_EP sz (USBD_LL_OpenEP CDC_IN_EP sz p));
          a = (case mallocs p of [] \<Rightarrow> None | a # _ \<Rightarrow> a) in
      if a \<noteq> None \<and> \<not> pUserData p then Inl NullDeref
      else bindE (USBD_CDC_Init (cdc p) a) (\<lambda>(ret, d). Inr (ret, p\<lparr>cdc := d, mallocs := tl (mallocs p)\<rparr>)))"

definition USBD_CDC_DeInit :: "USBD_HandleTypeDef \<Rightarrow> USBD_HandleTypeDef cres" where
  "USBD_CDC_DeInit p =
     (let p = USBD_LL_CloseEP CDC_CMD_EP (USBD_LL_CloseEP CDC_OUT_EP (USBD_LL_CloseEP CDC_IN_EP p)) in
      if pClassData (cdc p) \<noteq> None then
        if pUserData p then
          let p = snd (CDC_Deinit p) in Inr (p\<lparr>cdc := (cdc p)\<lparr>pClassData := None\<rparr>\<rparr>)
        else Inl NullDeref
      else Inr p)"

definition USBD_CDC_Setup :: "USBD_SetupReqTypedef \<Rightarrow> USBD_HandleTypeDef \<Rightarrow> USBD_HandleTypeDef cres" where
  "USBD_CDC_Setup req p =
     (if bmRequest req AND 0x60 = 0x20 then
        if wLength req \<noteq> 0 then
          (case pClassData (cdc p) of
             None \<Rightarrow> Inl NullDeref
           | Some hcdc \<Rightarrow>
               if bmRequest req AND 0x80 \<noteq> 0 then
                 if pUserData p then USBD_CtlSendData (cdata hcdc) (wLength req) (p\<lparr>cdc := snd (CDC_Control (cdc p))\<rparr>)
                 else Inl NullDeref
               else USBD_CtlPrepareRx (Some 0) (wLength req)
                 (p\<lparr>cdc := (cdc p)\<lparr>pClassData := Some (hcdc\<lparr>CmdOpCode := bRequest req, CmdLength := ucast (wLength req)\<rparr>)\<rparr>\<rparr>))
        else if pUserData p then Inr (p\<lparr>cdc := snd (CDC_Control (cdc p))\<rparr>) else Inl NullDeref
      else if bmRequest req AND 0x60 = 0x00 \<and> bRequest req = 0x0A then USBD_CtlSendData [0] 1 p
      else Inr p)"

definition USBD_CDC_EP0_RxReady :: "USBD_HandleTypeDef \<Rightarrow> USBD_HandleTypeDef cres" where
  "USBD_CDC_EP0_RxReady p =
     (if pUserData p then
        (case pClassData (cdc p) of
           None \<Rightarrow> Inl NullDeref
         | Some hcdc \<Rightarrow>
             Inr (if CmdOpCode hcdc \<noteq> 0xFF
                  then p\<lparr>cdc := (snd (CDC_Control (cdc p)))\<lparr>pClassData := Some (hcdc\<lparr>CmdOpCode := 0xFF\<rparr>)\<rparr>\<rparr> else p))
      else Inr p)"

text \<open>A call through \<^verbatim>\<open>pdev->pClass\<close>.\<close>

definition via_class :: "(USBD_HandleTypeDef \<Rightarrow> 'a cres) \<Rightarrow> USBD_HandleTypeDef \<Rightarrow> 'a cres" where
  "via_class f p = (if pClass p then f p else Inl NullDeref)"

section \<open>Descriptors\<close>

type_synonym descriptor = "u8 list \<times> u16 \<times> USBD_HandleTypeDef"

definition string_descriptor :: "u8 list \<Rightarrow> USBD_HandleTypeDef \<Rightarrow> descriptor cres" where
  "string_descriptor desc p =
     bindE (USBD_GetString desc (str_desc p)) (\<lambda>(m, len). Inr (m, len, p\<lparr>str_desc := m\<rparr>))"

definition USBD_VCP_DeviceDescriptor :: "USBD_HandleTypeDef \<Rightarrow> descriptor cres" where
  "USBD_VCP_DeviceDescriptor p = Inr (USBD_DeviceDesc, of_nat (length USBD_DeviceDesc), p)"

definition USBD_VCP_LangIDStrDescriptor :: "USBD_HandleTypeDef \<Rightarrow> descriptor cres" where
  "USBD_VCP_LangIDStrDescriptor p = Inr (USBD_LangIDDesc, of_nat (length USBD_LangIDDesc), p)"

definition USBD_VCP_ProductStrDescriptor :: "bool \<Rightarrow> USBD_HandleTypeDef \<Rightarrow> descriptor cres" where
  "USBD_VCP_ProductStrDescriptor bootloader p =
     string_descriptor (if high_speed (cdc p) then USBD_PRODUCT_HS_STRING else USBD_PRODUCT_FS_STRING bootloader) p"

definition USBD_VCP_ManufacturerStrDescriptor :: "USBD_HandleTypeDef \<Rightarrow> descriptor cres" where
  "USBD_VCP_ManufacturerStrDescriptor = string_descriptor USBD_MANUFACTURER_STRING"

definition USBD_VCP_SerialStrDescriptor :: "USBD_HandleTypeDef \<Rightarrow> descriptor cres" where
  "USBD_VCP_SerialStrDescriptor p =
     bindE (Get_SerialNum (ids p) (serial_desc p)) (\<lambda>m. Inr (m, of_nat USB_SIZ_STRING_SERIAL, p\<lparr>serial_desc := m\<rparr>))"

definition USBD_VCP_ConfigStrDescriptor :: "USBD_HandleTypeDef \<Rightarrow> descriptor cres" where
  "USBD_VCP_ConfigStrDescriptor = string_descriptor USBD_CONFIGURATION_STRING"

definition USBD_VCP_InterfaceStrDescriptor :: "USBD_HandleTypeDef \<Rightarrow> descriptor cres" where
  "USBD_VCP_InterfaceStrDescriptor = string_descriptor USBD_INTERFACE_STRING"

text \<open>
  The two switches of \<^verbatim>\<open>USBD_GetDescriptor\<close>; \<open>None\<close> is the path to \<^verbatim>\<open>USBD_CtlError\<close>. The byte stored into a
  configuration descriptor is the one that is there already, so the tables do not change.
\<close>

definition config_descriptor :: "u8 list \<times> u16 \<Rightarrow> u8 \<Rightarrow> USBD_HandleTypeDef \<Rightarrow> descriptor option cres" where
  "config_descriptor = (\<lambda>(d, len) t p. bindE (wr d 1 t) (\<lambda>d. Inr (Some (d, len, p))))"

definition find_string :: "bool \<Rightarrow> u8 \<Rightarrow> USBD_HandleTypeDef \<Rightarrow> descriptor option cres" where
  "find_string bootloader i p =
     (if i = 0 then bindE (USBD_VCP_LangIDStrDescriptor p) (\<lambda>d. Inr (Some d))
      else if i = 1 then bindE (USBD_VCP_ManufacturerStrDescriptor p) (\<lambda>d. Inr (Some d))
      else if i = 2 then bindE (USBD_VCP_ProductStrDescriptor bootloader p) (\<lambda>d. Inr (Some d))
      else if i = 3 then bindE (USBD_VCP_SerialStrDescriptor p) (\<lambda>d. Inr (Some d))
      else if i = 4 then bindE (USBD_VCP_ConfigStrDescriptor p) (\<lambda>d. Inr (Some d))
      else if i = 5 then bindE (USBD_VCP_InterfaceStrDescriptor p) (\<lambda>d. Inr (Some d))
      else Inr None)"

definition find_descriptor :: "bool \<Rightarrow> USBD_SetupReqTypedef \<Rightarrow> USBD_HandleTypeDef \<Rightarrow> descriptor option cres" where
  "find_descriptor bootloader req p =
     (let t = ucast (drop_bit 8 (wValue req)) :: u8 in
      if t = USB_DESC_TYPE_DEVICE then
        if pDesc p then bindE (USBD_VCP_DeviceDescriptor p) (\<lambda>d. Inr (Some d)) else Inl NullDeref
      else if t = USB_DESC_TYPE_CONFIGURATION then
        via_class (if high_speed (cdc p) then config_descriptor USBD_CDC_GetHSCfgDesc USB_DESC_TYPE_CONFIGURATION
                   else config_descriptor USBD_CDC_GetFSCfgDesc USB_DESC_TYPE_CONFIGURATION) p
      else if t = USB_DESC_TYPE_STRING then
        if pDesc p \<or> unat (ucast (wValue req) :: u8) > 5 then find_string bootloader (ucast (wValue req)) p else Inl NullDeref
      else if t = USB_DESC_TYPE_DEVICE_QUALIFIER then
        if high_speed (cdc p)
        then via_class (\<lambda>p. case USBD_CDC_GetDeviceQualifierDescriptor of (d, len) \<Rightarrow> Inr (Some (d, len, p))) p
        else Inr None
      else if t = USB_DESC_TYPE_OTHER_SPEED_CONFIGURATION then
        if high_speed (cdc p)
        then via_class (config_descriptor USBD_CDC_GetOtherSpeedCfgDesc USB_DESC_TYPE_OTHER_SPEED_CONFIGURATION) p
        else Inr None
      else Inr None)"

definition USBD_GetDescriptor :: "bool \<Rightarrow> USBD_SetupReqTypedef \<Rightarrow> USBD_HandleTypeDef \<Rightarrow> USBD_HandleTypeDef cres" where
  "USBD_GetDescriptor bootloader req p =
     bindE (find_descriptor bootloader req p) (\<lambda>r. case r of
       None \<Rightarrow> USBD_CtlError p
     | Some (pbuf, len, p) \<Rightarrow>
         if len \<noteq> 0 \<and> wLength req \<noteq> 0 then USBD_CtlSendData pbuf (min len (wLength req)) p else Inr p)"

section \<open>Standard requests\<close>

definition USBD_SetAddress :: "USBD_SetupReqTypedef \<Rightarrow> USBD_HandleTypeDef \<Rightarrow> USBD_HandleTypeDef cres" where
  "USBD_SetAddress req p =
     (if wIndex req = 0 \<and> wLength req = 0 then
        let dev_addr = ucast (wValue req) AND 0x7F :: u8 in
        if dev_state p = USBD_STATE_CONFIGURED then USBD_CtlError p
        else bindE (USBD_CtlSendStatus (USBD_LL_SetUSBAddress dev_addr (p\<lparr>dev_address := dev_addr\<rparr>))) (\<lambda>p.
             Inr (p\<lparr>dev_state := if dev_addr \<noteq> 0 then USBD_STATE_ADDRESSED else USBD_STATE_DEFAULT\<rparr>))
      else USBD_CtlError p)"

definition USBD_SetClassConfig :: "USBD_HandleTypeDef \<Rightarrow> (USBD_StatusTypeDef \<times> USBD_HandleTypeDef) cres" where
  "USBD_SetClassConfig p =
     (if pClass p then bindE (class_Init p) (\<lambda>(r, p). Inr (if r = 0 then USBD_OK else USBD_FAIL, p))
      else Inr (USBD_FAIL, p))"

definition USBD_ClrClassConfig :: "USBD_HandleTypeDef \<Rightarrow> USBD_HandleTypeDef cres" where
  "USBD_ClrClassConfig = via_class USBD_CDC_DeInit"

text \<open>The two places that start the class and then answer.\<close>

definition start_class :: "USBD_HandleTypeDef \<Rightarrow> USBD_HandleTypeDef cres" where
  "start_class p =
     bindE (USBD_SetClassConfig p) (\<lambda>(r, p). if r = USBD_FAIL then USBD_CtlError p else USBD_CtlSendStatus p)"

definition USBD_SetConfig :: "USBD_SetupReqTypedef \<Rightarrow> USBD_HandleTypeDef \<Rightarrow> USBD_HandleTypeDef cres" where
  "USBD_SetConfig req p =
     (let cfgidx = ucast (wValue req) :: u8 in
      if cfgidx > USBD_MAX_NUM_CONFIGURATION then USBD_CtlError p
      else if dev_state p = USBD_STATE_ADDRESSED then
        if cfgidx \<noteq> 0 then start_class (p\<lparr>dev_config := ucast cfgidx, dev_state := USBD_STATE_CONFIGURED\<rparr>)
        else USBD_CtlSendStatus p
      else if dev_state p = USBD_STATE_CONFIGURED then
        if cfgidx = 0 then
          bindE (USBD_ClrClassConfig (p\<lparr>dev_state := USBD_STATE_ADDRESSED, dev_config := ucast cfgidx\<rparr>)) USBD_CtlSendStatus
        else if ucast cfgidx \<noteq> dev_config p then
          bindE (USBD_ClrClassConfig p) (\<lambda>p. start_class (p\<lparr>dev_config := ucast cfgidx\<rparr>))
        else USBD_CtlSendStatus p
      else USBD_CtlError p)"

definition USBD_GetConfig :: "USBD_SetupReqTypedef \<Rightarrow> USBD_HandleTypeDef \<Rightarrow> USBD_HandleTypeDef cres" where
  "USBD_GetConfig req p =
     (if wLength req \<noteq> 1 then USBD_CtlError p
      else if dev_state p = USBD_STATE_ADDRESSED then USBD_CtlSendData (le32 0) 1 (p\<lparr>dev_default_config := 0\<rparr>)
      else if dev_state p = USBD_STATE_CONFIGURED then USBD_CtlSendData (le32 (dev_config p)) 1 p
      else USBD_CtlError p)"

definition USBD_GetStatus :: "USBD_HandleTypeDef \<Rightarrow> USBD_HandleTypeDef cres" where
  "USBD_GetStatus p =
     (if dev_state p = USBD_STATE_ADDRESSED \<or> dev_state p = USBD_STATE_CONFIGURED then
        let st = (if dev_remote_wakeup p \<noteq> 0 then 1 OR 2 else 1) in
        USBD_CtlSendData (le32 st) 2 (p\<lparr>dev_config_status := st\<rparr>)
      else USBD_CtlError p)"

definition USBD_SetFeature :: "USBD_SetupReqTypedef \<Rightarrow> USBD_HandleTypeDef \<Rightarrow> USBD_HandleTypeDef cres" where
  "USBD_SetFeature req p =
     (if wValue req = 1
      then bindE (via_class (USBD_CDC_Setup req) (p\<lparr>dev_remote_wakeup := 1\<rparr>)) USBD_CtlSendStatus
      else Inr p)"

definition USBD_ClrFeature :: "USBD_SetupReqTypedef \<Rightarrow> USBD_HandleTypeDef \<Rightarrow> USBD_HandleTypeDef cres" where
  "USBD_ClrFeature req p =
     (if dev_state p = USBD_STATE_ADDRESSED \<or> dev_state p = USBD_STATE_CONFIGURED then
        if wValue req = 1
        then bindE (via_class (USBD_CDC_Setup req) (p\<lparr>dev_remote_wakeup := 0\<rparr>)) USBD_CtlSendStatus
        else Inr p
      else USBD_CtlError p)"

definition USBD_StdDevReq :: "bool \<Rightarrow> USBD_SetupReqTypedef \<Rightarrow> USBD_HandleTypeDef \<Rightarrow> USBD_HandleTypeDef cres" where
  "USBD_StdDevReq bootloader req p =
     (if bRequest req = 0x06 then USBD_GetDescriptor bootloader req p
      else if bRequest req = 0x05 then USBD_SetAddress req p
      else if bRequest req = 0x09 then USBD_SetConfig req p
      else if bRequest req = 0x08 then USBD_GetConfig req p
      else if bRequest req = 0x00 then USBD_GetStatus p
      else if bRequest req = 0x03 then USBD_SetFeature req p
      else if bRequest req = 0x01 then USBD_ClrFeature req p
      else USBD_CtlError p)"

definition USBD_StdItfReq :: "USBD_SetupReqTypedef \<Rightarrow> USBD_HandleTypeDef \<Rightarrow> USBD_HandleTypeDef cres" where
  "USBD_StdItfReq req p =
     (if dev_state p = USBD_STATE_CONFIGURED \<and> (ucast (wIndex req) :: u8) \<le> USBD_MAX_NUM_INTERFACES
      then bindE (via_class (USBD_CDC_Setup req) p) (\<lambda>p.
           if wLength req = 0 then USBD_CtlSendStatus p else Inr p)
      else USBD_CtlError p)"

definition stall_other :: "u8 \<Rightarrow> USBD_HandleTypeDef \<Rightarrow> USBD_HandleTypeDef cres" where
  "stall_other ep_addr p = (if ep_addr \<noteq> 0x00 \<and> ep_addr \<noteq> 0x80 then USBD_LL_StallEP ep_addr p else Inr p)"

text \<open>The status word of the endpoint is sent from the endpoint's entry.\<close>

definition ep_status_reply :: "u8 \<Rightarrow> USBD_HandleTypeDef \<Rightarrow> USBD_HandleTypeDef cres" where
  "ep_status_reply ep_addr p =
     bindE (USBD_LL_IsStallEP ep_addr p) (\<lambda>stalled.
     let n = unat (ep_addr AND 0x7F); st = (if stalled then 1 else 0) in
     if ep_addr AND 0x80 = 0x80
     then bindE (upd_ep (\<lambda>e. e\<lparr>ep_status := st\<rparr>) n (ep_in p)) (\<lambda>eps. USBD_CtlSendData (le32 st) 2 (p\<lparr>ep_in := eps\<rparr>))
     else bindE (upd_ep (\<lambda>e. e\<lparr>ep_status := st\<rparr>) n (ep_out p)) (\<lambda>eps. USBD_CtlSendData (le32 st) 2 (p\<lparr>ep_out := eps\<rparr>)))"

definition USBD_StdEPReq :: "USBD_SetupReqTypedef \<Rightarrow> USBD_HandleTypeDef \<Rightarrow> USBD_HandleTypeDef cres" where
  "USBD_StdEPReq req p =
     (let ep_addr = ucast (wIndex req) :: u8 in
      if bmRequest req AND 0x60 = 0x20 then via_class (USBD_CDC_Setup req) p
      else if bRequest req = 0x03 then
        if dev_state p = USBD_STATE_ADDRESSED then stall_other ep_addr p
        else if dev_state p = USBD_STATE_CONFIGURED then
          bindE (if wValue req = 0 then stall_other ep_addr p else Inr p) (\<lambda>p.
          bindE (via_class (USBD_CDC_Setup req) p) USBD_CtlSendStatus)
        else USBD_CtlError p
      else if bRequest req = 0x01 then
        if dev_state p = USBD_STATE_ADDRESSED then stall_other ep_addr p
        else if dev_state p = USBD_STATE_CONFIGURED then
          if wValue req = 0 then
            bindE (if ep_addr AND 0x7F \<noteq> 0
                   then bindE (USBD_LL_ClearStallEP ep_addr p) (via_class (USBD_CDC_Setup req)) else Inr p) USBD_CtlSendStatus
          else Inr p
        else USBD_CtlError p
      else if bRequest req = 0x00 then
        if dev_state p = USBD_STATE_ADDRESSED
        then if ep_addr AND 0x7F \<noteq> 0 then USBD_LL_StallEP ep_addr p else Inr p
        else if dev_state p = USBD_STATE_CONFIGURED then ep_status_reply ep_addr p
        else USBD_CtlError p
      else Inr p)"

section \<open>Stages and events\<close>

definition USBD_ParseSetupRequest :: "u8 list \<Rightarrow> USBD_SetupReqTypedef cres" where
  "USBD_ParseSetupRequest pdata =
     bindE (rd_range pdata 0 8) (\<lambda>d.
     Inr \<lparr>bmRequest = d ! 0, bRequest = d ! 1, wValue = of_le16 (d ! 2) (d ! 3), wIndex = of_le16 (d ! 4) (d ! 5),
       wLength = of_le16 (d ! 6) (d ! 7)\<rparr>)"

definition USBD_LL_SetupStage :: "bool \<Rightarrow> u8 list \<Rightarrow> USBD_HandleTypeDef \<Rightarrow> USBD_HandleTypeDef cres" where
  "USBD_LL_SetupStage bootloader psetup p =
     bindE (USBD_ParseSetupRequest psetup) (\<lambda>req.
     let p = p\<lparr>request := req, ep0_state := USBD_EP0_SETUP, ep0_data_len := ucast (wLength req)\<rparr>;
         r = bmRequest req AND 0x1F in
     if r = 0x00 then USBD_StdDevReq bootloader req p
     else if r = 0x01 then USBD_StdItfReq req p
     else if r = 0x02 then USBD_StdEPReq req p
     else USBD_LL_StallEP (bmRequest req AND 0x80) p)"

text \<open>\<open>rx\<close> is what \<^verbatim>\<open>USBD_LL_GetRxDataSize\<close> returns.\<close>

definition USBD_LL_DataOutStage :: "u8 \<Rightarrow> nat option \<Rightarrow> u32 \<Rightarrow> USBD_HandleTypeDef \<Rightarrow> USBD_HandleTypeDef cres" where
  "USBD_LL_DataOutStage epnum pdata rx p =
     (if epnum = 0 then
        bindE (rd (ep_out p) 0) (\<lambda>pep.
        if ep0_state p = USBD_EP0_DATA_OUT then
          if rem_length pep > maxpacket pep then
            let left = rem_length pep - maxpacket pep in
            bindE (wr (ep_out p) 0 (pep\<lparr>rem_length := left\<rparr>)) (\<lambda>eps.
            Inr (USBD_CtlContinueRx pdata (ucast (min left (maxpacket pep))) (p\<lparr>ep_out := eps\<rparr>)))
          else
            bindE (via_class (\<lambda>p. if dev_state p = USBD_STATE_CONFIGURED then USBD_CDC_EP0_RxReady p else Inr p) p)
              USBD_CtlSendStatus
        else Inr p)
      else via_class (\<lambda>p. if dev_state p = USBD_STATE_CONFIGURED
        then bindE (USBD_CDC_DataOut (cdc p) rx) (\<lambda>(_, d). Inr (p\<lparr>cdc := d\<rparr>)) else Inr p) p)"

definition USBD_LL_DataInStage :: "u8 \<Rightarrow> u8 list \<Rightarrow> USBD_HandleTypeDef \<Rightarrow> USBD_HandleTypeDef cres" where
  "USBD_LL_DataInStage epnum pdata p =
     (if epnum = 0 then
        bindE (rd (ep_in p) 0) (\<lambda>pep.
        bindE (if ep0_state p = USBD_EP0_DATA_IN then
                 if rem_length pep > maxpacket pep then
                   let left = rem_length pep - maxpacket pep in
                   bindE (wr (ep_in p) 0 (pep\<lparr>rem_length := left\<rparr>)) (\<lambda>eps.
                   bindE (USBD_CtlContinueSendData pdata (ucast left) (p\<lparr>ep_in := eps\<rparr>)) (\<lambda>p.
                   Inr (USBD_LL_PrepareReceive None 0 p)))
                 else if total_length pep mod maxpacket pep = 0 \<and> total_length pep \<ge> maxpacket pep \<and>
                         total_length pep < ep0_data_len p then
                   bindE (USBD_CtlContinueSendData [] 0 p) (\<lambda>p.
                   Inr (USBD_LL_PrepareReceive None 0 (p\<lparr>ep0_data_len := 0\<rparr>)))
                 else via_class (\<lambda>p. Inr (USBD_CtlReceiveStatus p)) p
               else Inr p) (\<lambda>p.
        Inr (if dev_test_mode p = 1 then p\<lparr>dev_test_mode := 0\<rparr> else p)))
      else via_class (\<lambda>p. Inr (if dev_state p = USBD_STATE_CONFIGURED
        then p\<lparr>cdc := snd (USBD_CDC_DataIn (cdc p))\<rparr> else p)) p)"

definition USBD_LL_Reset :: "USBD_HandleTypeDef \<Rightarrow> USBD_HandleTypeDef cres" where
  "USBD_LL_Reset p =
     bindE (upd_ep (\<lambda>e. e\<lparr>maxpacket := of_nat USB_MAX_EP0_SIZE\<rparr>) 0 (ep_out p)) (\<lambda>outs.
     bindE (upd_ep (\<lambda>e. e\<lparr>maxpacket := of_nat USB_MAX_EP0_SIZE\<rparr>) 0 (ep_in p)) (\<lambda>ins.
     let p = USBD_LL_OpenEP 0x80 USB_MAX_EP0_SIZE ((USBD_LL_OpenEP 0x00 USB_MAX_EP0_SIZE p)\<lparr>ep_out := outs\<rparr>);
         p = p\<lparr>ep_in := ins, dev_state := USBD_STATE_DEFAULT\<rparr> in
     if pClassData (cdc p) \<noteq> None then via_class USBD_CDC_DeInit p else Inr p))"

definition USBD_LL_SetSpeed :: "bool \<Rightarrow> USBD_HandleTypeDef \<Rightarrow> USBD_HandleTypeDef" where
  "USBD_LL_SetSpeed high p = p\<lparr>cdc := (cdc p)\<lparr>high_speed := high\<rparr>\<rparr>"

definition USBD_LL_Suspend :: "USBD_HandleTypeDef \<Rightarrow> USBD_HandleTypeDef" where
  "USBD_LL_Suspend p = p\<lparr>dev_old_state := dev_state p, dev_state := USBD_STATE_SUSPENDED\<rparr>"

definition USBD_LL_Resume :: "USBD_HandleTypeDef \<Rightarrow> USBD_HandleTypeDef" where
  "USBD_LL_Resume p = p\<lparr>dev_state := dev_old_state p\<rparr>"

text \<open>The class has no handler for the start of a frame.\<close>

definition USBD_LL_SOF :: "USBD_HandleTypeDef \<Rightarrow> USBD_HandleTypeDef cres" where
  "USBD_LL_SOF p = (if dev_state p = USBD_STATE_CONFIGURED then via_class Inr p else Inr p)"

definition USBD_LL_DevDisconnected :: "USBD_HandleTypeDef \<Rightarrow> USBD_HandleTypeDef cres" where
  "USBD_LL_DevDisconnected p = via_class USBD_CDC_DeInit (p\<lparr>dev_state := USBD_STATE_DEFAULT\<rparr>)"

definition USBD_Init :: "bool \<Rightarrow> USBD_HandleTypeDef \<Rightarrow> USBD_HandleTypeDef" where
  "USBD_Init desc p =
     USBD_LL_Init (p\<lparr>pClass := False, pDesc := (desc \<or> pDesc p), dev_state := USBD_STATE_DEFAULT\<rparr>)"

definition USBD_DeInit :: "USBD_HandleTypeDef \<Rightarrow> USBD_HandleTypeDef cres" where
  "USBD_DeInit p =
     bindE (via_class USBD_CDC_DeInit (p\<lparr>dev_state := USBD_STATE_DEFAULT\<rparr>)) (\<lambda>p. Inr (USBD_LL_DeInit (USBD_LL_Stop p)))"

definition USBD_RegisterClass :: "bool \<Rightarrow> USBD_HandleTypeDef \<Rightarrow> USBD_StatusTypeDef \<times> USBD_HandleTypeDef" where
  "USBD_RegisterClass cls p = (if cls then (USBD_OK, p\<lparr>pClass := True\<rparr>) else (USBD_FAIL, p))"

definition USBD_Start :: "USBD_HandleTypeDef \<Rightarrow> USBD_HandleTypeDef" where
  "USBD_Start = USBD_LL_Start"

definition USBD_Stop :: "USBD_HandleTypeDef \<Rightarrow> USBD_HandleTypeDef cres" where
  "USBD_Stop p = bindE (via_class USBD_CDC_DeInit p) (\<lambda>p. Inr (USBD_LL_Stop p))"

definition MX_USB_OTG_FS_USB_Init :: "USBD_HandleTypeDef \<Rightarrow> USBD_HandleTypeDef" where
  "MX_USB_OTG_FS_USB_Init p =
     (let p = snd (USBD_CDC_RegisterInterface True (snd (USBD_RegisterClass True (USBD_Init True p)))) in
      (USBD_Start (log_ll GCCFG_NOVBUSSENS p))\<lparr>CDC_Device_Initialized := True\<rparr>)"

definition MX_USB_OTG_FS_USB_DeInit :: "USBD_HandleTypeDef \<Rightarrow> USBD_HandleTypeDef cres" where
  "MX_USB_OTG_FS_USB_DeInit p = (if CDC_Device_Initialized p then USBD_DeInit p else Inr p)"

text \<open>The interrupts of the controller, as the driver's callbacks pass them on.\<close>

definition HAL_PCD_SetupStageCallback :: "bool \<Rightarrow> u8 list \<Rightarrow> USBD_HandleTypeDef \<Rightarrow> USBD_HandleTypeDef cres" where
  "HAL_PCD_SetupStageCallback = USBD_LL_SetupStage"

text \<open>The pointers of the driver matter for endpoint 0 only.\<close>

definition HAL_PCD_DataOutStageCallback :: "u8 \<Rightarrow> u32 \<Rightarrow> USBD_HandleTypeDef \<Rightarrow> USBD_HandleTypeDef cres" where
  "HAL_PCD_DataOutStageCallback epnum rx p = USBD_LL_DataOutStage epnum (out_buff p) rx p"

definition HAL_PCD_DataInStageCallback :: "u8 \<Rightarrow> USBD_HandleTypeDef \<Rightarrow> USBD_HandleTypeDef cres" where
  "HAL_PCD_DataInStageCallback epnum p = USBD_LL_DataInStage epnum (in_buff p) p"

definition HAL_PCD_SOFCallback :: "USBD_HandleTypeDef \<Rightarrow> USBD_HandleTypeDef cres" where
  "HAL_PCD_SOFCallback = USBD_LL_SOF"

definition HAL_PCD_ResetCallback :: "USBD_HandleTypeDef \<Rightarrow> USBD_HandleTypeDef cres" where
  "HAL_PCD_ResetCallback p = USBD_LL_Reset (USBD_LL_SetSpeed False p)"

definition HAL_PCD_SuspendCallback :: "USBD_HandleTypeDef \<Rightarrow> USBD_HandleTypeDef" where
  "HAL_PCD_SuspendCallback = USBD_LL_Suspend"

definition HAL_PCD_ResumeCallback :: "USBD_HandleTypeDef \<Rightarrow> USBD_HandleTypeDef" where
  "HAL_PCD_ResumeCallback = USBD_LL_Resume"

definition HAL_PCD_DisconnectCallback :: "USBD_HandleTypeDef \<Rightarrow> USBD_HandleTypeDef cres" where
  "HAL_PCD_DisconnectCallback = USBD_LL_DevDisconnected"

text \<open>A packet on endpoint 0 OUT: the driver stores it and moves its pointer, then calls back.\<close>

definition ep0_packet :: "u8 list \<Rightarrow> USBD_HandleTypeDef \<Rightarrow> USBD_HandleTypeDef cres" where
  "ep0_packet pkt p =
     bindE (if pkt = [] then Inr p
            else case out_buff p of
              None \<Rightarrow> Inl NullDeref
            | Some off \<Rightarrow>
                (case pClassData (cdc p) of
                   None \<Rightarrow> Inl UseAfterFree
                 | Some hcdc \<Rightarrow>
                     bindE (wr_range (cdata hcdc) off pkt) (\<lambda>m.
                     Inr (p\<lparr>cdc := (cdc p)\<lparr>pClassData := Some (hcdc\<lparr>cdata := m\<rparr>)\<rparr>, out_buff := Some (off + length pkt)\<rparr>))))
       (HAL_PCD_DataOutStageCallback 0 (of_nat (length pkt)))"

text \<open>
  \<^verbatim>\<open>USBD_Device\<close> and the arrays as the program starts: static data, all zero but for the head of the serial
  number. \<open>i\<close> is the identification of the chip, \<open>ms\<close> what the allocations will return.
\<close>

definition usb_off :: "u32 \<times> u32 \<times> u32 \<Rightarrow> USBD_CDC_HandleTypeDef option list \<Rightarrow> USBD_HandleTypeDef" where
  "usb_off i ms =
     (let ep = \<lparr>ep_status = 0, total_length = 0, rem_length = 0, maxpacket = 0\<rparr> in
      \<lparr>cdc = \<lparr>pClassData = None, high_speed = False,
         usbReceiveBuffer = \<lparr>base = replicate 2048 0, buffers = [0, 0], bufferLengths = [0, 0], bufferSize = 0,
           readIdx = 0, activeBuffer = 0\<rparr>, rxArmed = None, transmitted = []\<rparr>,
       dev_config = 0, dev_default_config = 0, dev_config_status = 0, ep_in = replicate 15 ep, ep_out = replicate 15 ep,
       ep0_state = 0, ep0_data_len = 0, dev_state = 0, dev_old_state = 0, dev_address = 0, dev_test_mode = 0,
       dev_remote_wakeup = 0, request = \<lparr>bmRequest = 0, bRequest = 0, wValue = 0, wIndex = 0, wLength = 0\<rparr>,
       pDesc = False, pClass = False, pUserData = False, str_desc = replicate 256 0, serial_desc = USBD_StringSerial,
       ids = i, mallocs = ms, in_stall = replicate 15 False, out_stall = replicate 15 False, in_buff = [],
       out_buff = None, ep0_sent = [], ll = [], CDC_Device_Initialized = False\<rparr>)"

end
