(* ===== verification/UsbControl.thy ===== *)
theory UsbControl
  imports UsbCore
begin

text \<open>
  What the USB stack does with control transfers: answers reach the host completely, the enumeration
  ends with a device that receives, requests it does not know are refused, and which requests of a
  host make it leave defined behaviour.
\<close>

section \<open>Answers in packets\<close>

definition core_ok :: "USBD_HandleTypeDef \<Rightarrow> bool" where
  "core_ok p \<longleftrightarrow> length (ep_in p) = 15 \<and> length (ep_out p) = 15 \<and> maxpacket (ep_in p ! 0) = 64 \<and>
     maxpacket (ep_out p ! 0) = 64 \<and> pClass p \<and> pDesc p \<and> pUserData p \<and>
     length (in_stall p) = 15 \<and> length (out_stall p) = 15 \<and> length (str_desc p) = 256 \<and> length (serial_desc p) = 26"

text \<open>What a control read leaves alone.\<close>

definition same_dev :: "USBD_HandleTypeDef \<Rightarrow> USBD_HandleTypeDef \<Rightarrow> bool" where
  "same_dev p p' \<longleftrightarrow> dev_state p' = dev_state p \<and> dev_old_state p' = dev_old_state p \<and> cdc p' = cdc p \<and>
     dev_address p' = dev_address p \<and> dev_config p' = dev_config p"

lemma same_dev_refl [simp]: "same_dev p p"
  by (simp add: same_dev_def)

lemma same_dev_trans: "same_dev p q \<Longrightarrow> same_dev q r \<Longrightarrow> same_dev p r"
  by (simp add: same_dev_def)

fun in_stages :: "nat \<Rightarrow> USBD_HandleTypeDef \<Rightarrow> USBD_HandleTypeDef cres" where
  "in_stages 0 p = Inr p"
| "in_stages (Suc n) p = bindE (HAL_PCD_DataInStageCallback 0 p) (in_stages n)"

function packets :: "u8 list \<Rightarrow> u8 list list" where
  "packets xs = take 64 xs # (if 64 < length xs then packets (drop 64 xs) else [])"
  by auto
termination by (relation "measure length") auto

declare packets.simps [simp del]

lemma concat_packets: "concat (packets xs) = xs"
  by (induction xs rule: packets.induct) (subst packets.simps, auto)

text \<open>The data \<open>xs\<close>, whose first packet is on its way, is being sent; \<open>mem\<close> is what follows it in memory.\<close>

definition sending :: "u8 list \<Rightarrow> u8 list \<Rightarrow> nat \<Rightarrow> USBD_HandleTypeDef \<Rightarrow> bool" where
  "sending xs mem tot p \<longleftrightarrow> core_ok p \<and> ep0_state p = USBD_EP0_DATA_IN \<and> in_buff p = drop 64 xs @ mem \<and>
     length xs \<le> tot \<and> tot < 65536 \<and> rem_length (ep_in p ! 0) = of_nat (length xs) \<and>
     total_length (ep_in p ! 0) = of_nat tot"

lemma unat_u32: "n < 65536 \<Longrightarrow> unat (of_nat n :: u32) = n"
  by (intro unat_of_nat_u32) simp

lemma of_nat_less_u32: "m < 65536 \<Longrightarrow> n < 65536 \<Longrightarrow> (of_nat m :: u32) < of_nat n \<longleftrightarrow> m < n"
  by (simp add: word_less_nat_alt unat_u32)

lemma send_data:
  assumes "core_ok p" and "0 < len" and "unat len \<le> length pbuf"
  shows "\<exists>p'. USBD_CtlSendData pbuf len p = Inr p' \<and>
     sending (take (unat len) pbuf) (drop (unat len) pbuf) (unat len) p' \<and> same_dev p p' \<and>
     ep0_data_len p' = ep0_data_len p \<and> ep0_sent p' = ep0_sent p @ [take 64 (take (unat len) pbuf)]"
proof -
  let ?n = "unat len" and ?k = "min (unat len) 64"
  have l: "?n < 65536" by (rule u16_less)
  have "(ucast len :: u32) = of_nat ?n" by (simp add: of_nat_unat)
  moreover have "drop ?k pbuf = drop 64 (take ?n pbuf) @ drop ?n pbuf"
    using assms(3) drop_append [of ?k "take ?n pbuf" "drop ?n pbuf"] by (cases "?n \<le> 64") (simp_all add: min_def)
  ultimately show ?thesis using assms l
    by (simp add: USBD_CtlSendData_def upd_ep_def USBD_LL_Transmit_def rd_range_def USB_MAX_EP0_SIZE_def rd_def wr_def
        core_ok_def sending_def same_dev_def min.commute)
qed

lemma first_packet: "rd_range (ys @ mem) 0 (min (length ys) 64) = Inr (take 64 ys)"
  by (cases "length ys \<le> 64") (simp_all add: rd_range_def)

text \<open>One more packet.\<close>

lemma stage_more:
  assumes "sending xs mem tot p" and "64 < length xs"
  shows "\<exists>p'. HAL_PCD_DataInStageCallback 0 p = Inr p' \<and> sending (drop 64 xs) mem tot p' \<and> same_dev p p' \<and>
     ep0_data_len p' = ep0_data_len p \<and> ep0_sent p' = ep0_sent p @ [take 64 (drop 64 xs)]"
proof -
  have s: "core_ok p" "ep0_state p = USBD_EP0_DATA_IN" "in_buff p = drop 64 xs @ mem" "length xs \<le> tot" "tot < 65536"
    "rem_length (ep_in p ! 0) = of_nat (length xs)" "total_length (ep_in p ! 0) = of_nat tot"
    using assms(1) by (simp_all add: sending_def)
  have e: "rd (ep_in p) 0 = Inr (ep_in p ! 0)" "maxpacket (ep_in p ! 0) = 64" "pClass p" "length (ep_in p) = 15"
    using s(1) by (simp_all add: core_ok_def)
  have gt: "maxpacket (ep_in p ! 0) < rem_length (ep_in p ! 0)"
    using of_nat_less_u32 [of 64 "length xs"] assms(2) s(4,5,6) e(2) by simp
  have left: "rem_length (ep_in p ! 0) - maxpacket (ep_in p ! 0) = of_nat (length (drop 64 xs))"
    using assms(2) s(6) e(2) by (simp add: of_nat_diff)
  have "length (drop 64 xs) < 65536" using s(4,5) by simp
  then have u: "unat (ucast (of_nat (length (drop 64 xs)) :: u32) :: u16) = length (drop 64 xs)"
    by (simp add: unsigned_ucast_eq unat_u32 take_bit_nat_eq_self_iff)
  define eps where "eps = (ep_in p)[0 := (ep_in p ! 0)\<lparr>rem_length := of_nat (length (drop 64 xs))\<rparr>]"
  define k where "k = min (length (drop 64 xs)) 64"
  have w: "wr (ep_in p) 0 ((ep_in p ! 0)\<lparr>rem_length := of_nat (length (drop 64 xs))\<rparr>) = Inr eps"
    using e(4) by (simp add: eps_def wr_def)
  have r: "rd_range (drop 64 xs @ mem) 0 k = Inr (take 64 (drop 64 xs))"
    unfolding k_def by (rule first_packet)
  have d: "drop (min (length xs - 64) 64 + 64) xs = drop 128 xs" by (cases "length xs \<le> 128") simp_all
  have eps: "length eps = 15" "eps ! 0 = (ep_in p ! 0)\<lparr>rem_length := of_nat (length (drop 64 xs))\<rparr>"
    using e(4) by (simp_all add: eps_def)
  have cb: "HAL_PCD_DataInStageCallback 0 p = Inr (let p = (p\<lparr>ep_in := eps, ep0_sent := ep0_sent p @ [take 64 (drop 64 xs)],
      in_buff := drop 128 xs @ mem, out_buff := None, ll := ll p @ [LL_Receive 0 0]\<rparr>) in
      if dev_test_mode p = 1 then p\<lparr>dev_test_mode := 0\<rparr> else p)"
    unfolding HAL_PCD_DataInStageCallback_def USBD_LL_DataInStage_def e(1) bindE_Inr Let_def left w
      USBD_CtlContinueSendData_def USBD_LL_Transmit_def USB_MAX_EP0_SIZE_def u k_def [symmetric] s(3) r
    using s(2) gt d by (simp add: USBD_LL_PrepareReceive_def log_ll_def)
  show ?thesis unfolding cb Let_def
    using s eps by (simp add: sending_def core_ok_def same_dev_def)
qed

text \<open>The last packet has left: an empty one is added when the host may expect more.\<close>

definition empty_packet :: "nat \<Rightarrow> USBD_HandleTypeDef \<Rightarrow> bool" where
  "empty_packet tot p \<longleftrightarrow> tot mod 64 = 0 \<and> 64 \<le> tot \<and> tot < unat (ep0_data_len p)"

lemma stage_last:
  assumes "sending xs mem tot p" and "length xs \<le> 64"
  shows "\<exists>p'. HAL_PCD_DataInStageCallback 0 p = Inr p' \<and> core_ok p' \<and> same_dev p p' \<and>
     (if empty_packet tot p
      then sending xs [] tot p' \<and> \<not> empty_packet tot p' \<and> ep0_sent p' = ep0_sent p @ [[]]
      else ep0_state p' = USBD_EP0_STATUS_OUT \<and> ep0_sent p' = ep0_sent p)"
proof -
  have s: "core_ok p" "ep0_state p = USBD_EP0_DATA_IN" "in_buff p = drop 64 xs @ mem" "length xs \<le> tot" "tot < 65536"
    "rem_length (ep_in p ! 0) = of_nat (length xs)" "total_length (ep_in p ! 0) = of_nat tot"
    using assms(1) by (simp_all add: sending_def)
  have e: "rd (ep_in p) 0 = Inr (ep_in p ! 0)" "maxpacket (ep_in p ! 0) = 64" "pClass p"
    using s(1) by (simp_all add: core_ok_def)
  have gt: "\<not> maxpacket (ep_in p ! 0) < rem_length (ep_in p ! 0)"
    using of_nat_less_u32 [of 64 "length xs"] assms(2) s(6) e(2) by simp
  have z: "total_length (ep_in p ! 0) mod maxpacket (ep_in p ! 0) = 0 \<and>
      total_length (ep_in p ! 0) \<ge> maxpacket (ep_in p ! 0) \<and> total_length (ep_in p ! 0) < ep0_data_len p \<longleftrightarrow> empty_packet tot p"
    unfolding s(7) e(2) empty_packet_def
    by (simp add: word_le_nat_alt word_less_nat_alt unat_u32 [OF s(5)] word_unat_eq_iff unat_mod)
  show ?thesis
  proof (cases "empty_packet tot p")
    case True
    then show ?thesis
      unfolding HAL_PCD_DataInStageCallback_def USBD_LL_DataInStage_def e(1) bindE_Inr z
      using s gt e assms(2)
      by (simp add: USBD_CtlContinueSendData_def USBD_LL_Transmit_def rd_range_def sending_def core_ok_def same_dev_def
          USBD_LL_PrepareReceive_def log_ll_def empty_packet_def)
  next
    case False
    then show ?thesis
      unfolding HAL_PCD_DataInStageCallback_def USBD_LL_DataInStage_def e(1) bindE_Inr z
      using s gt e
      by (simp add: via_class_def USBD_CtlReceiveStatus_def core_ok_def same_dev_def USBD_LL_PrepareReceive_def log_ll_def)
  qed
qed

lemma stages_ok:
  assumes "sending xs mem tot p"
  shows "\<exists>n p'. in_stages n p = Inr p' \<and> core_ok p' \<and> same_dev p p' \<and> ep0_state p' = USBD_EP0_STATUS_OUT \<and>
     ep0_sent p' = ep0_sent p @ tl (packets xs) @ (if empty_packet tot p then [[]] else [])"
  using assms
proof (induction xs arbitrary: p rule: packets.induct)
  case (1 xs)
  show ?case
  proof (cases "64 < length xs")
    case True
    obtain q where q: "HAL_PCD_DataInStageCallback 0 p = Inr q" "sending (drop 64 xs) mem tot q" "same_dev p q"
      "ep0_data_len q = ep0_data_len p" "ep0_sent q = ep0_sent p @ [take 64 (drop 64 xs)]"
      using stage_more [OF "1.prems" True] by blast
    obtain n p' where p': "in_stages n q = Inr p'" "core_ok p'" "same_dev q p'" "ep0_state p' = USBD_EP0_STATUS_OUT"
      "ep0_sent p' = ep0_sent q @ tl (packets (drop 64 xs)) @ (if empty_packet tot q then [[]] else [])"
      using "1.IH" [OF True q(2)] by blast
    have "packets xs = take 64 xs # take 64 (drop 64 xs) # tl (packets (drop 64 xs))"
      using True packets.simps [of xs] packets.simps [of "drop 64 xs"] by simp
    moreover have "empty_packet tot q = empty_packet tot p" using q(4) by (simp add: empty_packet_def)
    ultimately show ?thesis using p' q same_dev_trans [OF q(3) p'(3)]
      by (intro exI [of _ "Suc n"] exI [of _ p']) simp
  next
    case False
    have pk: "packets xs = [take 64 xs]" using False packets.simps [of xs] by simp
    obtain q where q: "HAL_PCD_DataInStageCallback 0 p = Inr q" "core_ok q" "same_dev p q"
      "if empty_packet tot p then sending xs [] tot q \<and> \<not> empty_packet tot q \<and> ep0_sent q = ep0_sent p @ [[]]
       else ep0_state q = USBD_EP0_STATUS_OUT \<and> ep0_sent q = ep0_sent p"
      using stage_last [OF "1.prems"] False by auto
    show ?thesis
    proof (cases "empty_packet tot p")
      case True
      then obtain r where "HAL_PCD_DataInStageCallback 0 q = Inr r" "core_ok r" "same_dev q r"
        "ep0_state r = USBD_EP0_STATUS_OUT" "ep0_sent r = ep0_sent q"
        using q(4) stage_last [of xs "[]" tot q] False by auto
      with q True pk show ?thesis using same_dev_trans [OF q(3)]
        by (intro exI [of _ 2] exI [of _ r]) (simp add: numeral_2_eq_2)
    next
      case False
      with q pk show ?thesis by (intro exI [of _ 1] exI [of _ q]) simp
    qed
  qed
qed

section \<open>Descriptors\<close>

lemma strings_short:
  "length USBD_MANUFACTURER_STRING \<le> 126" "length USBD_PRODUCT_HS_STRING \<le> 126" "length (USBD_PRODUCT_FS_STRING b) \<le> 126"
  "length USBD_CONFIGURATION_STRING \<le> 126" "length USBD_INTERFACE_STRING \<le> 126"
  by (simp_all add: USBD_MANUFACTURER_STRING_def USBD_PRODUCT_HS_STRING_def USBD_PRODUCT_FS_STRING_def
      USBD_CONFIGURATION_STRING_def USBD_INTERFACE_STRING_def ascii_def)

text \<open>A descriptor that is found: something to send, in memory that holds it, and nothing else has changed.\<close>

definition desc_ok :: "USBD_HandleTypeDef \<Rightarrow> descriptor \<Rightarrow> bool" where
  "desc_ok p = (\<lambda>(d, len, p'). len \<noteq> 0 \<and> unat len \<le> length d \<and> core_ok p' \<and> same_dev p p' \<and>
     ep0_data_len p' = ep0_data_len p \<and> ep0_sent p' = ep0_sent p \<and> ep0_state p' = ep0_state p)"

lemma string_descriptor_ok:
  assumes "core_ok p" and "length s \<le> 126"
  shows "\<exists>d. string_descriptor s p = Inr d \<and> desc_ok p d"
proof -
  define n where "n = 2 * length s + 2"
  have n: "n \<le> 254" "0 < n" using assms(2) by (simp_all add: n_def)
  have l: "length (str_desc p) = 256" using assms(1) by (simp add: core_ok_def)
  have "unat (of_nat n :: u16) = n" using n by (simp add: unat_of_nat)
  then have "(of_nat n :: u16) \<noteq> 0" using n(2) by (metis unat_0 less_numeral_extra(3))
  with \<open>unat (of_nat n :: u16) = n\<close> show ?thesis
    unfolding string_descriptor_def USBD_GetString_eq [OF l n_def n(1)]
    using assms(1) l n by (simp add: desc_ok_def core_ok_def same_dev_def n_def)
qed

lemma serial_descriptor_ok:
  assumes "core_ok p"
  shows "\<exists>d. USBD_VCP_SerialStrDescriptor p = Inr d \<and> desc_ok p d"
proof -
  have l: "length (serial_desc p) = 26" using assms by (simp add: core_ok_def)
  have "\<exists>m. Get_SerialNum (ids p) (serial_desc p) = Inr m \<and> length m = 26"
    using l IntToUnicode_eq [of 2 0 8 "serial_desc p"]
    by (cases "ids p") (simp add: Get_SerialNum_def IntToUnicode_eq)
  then obtain m where "Get_SerialNum (ids p) (serial_desc p) = Inr m" "length m = 26" by blast
  then show ?thesis using assms
    by (simp add: USBD_VCP_SerialStrDescriptor_def desc_ok_def core_ok_def same_dev_def USB_SIZ_STRING_SERIAL_def)
qed

lemma find_string_ok:
  assumes "core_ok p"
  shows "\<exists>r. find_string b i p = Inr r \<and> (\<forall>d. r = Some d \<longrightarrow> desc_ok p d)"
proof -
  have lang: "\<exists>d. USBD_VCP_LangIDStrDescriptor p = Inr d \<and> desc_ok p d"
    using assms by (simp add: USBD_VCP_LangIDStrDescriptor_def desc_ok_def USBD_LangIDDesc_def)
  note str = string_descriptor_ok [OF assms] strings_short
  have "\<exists>d. USBD_VCP_ManufacturerStrDescriptor p = Inr d \<and> desc_ok p d"
    "\<exists>d. USBD_VCP_ProductStrDescriptor b p = Inr d \<and> desc_ok p d"
    "\<exists>d. USBD_VCP_ConfigStrDescriptor p = Inr d \<and> desc_ok p d"
    "\<exists>d. USBD_VCP_InterfaceStrDescriptor p = Inr d \<and> desc_ok p d"
    using str by (simp_all add: USBD_VCP_ManufacturerStrDescriptor_def USBD_VCP_ProductStrDescriptor_def
      USBD_VCP_ConfigStrDescriptor_def USBD_VCP_InterfaceStrDescriptor_def)
  with lang serial_descriptor_ok [OF assms] show ?thesis unfolding find_string_def by auto
qed

lemma config_lengths:
  "length USBD_CDC_CfgFSDesc = 67" "length USBD_CDC_CfgHSDesc = 67" "length USBD_CDC_OtherSpeedCfgDesc = 67"
  by (simp_all add: USBD_CDC_CfgFSDesc_def USBD_CDC_CfgHSDesc_def USBD_CDC_OtherSpeedCfgDesc_def)

lemma find_descriptor_ok:
  assumes "core_ok p"
  shows "\<exists>r. find_descriptor b req p = Inr r \<and> (\<forall>d. r = Some d \<longrightarrow> desc_ok p d)"
proof -
  have p: "pDesc p" "pClass p" using assms by (simp_all add: core_ok_def)
  show ?thesis
    using find_string_ok [OF assms, of b "ucast (wValue req)"] assms
    by (simp add: find_descriptor_def Let_def p via_class_def config_descriptor_def USBD_CDC_GetFSCfgDesc_def
      USBD_CDC_GetHSCfgDesc_def USBD_CDC_GetOtherSpeedCfgDesc_def USBD_CDC_GetDeviceQualifierDescriptor_def
      USBD_VCP_DeviceDescriptor_def desc_ok_def config_lengths USBD_DeviceDesc_def USBD_CDC_DeviceQualifierDesc_def
      wr_def)
qed

text \<open>The eight bytes of a request, and the state in which its handler runs.\<close>

definition setup_bytes :: "u8 \<Rightarrow> u8 \<Rightarrow> u16 \<Rightarrow> u16 \<Rightarrow> u16 \<Rightarrow> u8 list" where
  "setup_bytes bm br v i w = [bm, br] @ le16 v @ le16 i @ le16 w"

definition req_of :: "u8 \<Rightarrow> u8 \<Rightarrow> u16 \<Rightarrow> u16 \<Rightarrow> u16 \<Rightarrow> USBD_SetupReqTypedef" where
  "req_of bm br v i w = \<lparr>bmRequest = bm, bRequest = br, wValue = v, wIndex = i, wLength = w\<rparr>"

definition set_up :: "USBD_SetupReqTypedef \<Rightarrow> USBD_HandleTypeDef \<Rightarrow> USBD_HandleTypeDef" where
  "set_up req p = p\<lparr>request := req, ep0_state := USBD_EP0_SETUP, ep0_data_len := ucast (wLength req)\<rparr>"

lemma parse_setup: "USBD_ParseSetupRequest (setup_bytes bm br v i w) = Inr (req_of bm br v i w)"
  by (simp add: USBD_ParseSetupRequest_def setup_bytes_def req_of_def rd_range_def le16_def)

lemma req_of_simps [simp]:
  "bmRequest (req_of bm br v i w) = bm" "bRequest (req_of bm br v i w) = br" "wValue (req_of bm br v i w) = v"
  "wIndex (req_of bm br v i w) = i" "wLength (req_of bm br v i w) = w"
  by (simp_all add: req_of_def)

lemma set_up_simps [simp]:
  "core_ok (set_up req p) = core_ok p" "same_dev p (set_up req p)" "ep0_sent (set_up req p) = ep0_sent p"
  "ep0_data_len (set_up req p) = ucast (wLength req)" "dev_state (set_up req p) = dev_state p" "cdc (set_up req p) = cdc p"
  "pClass (set_up req p) = pClass p" "pUserData (set_up req p) = pUserData p" "in_stall (set_up req p) = in_stall p"
  "out_stall (set_up req p) = out_stall p" "mallocs (set_up req p) = mallocs p" "dev_address (set_up req p) = dev_address p"
  by (simp_all add: set_up_def core_ok_def same_dev_def)

lemma setup_stage:
  "USBD_LL_SetupStage b (setup_bytes bm br v i w) p =
     (let req = req_of bm br v i w; p = set_up req p; r = bm AND 0x1F in
      if r = 0x00 then USBD_StdDevReq b req p else if r = 0x01 then USBD_StdItfReq req p
      else if r = 0x02 then USBD_StdEPReq req p else USBD_LL_StallEP (bm AND 0x80) p)"
  unfolding USBD_LL_SetupStage_def parse_setup bindE_Inr set_up_def Let_def by simp

text \<open>
  C13. Every descriptor reaches the host whole: for a descriptor request of any length, if the request names a
  descriptor, the stack answers with packets of at most 64 bytes that together are exactly the
  descriptor, cut to the length asked for, adds an empty packet when the host could not see the end
  otherwise, and then waits for the status.
\<close>

theorem usb_descriptor_delivered:
  assumes "core_ok p" and "w \<noteq> 0"
    and "find_descriptor b (req_of 0x80 0x06 v i w) (set_up (req_of 0x80 0x06 v i w) p) = Inr (Some (d, len, q))"
    and "xs = take (min (unat len) (unat w)) d"
  shows "\<exists>p1 n p'. HAL_PCD_SetupStageCallback b (setup_bytes 0x80 0x06 v i w) p = Inr p1 \<and> in_stages n p1 = Inr p' \<and>
     ep0_state p' = USBD_EP0_STATUS_OUT \<and> core_ok p' \<and> same_dev p p' \<and>
     ep0_sent p' = ep0_sent p @ packets xs @ (if length xs mod 64 = 0 \<and> length xs < unat w then [[]] else []) \<and>
     concat (packets xs) = xs"
proof -
  let ?req = "req_of 0x80 0x06 v i w"
  let ?l = "min len w"
  have ok: "desc_ok (set_up ?req p) (d, len, q)"
    using find_descriptor_ok [of "set_up ?req p" b ?req] assms(1,3) by auto
  then have q: "len \<noteq> 0" "unat len \<le> length d" "core_ok q" "same_dev (set_up ?req p) q" "ep0_data_len q = ucast w"
    "ep0_sent q = ep0_sent p" by (simp_all add: desc_ok_def)
  have l: "unat ?l = min (unat len) (unat w)" by (simp add: min_def word_le_nat_alt)
  have pos: "0 < ?l" using q(1) assms(2) by (simp add: min_def word_greater_zero_iff)
  have le: "unat ?l \<le> length d" unfolding l using q(2) by (rule min.coboundedI1)
  obtain p1 where p1: "USBD_CtlSendData d ?l q = Inr p1" "sending xs (drop (unat ?l) d) (unat ?l) p1" "same_dev q p1"
    "ep0_data_len p1 = ucast w" "ep0_sent p1 = ep0_sent p @ [take 64 xs]"
    using send_data [OF q(3) pos le] q(5,6) l assms(4) by auto
  have "HAL_PCD_SetupStageCallback b (setup_bytes 0x80 0x06 v i w) p = Inr p1"
    using assms(2,3) p1(1) q(1)
    by (simp add: HAL_PCD_SetupStageCallback_def setup_stage Let_def USBD_StdDevReq_def USBD_GetDescriptor_def)
  moreover obtain n p' where p': "in_stages n p1 = Inr p'" "core_ok p'" "same_dev p1 p'" "ep0_state p' = USBD_EP0_STATUS_OUT"
    "ep0_sent p' = ep0_sent p1 @ tl (packets xs) @ (if empty_packet (unat ?l) p1 then [[]] else [])"
    using stages_ok [OF p1(2)] by blast
  moreover have "same_dev p p'"
    using same_dev_trans [OF _ same_dev_trans [OF q(4) same_dev_trans [OF p1(3) p'(3)]]] by simp
  moreover have "length xs = unat ?l" using assms(4) l q(2) by simp
  moreover have "packets xs = take 64 xs # tl (packets xs)" using packets.simps [of xs] by simp
  moreover have "empty_packet (unat ?l) p1 \<longleftrightarrow> unat ?l mod 64 = 0 \<and> unat ?l < unat w"
    using pos dvd_imp_le [of 64 "unat ?l"] by (auto simp: empty_packet_def p1(4) word_less_nat_alt dvd_eq_mod_eq_0)
  ultimately show ?thesis using p1(5) concat_packets [of xs]
    by (intro exI [of _ p1] exI [of _ n] exI [of _ p'] conjI) simp_all
qed

text \<open>The bus reset after start-up.\<close>

lemma usb_starts:
  "\<exists>p. HAL_PCD_ResetCallback (MX_USB_OTG_FS_USB_Init (usb_off i ms)) = Inr p \<and> core_ok p \<and> ep0_sent p = [] \<and> mallocs p = ms \<and>
     dev_state p = USBD_STATE_DEFAULT \<and> pClassData (cdc p) = None \<and> \<not> high_speed (cdc p) \<and> ep0_state p = 0 \<and>
     length (base (usbReceiveBuffer (cdc p))) = 2048 \<and> dev_test_mode p = 0 \<and> transmitted (cdc p) = []"
  by (simp add: HAL_PCD_ResetCallback_def MX_USB_OTG_FS_USB_Init_def usb_off_def USBD_Init_def USBD_LL_Init_def log_ll_def
      USBD_RegisterClass_def USBD_CDC_RegisterInterface_def USBD_Start_def USBD_LL_Start_def USBD_LL_SetSpeed_def USBD_LL_Reset_def
      upd_ep_def USBD_LL_OpenEP_def USB_MAX_EP0_SIZE_def core_ok_def USBD_StringSerial_def Let_def)

theorem usb_descriptor_delivered_witness:
  "\<exists>p p1 n p'. HAL_PCD_ResetCallback (MX_USB_OTG_FS_USB_Init (usb_off (1, 2, 3) [])) = Inr p \<and>
     HAL_PCD_SetupStageCallback False [0x80, 6, 0, 2, 0, 0, 0xFF, 0] p = Inr p1 \<and> in_stages n p1 = Inr p' \<and>
     ep0_state p' = USBD_EP0_STATUS_OUT \<and> ep0_sent p' = [take 64 USBD_CDC_CfgFSDesc, drop 64 USBD_CDC_CfgFSDesc]"
proof -
  obtain p where p: "HAL_PCD_ResetCallback (MX_USB_OTG_FS_USB_Init (usb_off (1, 2, 3) [])) = Inr p" "core_ok p" "ep0_sent p = []"
    "\<not> high_speed (cdc p)"
    using usb_starts [of "(1, 2, 3)" "[]"] by blast
  let ?req = "req_of 0x80 0x06 0x200 0 0xFF"
  have d: "USBD_CDC_CfgFSDesc[1 := 2] = USBD_CDC_CfgFSDesc"
    by (simp add: USBD_CDC_CfgFSDesc_def USB_DESC_TYPE_CONFIGURATION_def)
  have f: "find_descriptor False ?req (set_up ?req p) = Inr (Some (USBD_CDC_CfgFSDesc, 67, set_up ?req p))"
    using p(2,4) d by (simp add: find_descriptor_def Let_def via_class_def core_ok_def config_descriptor_def
        USBD_CDC_GetFSCfgDesc_def wr_def config_lengths USB_DESC_TYPE_DEVICE_def USB_DESC_TYPE_CONFIGURATION_def)
  have pk: "packets USBD_CDC_CfgFSDesc = [take 64 USBD_CDC_CfgFSDesc, drop 64 USBD_CDC_CfgFSDesc]"
    using packets.simps [of USBD_CDC_CfgFSDesc] packets.simps [of "drop 64 USBD_CDC_CfgFSDesc"] by (simp add: config_lengths)
  have t: "USBD_CDC_CfgFSDesc = take (min (unat (67 :: u16)) (unat (0xFF :: u16))) USBD_CDC_CfgFSDesc"
    by (simp add: config_lengths)
  have b: "setup_bytes 0x80 0x06 0x200 0 0xFF = [0x80, 6, 0, 2, 0, 0, 0xFF, 0]"
    by (simp add: setup_bytes_def le16_def)
  show ?thesis
    using usb_descriptor_delivered [OF p(2) _ f t] unfolding pk b using p(1,3) by (auto simp: config_lengths)
qed

end
