(* ===== verification/UsbWrite.thy ===== *)
theory UsbWrite
  imports UsbControl
begin

text \<open>
  Control transfers without data, by which the host enumerates the device, and with data from the host: the data of a class request ends up in the array \<^verbatim>\<open>data\<close> of the class,
  packet by packet, and the stack answers with the status. The length that the host announces is not
  compared with the size of the array.
\<close>

section \<open>Enumeration\<close>

lemma class_Init_ok:
  assumes "core_ok p" and "mallocs p = Some h # ms"
  shows "\<exists>p' h'. class_Init p = Inr (0, p') \<and> core_ok p' \<and> pClassData (cdc p') = Some h' \<and> cdata h' = cdata h \<and>
     dev_state p' = dev_state p \<and> dev_address p' = dev_address p \<and> dev_config p' = dev_config p \<and> ep0_sent p' = ep0_sent p \<and>
     ep0_state p' = ep0_state p \<and> dev_test_mode p' = dev_test_mode p \<and> USBD_CDC_Init (cdc p) (Some h) = Inr (0, cdc p')"
  using assms by (simp add: class_Init_def Let_def USBD_LL_OpenEP_def log_ll_def core_ok_def USBD_CDC_Init_def CDC_Init_def
      USBD_CDC_SetRxBuffer_def)

lemma send_status_eq:
  "USBD_CtlSendStatus p = Inr (p\<lparr>ep0_state := USBD_EP0_STATUS_IN, ep0_sent := ep0_sent p @ [[]], in_buff := []\<rparr>)"
  by (simp add: USBD_CtlSendStatus_def USBD_LL_Transmit_def rd_range_def)

lemma status_done: "ep0_state p = USBD_EP0_STATUS_IN \<Longrightarrow> core_ok p \<Longrightarrow> dev_test_mode p = 0 \<Longrightarrow> in_stages 1 p = Inr p"
  by (simp add: HAL_PCD_DataInStageCallback_def USBD_LL_DataInStage_def core_ok_def ep0_states)

lemma address_bits:
  fixes a :: u16
  assumes "0 < a" and "a < 128"
  shows "ucast a AND (0x7F :: u8) = ucast a" "(ucast a :: u8) \<noteq> 0"
proof -
  have n: "unat a < 128" "0 < unat a" using assms by (simp_all add: word_less_nat_alt)
  then have u: "unat (ucast a :: u8) = unat a" by (simp add: unsigned_ucast_eq take_bit_nat_eq_self_iff)
  have "take_bit 7 (ucast a :: u8) = ucast a"
    using n(1) u by (simp add: word_unat_eq_iff unsigned_take_bit_eq take_bit_nat_eq_self_iff)
  then show "ucast a AND (0x7F :: u8) = ucast a" by (simp add: take_bit_eq_mask mask_eq_exp_minus_1)
  show "(ucast a :: u8) \<noteq> 0" using u n(2) by (metis unat_0 less_numeral_extra(3))
qed

lemma set_address:
  assumes "core_ok p" and "dev_state p = USBD_STATE_DEFAULT" and "0 < a" and "a < 128"
  shows "\<exists>p'. HAL_PCD_SetupStageCallback b (setup_bytes 0 5 a 0 0) p = Inr p' \<and> core_ok p' \<and> dev_state p' = USBD_STATE_ADDRESSED \<and>
     dev_address p' = ucast a \<and> ep0_sent p' = ep0_sent p @ [[]] \<and> ep0_state p' = USBD_EP0_STATUS_IN \<and> mallocs p' = mallocs p \<and>
     cdc p' = cdc p \<and> dev_test_mode p' = dev_test_mode p \<and> LL_SetAddress (ucast a) \<in> set (ll p')"
proof -
  note a = address_bits [OF assms(3,4)]
  show ?thesis
    using assms(1,2) a by (simp add: HAL_PCD_SetupStageCallback_def setup_stage Let_def USBD_StdDevReq_def USBD_SetAddress_def
        send_status_eq USBD_LL_SetUSBAddress_def log_ll_def core_ok_def set_up_def dev_states)
qed

lemma set_configuration:
  assumes "core_ok p" and "dev_state p = USBD_STATE_ADDRESSED" and "mallocs p = Some h # ms"
  shows "\<exists>p' h'. HAL_PCD_SetupStageCallback b (setup_bytes 0 9 1 0 0) p = Inr p' \<and> core_ok p' \<and> dev_state p' = USBD_STATE_CONFIGURED \<and>
     dev_address p' = dev_address p \<and> dev_config p' = 1 \<and> ep0_sent p' = ep0_sent p @ [[]] \<and> ep0_state p' = USBD_EP0_STATUS_IN \<and>
     pClassData (cdc p') = Some h' \<and> cdata h' = cdata h \<and> dev_test_mode p' = dev_test_mode p \<and>
     USBD_CDC_Init (cdc p) (Some h) = Inr (0, cdc p')"
proof -
  let ?p = "(set_up (req_of 0 9 1 0 0) p)\<lparr>dev_config := 1, dev_state := USBD_STATE_CONFIGURED\<rparr>"
  have "core_ok ?p" "mallocs ?p = Some h # ms" using assms(1,3) by (simp_all add: core_ok_def set_up_def)
  from class_Init_ok [OF this] obtain q h' where q: "class_Init ?p = Inr (0, q)" "core_ok q" "pClassData (cdc q) = Some h'"
    "cdata h' = cdata h" "dev_state q = USBD_STATE_CONFIGURED" "dev_address q = dev_address p" "dev_config q = 1"
    "ep0_sent q = ep0_sent p" "dev_test_mode q = dev_test_mode p" "USBD_CDC_Init (cdc p) (Some h) = Inr (0, cdc q)"
    by (auto simp: set_up_def)
  have "HAL_PCD_SetupStageCallback b (setup_bytes 0 9 1 0 0) p = USBD_CtlSendStatus q"
    using assms(1,2) q(1) by (simp add: HAL_PCD_SetupStageCallback_def setup_stage Let_def USBD_StdDevReq_def USBD_SetConfig_def
        USBD_MAX_NUM_CONFIGURATION_def start_class_def USBD_SetClassConfig_def core_ok_def set_up_def)
  then show ?thesis using q by (simp add: send_status_eq core_ok_def)
qed

section \<open>Packets from the host\<close>

fun out_stages :: "u8 list list \<Rightarrow> USBD_HandleTypeDef \<Rightarrow> USBD_HandleTypeDef cres" where
  "out_stages [] p = Inr p"
| "out_stages (pkt # pkts) p = bindE (ep0_packet pkt p) (out_stages pkts)"

text \<open>The next packet goes to \<open>off\<close>, \<open>n\<close> bytes are still announced.\<close>

definition taking :: "nat \<Rightarrow> nat \<Rightarrow> USBD_CDC_HandleTypeDef \<Rightarrow> USBD_HandleTypeDef \<Rightarrow> bool" where
  "taking off n h p \<longleftrightarrow> core_ok p \<and> dev_state p = USBD_STATE_CONFIGURED \<and> ep0_state p = USBD_EP0_DATA_OUT \<and>
     out_buff p = Some off \<and> n < 65536 \<and> rem_length (ep_out p ! 0) = of_nat n \<and> pClassData (cdc p) = Some h \<and>
     length (cdata h) = 512"

definition put :: "nat \<Rightarrow> u8 list \<Rightarrow> USBD_CDC_HandleTypeDef \<Rightarrow> USBD_CDC_HandleTypeDef" where
  "put off xs h = h\<lparr>cdata := take off (cdata h) @ xs @ drop (off + length xs) (cdata h)\<rparr>"

lemma put_length: "off + length xs \<le> 512 \<Longrightarrow> length (cdata h) = 512 \<Longrightarrow> length (cdata (put off xs h)) = 512"
  by (simp add: put_def)

lemma put_put: "off + length xs \<le> length (cdata h) \<Longrightarrow> put (off + length xs) ys (put off xs h) = put off (xs @ ys) h"
  by (simp add: put_def ac_simps)

lemma put_range: "off + length xs \<le> length (cdata h) \<Longrightarrow> wr_range (cdata h) off xs = Inr (cdata (put off xs h))"
  by (simp add: wr_range_def put_def)

lemma put_upd: "h\<lparr>cdata := cdata (put off xs h)\<rparr> = put off xs h"
  by (simp add: put_def)

text \<open>The driver stores the packet.\<close>

lemma stored:
  assumes "taking off n h p" and "pkt \<noteq> []" and "off + length pkt \<le> 512"
  shows "ep0_packet pkt p = HAL_PCD_DataOutStageCallback 0 (of_nat (length pkt))
     (p\<lparr>cdc := (cdc p)\<lparr>pClassData := Some (put off pkt h)\<rparr>, out_buff := Some (off + length pkt)\<rparr>)"
  using assms put_range [of off pkt h] by (simp add: ep0_packet_def taking_def put_upd)

lemma take_more:
  assumes "taking off n h p" and "64 < n" and "length pkt = 64" and "off + 64 \<le> 512"
  shows "\<exists>p'. ep0_packet pkt p = Inr p' \<and> taking (off + 64) (n - 64) (put off pkt h) p' \<and> ep0_sent p' = ep0_sent p"
proof -
  have t: "core_ok p" "dev_state p = USBD_STATE_CONFIGURED" "ep0_state p = USBD_EP0_DATA_OUT" "n < 65536"
    "rem_length (ep_out p ! 0) = of_nat n" "length (cdata h) = 512"
    using assms(1) by (simp_all add: taking_def)
  have gt: "(64 :: u32) < of_nat n" using of_nat_less_u32 [of 64 n] assms(2) t(4) by simp
  have left: "of_nat n - (64 :: u32) = of_nat (n - 64)" using assms(2) by (simp add: of_nat_diff)
  have "length (cdata (put off pkt h)) = 512" using put_length t(6) assms(3,4) by simp
  moreover have "ep0_packet pkt p = HAL_PCD_DataOutStageCallback 0 (of_nat (length pkt))
     (p\<lparr>cdc := (cdc p)\<lparr>pClassData := Some (put off pkt h)\<rparr>, out_buff := Some (off + length pkt)\<rparr>)"
    using assms(3,4) by (intro stored [OF assms(1)]) auto
  ultimately show ?thesis using t assms(3) gt
    by (simp add: HAL_PCD_DataOutStageCallback_def USBD_LL_DataOutStage_def core_ok_def wr_def Let_def left USBD_CtlContinueRx_def
        USBD_LL_PrepareReceive_def log_ll_def taking_def)
qed

lemma take_last:
  assumes "taking off n h p" and "n \<le> 64" and "length pkt = n" and "0 < n" and "off + n \<le> 512"
  shows "\<exists>p' h'. ep0_packet pkt p = Inr p' \<and> core_ok p' \<and> dev_state p' = USBD_STATE_CONFIGURED \<and> ep0_state p' = USBD_EP0_STATUS_IN \<and>
     pClassData (cdc p') = Some h' \<and> cdata h' = cdata (put off pkt h) \<and> CmdOpCode h' = 0xFF \<and> ep0_sent p' = ep0_sent p @ [[]]"
proof -
  have t: "core_ok p" "dev_state p = USBD_STATE_CONFIGURED" "ep0_state p = USBD_EP0_DATA_OUT" "n < 65536"
    "rem_length (ep_out p ! 0) = of_nat n"
    using assms(1) by (simp_all add: taking_def)
  have le: "\<not> (64 :: u32) < of_nat n" using of_nat_less_u32 [of 64 n] assms(2) by simp
  have "ep0_packet pkt p = HAL_PCD_DataOutStageCallback 0 (of_nat (length pkt))
     (p\<lparr>cdc := (cdc p)\<lparr>pClassData := Some (put off pkt h)\<rparr>, out_buff := Some (off + length pkt)\<rparr>)"
    using assms(3-5) by (intro stored [OF assms(1)]) auto
  then show ?thesis using t le
    by (cases "CmdOpCode (put off pkt h) = 0xFF")
      (simp_all add: HAL_PCD_DataOutStageCallback_def USBD_LL_DataOutStage_def core_ok_def via_class_def USBD_CDC_EP0_RxReady_def
        CDC_Control_def USBD_CtlSendStatus_def USBD_LL_Transmit_def rd_range_def)
qed

lemma take_all:
  assumes "taking off (length xs) h p" and "xs \<noteq> []" and "off + length xs \<le> 512"
  shows "\<exists>p' h'. out_stages (packets xs) p = Inr p' \<and> core_ok p' \<and> dev_state p' = USBD_STATE_CONFIGURED \<and>
     ep0_state p' = USBD_EP0_STATUS_IN \<and> pClassData (cdc p') = Some h' \<and> cdata h' = cdata (put off xs h) \<and> CmdOpCode h' = 0xFF \<and>
     ep0_sent p' = ep0_sent p @ [[]]"
  using assms
proof (induction xs arbitrary: off h p rule: packets.induct)
  case (1 xs)
  show ?case
  proof (cases "64 < length xs")
    case True
    obtain q where q: "ep0_packet (take 64 xs) p = Inr q" "taking (off + 64) (length xs - 64) (put off (take 64 xs) h) q"
      "ep0_sent q = ep0_sent p"
      using take_more [OF "1.prems"(1) True, of "take 64 xs"] True "1.prems"(3) by auto
    have "length (cdata h) = 512" using "1.prems"(1) by (simp add: taking_def)
    then have "put (off + 64) (drop 64 xs) (put off (take 64 xs) h) = put off xs h"
      using put_put [of off "take 64 xs" h "drop 64 xs"] True "1.prems"(3) by simp
    moreover have "packets xs = take 64 xs # packets (drop 64 xs)" using True packets.simps [of xs] by simp
    ultimately show ?thesis using "1.IH" [OF True, of "off + 64" "put off (take 64 xs) h" q] q True "1.prems"(3) by simp
  next
    case False
    then have "packets xs = [xs]" using packets.simps [of xs] by simp
    then show ?thesis using take_last [OF "1.prems"(1), of xs] False "1.prems"(2,3) by auto
  qed
qed

lemma take_full:
  assumes "taking off n h p" and "64 * length pkts < n" and "off + 64 * length pkts \<le> 512" and "\<forall>pkt\<in>set pkts. length pkt = 64"
  shows "\<exists>p' h'. out_stages pkts p = Inr p' \<and> taking (off + 64 * length pkts) (n - 64 * length pkts) h' p'"
  using assms
proof (induction pkts arbitrary: off n h p)
  case (Cons pkt pkts)
  obtain q where "ep0_packet pkt p = Inr q" "taking (off + 64) (n - 64) (put off pkt h) q"
    using take_more [OF Cons.prems(1), of pkt] Cons.prems by auto
  then show ?case using Cons.IH [of "off + 64" "n - 64" "put off pkt h" q] Cons.prems by (simp add: algebra_simps)
qed auto

text \<open>The request itself.\<close>

lemma class_out_taking:
  assumes "core_ok p" and "dev_state p = USBD_STATE_CONFIGURED" and "pClassData (cdc p) = Some h" and "length (cdata h) = 512"
    and "w \<noteq> 0" and "(ucast i :: u8) \<le> 1"
  shows "\<exists>p' h'. HAL_PCD_SetupStageCallback b (setup_bytes 0x21 br v i w) p = Inr p' \<and> taking 0 (unat w) h' p' \<and>
     cdata h' = cdata h \<and> ep0_sent p' = ep0_sent p"
proof -
  have "unat w < 65536" by (rule u16_less)
  moreover have "(ucast w :: u32) = of_nat (unat w)" by (simp add: of_nat_unat)
  ultimately show ?thesis using assms
    by (simp add: HAL_PCD_SetupStageCallback_def setup_stage Let_def USBD_StdItfReq_def USBD_MAX_NUM_INTERFACES_def via_class_def
        USBD_CDC_Setup_def USBD_CtlPrepareRx_def upd_ep_def wr_def USBD_LL_PrepareReceive_def log_ll_def taking_def core_ok_def
        set_up_def)
qed

section \<open>Properties\<close>

lemma init_sending:
  assumes "USBD_CDC_Init d (Some h) = Inr (0, d')"
  shows "\<exists>h'. pClassData d' = Some h' \<and> TxState h' = 0 \<and> transmitted d' = transmitted d"
  using assms by (auto simp: USBD_CDC_Init_def CDC_Init_def USBD_CDC_SetRxBuffer_def)

text \<open>A packet that is queued does not disturb the sending side.\<close>

lemma packet_keeps_sending:
  assumes "usb_ready d" and "length pkt \<le> 64" and "usb_packet_arrives d pkt = Inr d'" and "pClassData d = Some h"
  shows "\<exists>h'. pClassData d' = Some h' \<and> TxState h' = TxState h \<and> transmitted d' = transmitted d"
  using assms(3,4) unfolding usb_packet_arrives_eq [OF assms(1,2)] by (auto simp: bindE_eq_Inr)

text \<open>The memory of a class, as allocated.\<close>

definition class_memory :: USBD_CDC_HandleTypeDef where
  "class_memory = \<lparr>cdata = replicate 512 0, CmdOpCode = 0, CmdLength = 0, RxBuffer = 0, TxBuffer = [], RxLength = 0, TxLength = 0,
     TxState = 0, RxState = 0\<rparr>"

lemma enumerated:
  assumes "0 < a" and "a < 128"
  shows "\<exists>p p1 p2 h'. HAL_PCD_ResetCallback (MX_USB_OTG_FS_USB_Init (usb_off ident (Some h # ms))) = Inr p \<and>
     HAL_PCD_SetupStageCallback b (setup_bytes 0 5 a 0 0) p = Inr p1 \<and> in_stages 1 p1 = Inr p1 \<and>
     HAL_PCD_SetupStageCallback b (setup_bytes 0 9 1 0 0) p1 = Inr p2 \<and> in_stages 1 p2 = Inr p2 \<and>
     core_ok p2 \<and> dev_state p2 = USBD_STATE_CONFIGURED \<and> dev_address p2 = ucast a \<and> LL_SetAddress (ucast a) \<in> set (ll p1) \<and>
     dev_config p2 = 1 \<and> ep0_sent p2 = [[], []] \<and> pClassData (cdc p2) = Some h' \<and> cdata h' = cdata h \<and>
     TxState h' = 0 \<and> transmitted (cdc p2) = [] \<and> usb_ready (cdc p2) \<and> db_content (usbReceiveBuffer (cdc p2)) = []"
proof -
  obtain p where p: "HAL_PCD_ResetCallback (MX_USB_OTG_FS_USB_Init (usb_off ident (Some h # ms))) = Inr p" "core_ok p" "ep0_sent p = []"
    "mallocs p = Some h # ms" "dev_state p = USBD_STATE_DEFAULT" "\<not> high_speed (cdc p)" "length (base (usbReceiveBuffer (cdc p))) = 2048"
    "dev_test_mode p = 0" "transmitted (cdc p) = []"
    using usb_starts [of ident "Some h # ms"] by blast
  obtain p1 where p1: "HAL_PCD_SetupStageCallback b (setup_bytes 0 5 a 0 0) p = Inr p1" "core_ok p1" "dev_state p1 = USBD_STATE_ADDRESSED"
    "dev_address p1 = ucast a" "ep0_sent p1 = [[]]" "ep0_state p1 = USBD_EP0_STATUS_IN" "mallocs p1 = Some h # ms" "cdc p1 = cdc p"
    "dev_test_mode p1 = 0" "LL_SetAddress (ucast a) \<in> set (ll p1)"
    using set_address [OF p(2,5) assms, of b] p(3,4,8) by auto
  obtain p2 h' where p2: "HAL_PCD_SetupStageCallback b (setup_bytes 0 9 1 0 0) p1 = Inr p2" "core_ok p2"
    "dev_state p2 = USBD_STATE_CONFIGURED" "dev_address p2 = ucast a" "dev_config p2 = 1" "ep0_sent p2 = [[], []]"
    "ep0_state p2 = USBD_EP0_STATUS_IN" "pClassData (cdc p2) = Some h'" "cdata h' = cdata h" "dev_test_mode p2 = 0"
    "USBD_CDC_Init (cdc p) (Some h) = Inr (0, cdc p2)"
    using set_configuration [OF p1(2,3,7), of b] p1(4,5,8,9) by auto
  have "usb_ready (cdc p2)" "db_content (usbReceiveBuffer (cdc p2)) = []"
    using usb_init_ready [OF p(7,6), of h] p2(11) by auto
  moreover have "TxState h' = 0" "transmitted (cdc p2) = []"
    using init_sending [OF p2(11)] p2(8) p(9) by auto
  ultimately show ?thesis using p(1) p1 p2 status_done [OF p1(6,2,9)] status_done [OF p2(7,2,10)] by blast
qed

text \<open>
  Enumeration ends with a device that receives: after start-up, a bus reset, the assignment of an address from 1 to
  127 and the selection of configuration 1, each acknowledged with an empty packet, the device is
  configured under this address, and the first packet of up to 64 bytes for the serial port is queued whole.
\<close>

theorem usb_enumeration:
  assumes "0 < a" and "a < 128" and "length pkt \<le> 64"
  shows "\<exists>p p1 p2 d. HAL_PCD_ResetCallback (MX_USB_OTG_FS_USB_Init (usb_off ident (Some h # ms))) = Inr p \<and>
     HAL_PCD_SetupStageCallback b (setup_bytes 0 5 a 0 0) p = Inr p1 \<and> in_stages 1 p1 = Inr p1 \<and>
     HAL_PCD_SetupStageCallback b (setup_bytes 0 9 1 0 0) p1 = Inr p2 \<and> in_stages 1 p2 = Inr p2 \<and>
     dev_state p2 = USBD_STATE_CONFIGURED \<and> dev_address p2 = ucast a \<and> LL_SetAddress (ucast a) \<in> set (ll p1) \<and>
     dev_config p2 = 1 \<and> ep0_sent p2 = [[], []] \<and>
     usb_packet_arrives (cdc p2) pkt = Inr d \<and> usb_ready d \<and> db_content (usbReceiveBuffer d) = pkt"
  using enumerated [OF assms(1,2), of ident h ms b] usb_packet_queued_when_empty [OF _ _ assms(3)] by metis

theorem usb_enumeration_witness:
  "\<exists>p p1 p2 d. HAL_PCD_ResetCallback (MX_USB_OTG_FS_USB_Init (usb_off (1, 2, 3) [Some class_memory])) = Inr p \<and>
     HAL_PCD_SetupStageCallback False (setup_bytes 0 5 17 0 0) p = Inr p1 \<and>
     HAL_PCD_SetupStageCallback False (setup_bytes 0 9 1 0 0) p1 = Inr p2 \<and>
     dev_state p2 = USBD_STATE_CONFIGURED \<and> dev_address p2 = 17 \<and>
     usb_packet_arrives (cdc p2) [0xF0, 0x5A] = Inr d \<and> db_content (usbReceiveBuffer d) = [0xF0, 0x5A]"
  using usb_enumeration [of 17 "[0xF0, 0x5A]" "(1, 2, 3)" class_memory "[]" False] by auto

text \<open>
  C23. The data of a class request arrives: when the device is configured and the host sends an interface request
  with 1 to 512 bytes of data, in packets of at most 64, the stack stores exactly these bytes at the start of the
  class's array, keeps the rest of it, marks the command as done and answers with one empty packet.
\<close>

theorem usb_class_data_received:
  assumes "core_ok p" and "dev_state p = USBD_STATE_CONFIGURED" and "pClassData (cdc p) = Some h" and "length (cdata h) = 512"
    and "xs \<noteq> []" and "length xs \<le> 512" and "(ucast i :: u8) \<le> 1"
  shows "\<exists>p1 p2 h'. HAL_PCD_SetupStageCallback b (setup_bytes 0x21 br v i (of_nat (length xs))) p = Inr p1 \<and>
     out_stages (packets xs) p1 = Inr p2 \<and> ep0_state p2 = USBD_EP0_STATUS_IN \<and> dev_state p2 = USBD_STATE_CONFIGURED \<and>
     pClassData (cdc p2) = Some h' \<and> cdata h' = xs @ drop (length xs) (cdata h) \<and> CmdOpCode h' = 0xFF \<and>
     ep0_sent p2 = ep0_sent p @ [[]]"
proof -
  let ?w = "of_nat (length xs) :: u16"
  have w: "unat ?w = length xs" using assms(6) by (simp add: unat_of_nat)
  have "?w \<noteq> 0" using w assms(5) by (metis length_0_conv unat_0)
  then obtain p1 h1 where p1: "HAL_PCD_SetupStageCallback b (setup_bytes 0x21 br v i ?w) p = Inr p1" "taking 0 (length xs) h1 p1"
    "cdata h1 = cdata h" "ep0_sent p1 = ep0_sent p"
    using class_out_taking [OF assms(1-4) _ assms(7), of ?w b br v] w by auto
  with take_all [OF p1(2) assms(5)] assms(6) show ?thesis by (fastforce simp: put_def)
qed

theorem usb_class_data_received_witness:
  "\<exists>p p1 p2 h'. HAL_PCD_SetupStageCallback False (setup_bytes 0x21 0x20 0 0 7) p = Inr p1 \<and>
     out_stages [[0x80, 0x25, 0, 0, 0, 0, 8]] p1 = Inr p2 \<and> pClassData (cdc p2) = Some h' \<and>
     cdata h' = [0x80, 0x25, 0, 0, 0, 0, 8] @ replicate 505 0 \<and> ep0_sent p2 = [[], [], []]"
proof -
  obtain p h where p: "core_ok p" "dev_state p = USBD_STATE_CONFIGURED" "ep0_sent p = [[], []]" "pClassData (cdc p) = Some h"
    "cdata h = replicate 512 0"
    using enumerated [of 17 "(1, 2, 3)" class_memory "[]" False] by (auto simp: class_memory_def)
  have "packets [0x80, 0x25, 0, 0, 0, 0, 8] = [[0x80, 0x25, 0, 0, 0, 0, 8]]" by (subst packets.simps) simp
  with usb_class_data_received [OF p(1,2,4), of "[0x80, 0x25, 0, 0, 0, 0, 8]" 0 False "0x20" 0] p(3,5)
  have "\<exists>p1 p2 h'. HAL_PCD_SetupStageCallback False (setup_bytes 0x21 0x20 0 0 7) p = Inr p1 \<and>
     out_stages [[0x80, 0x25, 0, 0, 0, 0, 8]] p1 = Inr p2 \<and> pClassData (cdc p2) = Some h' \<and>
     cdata h' = [0x80, 0x25, 0, 0, 0, 0, 8] @ replicate 505 0 \<and> ep0_sent p2 = [[], [], []]" by auto
  then show ?thesis by blast
qed

text \<open>
  C38. The announced length is not checked: an interface request that announces more than 512 bytes is accepted, the
  first eight full packets fill the array of the class, and the ninth packet is stored behind its end.
\<close>

theorem usb_class_request_overruns:
  assumes "core_ok p" and "dev_state p = USBD_STATE_CONFIGURED" and "pClassData (cdc p) = Some h" and "length (cdata h) = 512"
    and "512 < unat w" and "(ucast i :: u8) \<le> 1" and "length pkts = 8" and "\<forall>pkt\<in>set pkts. length pkt = 64" and "pkt \<noteq> []"
  shows "\<exists>p1 p2. HAL_PCD_SetupStageCallback b (setup_bytes 0x21 br v i w) p = Inr p1 \<and> out_stages pkts p1 = Inr p2 \<and>
     ep0_packet pkt p2 = Inl OutOfBounds"
proof -
  have "w \<noteq> 0" using assms(5) by auto
  then obtain p1 h1 where p1: "HAL_PCD_SetupStageCallback b (setup_bytes 0x21 br v i w) p = Inr p1" "taking 0 (unat w) h1 p1"
    using class_out_taking [OF assms(1-4) _ assms(6)] by blast
  obtain p2 h2 where p2: "out_stages pkts p1 = Inr p2" "taking 512 (unat w - 512) h2 p2"
    using take_full [OF p1(2), of pkts] assms(5,7,8) by auto
  have "ep0_packet pkt p2 = Inl OutOfBounds"
    using p2(2) assms(9) by (simp add: ep0_packet_def taking_def wr_range_def)
  with p1(1) p2(1) show ?thesis by blast
qed

theorem usb_class_request_overruns_witness:
  "\<exists>p p1 p2. dev_state p = USBD_STATE_CONFIGURED \<and> HAL_PCD_SetupStageCallback False (setup_bytes 0x21 0x20 0 0 513) p = Inr p1 \<and>
     out_stages (replicate 8 (replicate 64 7)) p1 = Inr p2 \<and> ep0_packet [7] p2 = Inl OutOfBounds"
proof -
  obtain p h where p: "core_ok p" "dev_state p = USBD_STATE_CONFIGURED" "pClassData (cdc p) = Some h" "length (cdata h) = 512"
    using enumerated [of 17 "(1, 2, 3)" class_memory "[]" False] by (auto simp: class_memory_def)
  with usb_class_request_overruns [OF p, of 513 0 "replicate 8 (replicate 64 7)" "[7]" False "0x20" 0] show ?thesis by auto
qed

end
