(* ===== verification/UsbHost.thy ===== *)
theory UsbHost
  imports UsbWrite
begin

text \<open>
  The USB stack and its host as a state machine. A step is one interrupt of the controller: a request,
  a packet that has left, a packet that has arrived on endpoint 0, a bus event. \<open>usb_reachable\<close> are the states
  that a fair host can bring the stack to after the first bus reset, and the theorems say that no step of a
  fair host leaves defined behaviour; what makes a host fair is exactly what the stack does not check,
  and for each of these conditions a theorem shows what happens without it.
\<close>

section \<open>Steps\<close>

datatype usb_event = EvSetup u8 u8 u16 u16 u16 | EvInDone | EvOut "u8 list" | EvReset | EvSuspend | EvResume | EvSof | EvDisconnect

fun usb_step :: "bool \<Rightarrow> usb_event \<Rightarrow> USBD_HandleTypeDef \<Rightarrow> USBD_HandleTypeDef cres" where
  "usb_step b (EvSetup bm br v i w) p = HAL_PCD_SetupStageCallback b (setup_bytes bm br v i w) p"
| "usb_step b EvInDone p = HAL_PCD_DataInStageCallback 0 p"
| "usb_step b (EvOut pkt) p = ep0_packet pkt p"
| "usb_step b EvReset p = HAL_PCD_ResetCallback p"
| "usb_step b EvSuspend p = Inr (HAL_PCD_SuspendCallback p)"
| "usb_step b EvResume p = Inr (HAL_PCD_ResumeCallback p)"
| "usb_step b EvSof p = HAL_PCD_SOFCallback p"
| "usb_step b EvDisconnect p = HAL_PCD_DisconnectCallback p"

text \<open>
  A fair host sends class requests to the device or an endpoint only when the device is configured, and
  never for more than 512 bytes; names endpoints that exist; sends no more data than it has
  announced, and only while the device is configured; and resumes only a suspended device. There is memory for
  the class when a request comes.
\<close>

fun fair :: "usb_event \<Rightarrow> USBD_HandleTypeDef \<Rightarrow> bool" where
  "fair (EvSetup bm br v i w) p \<longleftrightarrow>
     (bm AND 0x60 = 0x20 \<longrightarrow> unat w \<le> 512 \<and> (dev_state p = USBD_STATE_CONFIGURED \<or> bm AND 0x1F \<noteq> 0 \<and> bm AND 0x1F \<noteq> 2)) \<and>
     (bm AND 0x1F = 2 \<longrightarrow> unat ((ucast i :: u8) AND 0x7F) < 15) \<and>
     (\<exists>h ms. mallocs p = Some h # ms \<and> length (cdata h) = 512)"
| "fair (EvOut pkt) p \<longleftrightarrow> pkt = [] \<or>
     ep0_state p = USBD_EP0_DATA_OUT \<and> dev_state p = USBD_STATE_CONFIGURED \<and>
     length pkt \<le> min (unat (rem_length (ep_out p ! 0))) 64"
| "fair EvResume p \<longleftrightarrow> dev_state p = USBD_STATE_SUSPENDED"
| "fair _ p \<longleftrightarrow> True"

inductive usb_reachable :: "USBD_HandleTypeDef \<Rightarrow> bool" where
  start: "HAL_PCD_ResetCallback (MX_USB_OTG_FS_USB_Init (usb_off i ms)) = Inr p \<Longrightarrow> usb_reachable p"
| step: "usb_reachable p \<Longrightarrow> fair e p \<Longrightarrow> usb_step b e p = Inr p' \<Longrightarrow> usb_reachable p'"

section \<open>Invariant\<close>

text \<open>A configured device, suspended or not, has its class data.\<close>

definition class_ok :: "USBD_HandleTypeDef \<Rightarrow> bool" where
  "class_ok p \<longleftrightarrow>
     (dev_state p = USBD_STATE_CONFIGURED \<or> dev_state p = USBD_STATE_SUSPENDED \<and> dev_old_state p = USBD_STATE_CONFIGURED
        \<longrightarrow> pClassData (cdc p) \<noteq> None) \<and>
     (\<forall>h. pClassData (cdc p) = Some h \<longrightarrow> length (cdata h) = 512)"

definition receiving :: "USBD_HandleTypeDef \<Rightarrow> bool" where
  "receiving p \<longleftrightarrow> (\<exists>off. out_buff p = Some off \<and> off + unat (rem_length (ep_out p ! 0)) \<le> 512)"

definition usb_base :: "USBD_HandleTypeDef \<Rightarrow> bool" where
  "usb_base p \<longleftrightarrow> core_ok p \<and> class_ok p"

definition usb_inv :: "USBD_HandleTypeDef \<Rightarrow> bool" where
  "usb_inv p \<longleftrightarrow> usb_base p \<and> (ep0_state p = USBD_EP0_DATA_IN \<longrightarrow> (\<exists>xs mem tot. sending xs mem tot p)) \<and>
     (ep0_state p = USBD_EP0_DATA_OUT \<longrightarrow> receiving p)"

definition quiet :: "USBD_HandleTypeDef \<Rightarrow> bool" where
  "quiet p \<longleftrightarrow> usb_base p \<and> ep0_state p \<noteq> USBD_EP0_DATA_IN \<and> ep0_state p \<noteq> USBD_EP0_DATA_OUT"

definition usb_safe :: "USBD_HandleTypeDef cres \<Rightarrow> bool" where
  "usb_safe r \<longleftrightarrow> (\<exists>p. r = Inr p \<and> usb_inv p)"

lemma quiet_inv: "quiet p \<Longrightarrow> usb_inv p"
  by (simp add: quiet_def usb_inv_def)

lemma inv_base: "usb_inv p \<Longrightarrow> usb_base p"
  by (simp add: usb_inv_def)

lemma safe_Inr [simp]: "usb_safe (Inr p) = usb_inv p"
  by (simp add: usb_safe_def)

lemma safe_bind:
  assumes "usb_safe r" and "\<And>p. usb_inv p \<Longrightarrow> usb_safe (f p)"
  shows "usb_safe (bindE r f)"
  using assms by (auto simp: usb_safe_def)

text \<open>What only touches the driver or the pointers keeps the invariant.\<close>

lemma base_same_dev: "class_ok p \<Longrightarrow> same_dev p p' \<Longrightarrow> class_ok p'"
  by (simp add: class_ok_def same_dev_def)

lemma send_data_safe:
  assumes "usb_base p" and "0 < len" and "unat len \<le> length pbuf"
  shows "usb_safe (USBD_CtlSendData pbuf len p)"
proof -
  obtain p' where p': "USBD_CtlSendData pbuf len p = Inr p'"
    "sending (take (unat len) pbuf) (drop (unat len) pbuf) (unat len) p'" "same_dev p p'"
    using send_data [of p len pbuf] assms by (auto simp: usb_base_def)
  then have "class_ok p'" "core_ok p'" "ep0_state p' = USBD_EP0_DATA_IN"
    using base_same_dev assms(1) by (auto simp: usb_base_def sending_def)
  with p' show ?thesis by (auto simp: usb_inv_def usb_base_def ep0_states)
qed

lemma send_status_quiet:
  "usb_base p \<Longrightarrow> quiet (p\<lparr>ep0_state := USBD_EP0_STATUS_IN, ep0_sent := ep0_sent p @ [[]], in_buff := []\<rparr>)"
  by (simp add: quiet_def usb_base_def core_ok_def class_ok_def ep0_states)

lemma send_status_safe: "usb_base p \<Longrightarrow> usb_safe (USBD_CtlSendStatus p)"
  by (simp add: send_status_eq send_status_quiet quiet_inv)

lemma and_exp: "bit w k \<Longrightarrow> 2 ^ k AND w = 2 ^ k" for w :: u8
  by (intro bit_word_eqI) (auto simp: bit_simps)

lemma high_bit_clear:
  fixes ep :: u8
  assumes "0x80 AND ep \<noteq> 0x80"
  shows "ep AND 0x7F = ep"
proof -
  have "\<not> bit ep 7"
    using and_exp [of ep 7] assms by auto
  then have "n \<noteq> 7" if "bit ep n" for n using that by auto
  then have "ep AND mask 7 = ep" by (intro bit_word_eqI) (fastforce simp: bit_simps)
  then show ?thesis by (simp add: mask_eq_exp_minus_1)
qed

lemma stall_quiet:
  assumes "quiet p" and "unat (ep AND 0x7F) < 15"
  shows "\<exists>p'. set_stall v ep p = Inr p' \<and> quiet p' \<and> dev_state p' = dev_state p"
proof -
  have "unat (if 0x80 AND ep = 0x80 then ep AND 0x7F else ep) < 15"
    using assms(2) high_bit_clear [of ep] by auto
  then show ?thesis using assms(1)
    by (simp add: set_stall_def wr_def quiet_def usb_base_def core_ok_def class_ok_def split: if_splits)
qed

lemma stall_safe: "quiet p \<Longrightarrow> unat (ep AND 0x7F) < 15 \<Longrightarrow> usb_safe (set_stall v ep p)"
  using stall_quiet [of p ep v] quiet_inv by (auto simp: usb_safe_def)

lemma error_safe:
  assumes "quiet p"
  shows "usb_safe (USBD_CtlError p)"
proof -
  obtain q where "USBD_LL_StallEP 0x80 p = Inr q" "quiet q"
    using stall_quiet [OF assms, of "0x80" True] by (auto simp: USBD_LL_StallEP_def)
  then show ?thesis using stall_safe [of q 0 True] by (simp add: USBD_CtlError_def USBD_LL_StallEP_def)
qed

lemma set_up_quiet: "usb_base p \<Longrightarrow> quiet (set_up req p)"
  by (simp add: quiet_def usb_base_def set_up_def core_ok_def class_ok_def ep0_states)

section \<open>Requests\<close>

text \<open>The class handles standard requests always, its own when its data is there.\<close>

lemma cdc_setup_safe:
  assumes "quiet p" and "bmRequest req AND 0x60 = 0x20 \<longrightarrow> pClassData (cdc p) \<noteq> None \<and> unat (wLength req) \<le> 512"
  shows "usb_safe (via_class (USBD_CDC_Setup req) p)"
proof -
  have c: "core_ok p" "class_ok p" "usb_base p" using assms(1) by (simp_all add: quiet_def usb_base_def)
  then have u: "pClass p" "pUserData p" "length (ep_out p) = 15" by (simp_all add: core_ok_def)
  show ?thesis
  proof (cases "bmRequest req AND 0x60 = 0x20 \<and> wLength req \<noteq> 0")
    case True
    then obtain h where h: "pClassData (cdc p) = Some h" "length (cdata h) = 512" "unat (wLength req) \<le> 512"
      using assms(2) c(2) by (auto simp: class_ok_def)
    show ?thesis
    proof (cases "bmRequest req AND 0x80 = 0")
      case False
      have "0 < wLength req" using True by (simp add: word_greater_zero_iff)
      from send_data_safe [OF c(3) this, of "cdata h"] show ?thesis
        using True False h u by (simp add: via_class_def USBD_CDC_Setup_def CDC_Control_def)
    next
      case out: True
      then show ?thesis
        using True h u c by (simp add: via_class_def USBD_CDC_Setup_def USBD_CtlPrepareRx_def upd_ep_def wr_def
            USBD_LL_PrepareReceive_def log_ll_def usb_inv_def usb_base_def core_ok_def class_ok_def receiving_def ep0_states)
    qed
  next
    case False
    then show ?thesis
      using u quiet_inv [OF assms(1)] send_data_safe [OF c(3), of 1 "[0]"]
      by (auto simp: via_class_def USBD_CDC_Setup_def CDC_Control_def)
  qed
qed

lemma get_descriptor_safe:
  assumes "quiet p"
  shows "usb_safe (USBD_GetDescriptor b req p)"
proof -
  have c: "core_ok p" "class_ok p" using assms by (simp_all add: quiet_def usb_base_def)
  obtain r where r: "find_descriptor b req p = Inr r" "\<forall>d. r = Some d \<longrightarrow> desc_ok p d"
    using find_descriptor_ok [OF c(1)] by blast
  show ?thesis
  proof (cases r)
    case None
    then show ?thesis using r(1) error_safe [OF assms] by (simp add: USBD_GetDescriptor_def)
  next
    case (Some d)
    obtain pbuf len q where d: "d = (pbuf, len, q)" by (cases d)
    have q: "len \<noteq> 0" "unat len \<le> length pbuf" "core_ok q" "same_dev p q" "ep0_state q = ep0_state p"
      using r(2) Some d by (simp_all add: desc_ok_def)
    then have "quiet q" using assms c base_same_dev by (simp add: quiet_def usb_base_def)
    moreover have "wLength req \<noteq> 0 \<Longrightarrow> usb_safe (USBD_CtlSendData pbuf (min len (wLength req)) q)"
      using q \<open>quiet q\<close> by (intro send_data_safe) (auto simp: quiet_def min_def word_greater_zero_iff word_le_nat_alt)
    ultimately show ?thesis using r(1) Some d q(1) quiet_inv by (auto simp: USBD_GetDescriptor_def)
  qed
qed

lemma DeInit_eq:
  "pUserData p \<Longrightarrow> USBD_CDC_DeInit p = Inr (p\<lparr>ll := ll p @ [LL_Close CDC_IN_EP, LL_Close CDC_OUT_EP, LL_Close CDC_CMD_EP],
     cdc := (cdc p)\<lparr>pClassData := None\<rparr>\<rparr>)"
  by (simp add: USBD_CDC_DeInit_def Let_def USBD_LL_CloseEP_def log_ll_def CDC_Deinit_def USBD_CDC_RegisterInterface_def)

lemma DeInit_quiet:
  assumes "core_ok p" and "dev_state p = USBD_STATE_DEFAULT \<or> dev_state p = USBD_STATE_ADDRESSED"
  shows "usb_base (p\<lparr>ll := l, cdc := (cdc p)\<lparr>pClassData := None\<rparr>\<rparr>)"
  using assms by (auto simp: usb_base_def core_ok_def class_ok_def dev_states)

lemma start_class_safe:
  assumes "core_ok p" and "dev_state p = USBD_STATE_CONFIGURED" and "mallocs p = Some h # ms" and "length (cdata h) = 512"
  shows "usb_safe (start_class p)"
proof -
  obtain p' h' where "class_Init p = Inr (0, p')" "core_ok p'" "pClassData (cdc p') = Some h'" "cdata h' = cdata h"
    using class_Init_ok [OF assms(1,3)] by blast
  moreover from this have "usb_base p'" using assms(4) by (simp add: usb_base_def class_ok_def)
  ultimately show ?thesis using assms(1) send_status_safe
    by (simp add: start_class_def USBD_SetClassConfig_def core_ok_def)
qed

lemma set_config_safe:
  assumes "quiet p" and "mallocs p = Some h # ms" and "length (cdata h) = 512"
  shows "usb_safe (USBD_SetConfig req p)"
proof -
  have c: "core_ok p" "usb_base p" "pClass p" "pUserData p" using assms(1) by (simp_all add: quiet_def usb_base_def core_ok_def)
  have up: "core_ok (p\<lparr>dev_config := n, dev_state := st\<rparr>)" "core_ok (p\<lparr>dev_state := st, dev_config := n\<rparr>)" for n st
    using c(1) by (simp_all add: core_ok_def)
  have clear: "usb_safe (bindE (USBD_ClrClassConfig (p\<lparr>dev_state := USBD_STATE_ADDRESSED, dev_config := n\<rparr>)) USBD_CtlSendStatus)" for n
    using c DeInit_quiet [OF up(2) [of n USBD_STATE_ADDRESSED]] send_status_safe
    by (simp add: USBD_ClrClassConfig_def via_class_def DeInit_eq)
  have first: "usb_safe (start_class (p\<lparr>dev_config := n, dev_state := USBD_STATE_CONFIGURED\<rparr>))" for n
    using assms(2,3) up by (intro start_class_safe) simp_all
  have other: "usb_safe (bindE (USBD_ClrClassConfig p) (\<lambda>p. start_class (p\<lparr>dev_config := n\<rparr>)))"
    if "dev_state p = USBD_STATE_CONFIGURED" for n
  proof -
    have "usb_safe (start_class (p\<lparr>ll := ll p @ [LL_Close CDC_IN_EP, LL_Close CDC_OUT_EP, LL_Close CDC_CMD_EP],
        cdc := (cdc p)\<lparr>pClassData := None\<rparr>, dev_config := n\<rparr>))"
      by (rule start_class_safe [where h = h and ms = ms]) (use c(1) that assms(2,3) in \<open>simp_all add: core_ok_def\<close>)
    then show ?thesis using c by (simp add: USBD_ClrClassConfig_def via_class_def DeInit_eq)
  qed
  have "USBD_STATE_CONFIGURED \<noteq> USBD_STATE_ADDRESSED" by (simp add: dev_states)
  then show ?thesis
    using clear first other send_status_safe [OF c(2)] error_safe [OF assms(1)] by (simp add: USBD_SetConfig_def Let_def)
qed

lemma set_address_safe:
  assumes "quiet p"
  shows "usb_safe (USBD_SetAddress req p)"
  using assms error_safe [OF assms]
  by (auto simp: USBD_SetAddress_def Let_def send_status_eq USBD_LL_SetUSBAddress_def log_ll_def quiet_def usb_base_def usb_inv_def
      core_ok_def class_ok_def ep0_states dev_states)

lemma get_config_safe:
  assumes "quiet p"
  shows "usb_safe (USBD_GetConfig req p)"
proof -
  have "usb_base p" "usb_base (p\<lparr>dev_default_config := 0\<rparr>)"
    using assms by (simp_all add: quiet_def usb_base_def core_ok_def class_ok_def)
  then show ?thesis using error_safe [OF assms] send_data_safe by (simp add: USBD_GetConfig_def)
qed

lemma get_status_safe:
  assumes "quiet p"
  shows "usb_safe (USBD_GetStatus p)"
proof -
  have "usb_base (p\<lparr>dev_config_status := st\<rparr>)" for st
    using assms by (simp add: quiet_def usb_base_def core_ok_def class_ok_def)
  then show ?thesis using error_safe [OF assms] send_data_safe by (simp add: USBD_GetStatus_def Let_def)
qed

lemma feature_safe:
  assumes "quiet p" and "bmRequest req AND 0x60 = 0x20 \<longrightarrow> pClassData (cdc p) \<noteq> None \<and> unat (wLength req) \<le> 512"
  shows "usb_safe (USBD_SetFeature req p)" "usb_safe (USBD_ClrFeature req p)"
proof -
  have "usb_safe (bindE (via_class (USBD_CDC_Setup req) (p\<lparr>dev_remote_wakeup := n\<rparr>)) USBD_CtlSendStatus)" for n
    by (intro safe_bind cdc_setup_safe send_status_safe inv_base)
      (use assms in \<open>simp_all add: quiet_def usb_base_def core_ok_def class_ok_def\<close>)
  then show "usb_safe (USBD_SetFeature req p)" "usb_safe (USBD_ClrFeature req p)"
    using quiet_inv [OF assms(1)] error_safe [OF assms(1)] by (simp_all add: USBD_SetFeature_def USBD_ClrFeature_def)
qed

lemma interface_request_safe:
  assumes "quiet p" and "bmRequest req AND 0x60 = 0x20 \<longrightarrow> unat (wLength req) \<le> 512"
  shows "usb_safe (USBD_StdItfReq req p)"
proof (cases "dev_state p = USBD_STATE_CONFIGURED")
  case True
  then have "pClassData (cdc p) \<noteq> None" using assms(1) by (simp add: quiet_def usb_base_def class_ok_def)
  then have "usb_safe (bindE (via_class (USBD_CDC_Setup req) p) (\<lambda>p. if wLength req = 0 then USBD_CtlSendStatus p else Inr p))"
    using assms by (intro safe_bind cdc_setup_safe) (simp_all add: send_status_safe inv_base)
  then show ?thesis using error_safe [OF assms(1)] by (simp add: USBD_StdItfReq_def)
qed (simp add: USBD_StdItfReq_def error_safe [OF assms(1)])

lemma stall_other_quiet:
  "quiet p \<Longrightarrow> unat (ep AND 0x7F) < 15 \<Longrightarrow> \<exists>p'. stall_other ep p = Inr p' \<and> quiet p' \<and> dev_state p' = dev_state p"
  using stall_quiet [of p ep True] by (auto simp: stall_other_def USBD_LL_StallEP_def)

lemma ep_status_safe:
  assumes "quiet p" and "unat (ep AND 0x7F) < 15"
  shows "usb_safe (ep_status_reply ep p)"
proof -
  define n where "n = unat (ep AND 0x7F)"
  have c: "length (ep_in p) = 15" "length (ep_out p) = 15" "length (in_stall p) = 15" "length (out_stall p) = 15"
    using assms(1) by (simp_all add: quiet_def usb_base_def core_ok_def)
  have n: "n < 15" using assms(2) by (simp add: n_def)
  have b: "usb_base (p\<lparr>ep_in := (ep_in p)[n := (ep_in p ! n)\<lparr>ep_status := st\<rparr>]\<rparr>)"
      "usb_base (p\<lparr>ep_out := (ep_out p)[n := (ep_out p ! n)\<lparr>ep_status := st\<rparr>]\<rparr>)" for st
    using assms(1) n by (cases n; simp add: quiet_def usb_base_def core_ok_def class_ok_def)+
  then show ?thesis using c n
    by (simp add: ep_status_reply_def USBD_LL_IsStallEP_def n_def [symmetric] upd_ep_def wr_def Let_def send_data_safe)
qed

lemma endpoint_request_safe:
  assumes "quiet p" and "unat ((ucast (wIndex req) :: u8) AND 0x7F) < 15"
    and "bmRequest req AND 0x60 = 0x20 \<longrightarrow> pClassData (cdc p) \<noteq> None \<and> unat (wLength req) \<le> 512"
  shows "usb_safe (USBD_StdEPReq req p)"
proof (cases "bmRequest req AND 0x60 = 0x20")
  case True
  then show ?thesis using cdc_setup_safe [OF assms(1,3)] by (simp add: USBD_StdEPReq_def)
next
  case False
  define ep where "ep = (ucast (wIndex req) :: u8)"
  have ep: "unat (ep AND 0x7F) < 15" using assms(2) by (simp add: ep_def)
  obtain q where q: "stall_other ep p = Inr q" "quiet q" using stall_other_quiet [OF assms(1) ep] by blast
  obtain r where r: "USBD_LL_ClearStallEP ep p = Inr r" "quiet r"
    using stall_quiet [OF assms(1) ep, of False] by (auto simp: USBD_LL_ClearStallEP_def)
  have handled: "usb_safe (via_class (USBD_CDC_Setup req) s)" if "quiet s" for s
    using cdc_setup_safe [OF that] False by blast
  have halt: "usb_safe (bindE (via_class (USBD_CDC_Setup req) s) USBD_CtlSendStatus)" if "quiet s" for s
    by (intro safe_bind handled that send_status_safe inv_base)
  have stall: "usb_safe (USBD_LL_StallEP ep p)"
    using stall_safe [OF assms(1) ep] by (simp add: USBD_LL_StallEP_def)
  have status: "usb_safe (ep_status_reply ep p)" "usb_safe (USBD_CtlError p)" "usb_inv p" "usb_inv q" "usb_safe (USBD_CtlSendStatus p)"
    using ep_status_safe [OF assms(1) ep] error_safe [OF assms(1)] quiet_inv [OF assms(1)] quiet_inv [OF q(2)] send_status_safe
      inv_base by blast+
  show ?thesis
    using False halt [OF assms(1)] halt [OF q(2)] halt [OF r(2)] stall status
    by (simp add: USBD_StdEPReq_def ep_def [symmetric] Let_def q(1) r(1))
qed

lemma device_request_safe:
  assumes "quiet p" and "mallocs p = Some h # ms" and "length (cdata h) = 512"
    and "bmRequest req AND 0x60 = 0x20 \<longrightarrow> pClassData (cdc p) \<noteq> None \<and> unat (wLength req) \<le> 512"
  shows "usb_safe (USBD_StdDevReq b req p)"
  using get_descriptor_safe [OF assms(1)] set_address_safe [OF assms(1)] set_config_safe [OF assms(1-3)]
    get_config_safe [OF assms(1)] get_status_safe [OF assms(1)] feature_safe [OF assms(1,4)] error_safe [OF assms(1)]
  by (simp add: USBD_StdDevReq_def)

lemma request_safe:
  assumes "usb_base p" and "fair (EvSetup bm br v i w) p"
  shows "usb_safe (HAL_PCD_SetupStageCallback b (setup_bytes bm br v i w) p)"
proof -
  let ?req = "req_of bm br v i w" and ?p = "set_up (req_of bm br v i w) p"
  have q: "quiet ?p" by (rule set_up_quiet [OF assms(1)])
  obtain h ms where m: "mallocs ?p = Some h # ms" "length (cdata h) = 512" using assms(2) by auto
  have c: "bm AND 0x60 = 0x20 \<Longrightarrow> unat w \<le> 512"
      "bm AND 0x60 = 0x20 \<Longrightarrow> bm AND 0x1F = 0 \<or> bm AND 0x1F = 2 \<Longrightarrow> dev_state p = USBD_STATE_CONFIGURED"
    using assms(2) by auto
  then have cls: "bm AND 0x1F = 0 \<or> bm AND 0x1F = 2 \<Longrightarrow>
      bmRequest ?req AND 0x60 = 0x20 \<longrightarrow> pClassData (cdc ?p) \<noteq> None \<and> unat (wLength ?req) \<le> 512"
    using assms(1) by (auto simp: usb_base_def class_ok_def)
  have "bm AND 0x1F = 0 \<Longrightarrow> usb_safe (USBD_StdDevReq b ?req ?p)"
    using device_request_safe [OF q m cls] by blast
  moreover have "usb_safe (USBD_StdItfReq ?req ?p)" using interface_request_safe [OF q] c(1) by simp
  moreover have "bm AND 0x1F = 2 \<Longrightarrow> usb_safe (USBD_StdEPReq ?req ?p)"
    using endpoint_request_safe [OF q _ cls] assms(2) by simp
  moreover have "unat ((bm AND 0x80) AND 0x7F) < 15" by (simp add: and.assoc)
  then have "usb_safe (USBD_LL_StallEP (bm AND 0x80) ?p)" unfolding USBD_LL_StallEP_def using stall_safe [OF q] by blast
  ultimately show ?thesis by (simp add: HAL_PCD_SetupStageCallback_def setup_stage Let_def)
qed

section \<open>Data stages and bus events\<close>

lemma sending_inv: "sending xs mem tot p \<Longrightarrow> class_ok p \<Longrightarrow> usb_inv p"
  by (auto simp: usb_inv_def usb_base_def sending_def ep0_states)

lemma in_done_safe:
  assumes "usb_inv p"
  shows "usb_safe (HAL_PCD_DataInStageCallback 0 p)"
proof (cases "ep0_state p = USBD_EP0_DATA_IN")
  case True
  then obtain xs mem tot where s: "sending xs mem tot p" using assms by (auto simp: usb_inv_def)
  have ok: "class_ok p" using assms by (simp add: usb_inv_def usb_base_def)
  show ?thesis
  proof (cases "64 < length xs")
    case True
    then show ?thesis using stage_more [OF s True] sending_inv base_same_dev [OF ok] by auto
  next
    case False
    then obtain q where q: "HAL_PCD_DataInStageCallback 0 p = Inr q" "core_ok q" "same_dev p q"
      "if empty_packet tot p then sending xs [] tot q \<and> \<not> empty_packet tot q \<and> ep0_sent q = ep0_sent p @ [[]]
       else ep0_state q = USBD_EP0_STATUS_OUT \<and> ep0_sent q = ep0_sent p"
      using stage_last [OF s] by auto
    have "usb_inv q"
    proof (cases "empty_packet tot p")
      case True
      then show ?thesis using q(4) sending_inv base_same_dev [OF ok q(3)] by auto
    next
      case False
      then show ?thesis using q(2,4) base_same_dev [OF ok q(3)] by (simp add: usb_inv_def usb_base_def ep0_states)
    qed
    then show ?thesis using q(1) by simp
  qed
next
  case False
  then show ?thesis
    using assms by (simp add: HAL_PCD_DataInStageCallback_def USBD_LL_DataInStage_def usb_inv_def usb_base_def core_ok_def
        class_ok_def receiving_def)
qed

lemma inv_transfer:
  assumes "usb_inv p" and "usb_base q" and "ep0_state q = ep0_state p" and "receiving p \<Longrightarrow> receiving q"
    and "\<And>xs mem tot. sending xs mem tot p \<Longrightarrow> sending xs mem tot q"
  shows "usb_inv q"
  using assms unfolding usb_inv_def by metis

lemma maxpacket_same: "maxpacket e = m \<Longrightarrow> e\<lparr>maxpacket := m\<rparr> = e"
  by (cases e) simp

lemma reset_ok:
  assumes "core_ok p"
  shows "\<exists>q. HAL_PCD_ResetCallback p = Inr q \<and> core_ok q \<and> dev_state q = USBD_STATE_DEFAULT \<and> pClassData (cdc q) = None \<and>
     ep_in q = ep_in p \<and> ep_out q = ep_out p \<and> ep0_state q = ep0_state p \<and> in_buff q = in_buff p \<and> out_buff q = out_buff p"
  using assms by (simp add: HAL_PCD_ResetCallback_def USBD_LL_SetSpeed_def USBD_LL_Reset_def upd_ep_def wr_def USBD_LL_OpenEP_def
      log_ll_def via_class_def DeInit_eq USB_MAX_EP0_SIZE_def Let_def core_ok_def maxpacket_same)

lemma reset_safe:
  assumes "usb_inv p"
  shows "usb_safe (HAL_PCD_ResetCallback p)"
proof -
  obtain q where q: "HAL_PCD_ResetCallback p = Inr q" "core_ok q" "dev_state q = USBD_STATE_DEFAULT" "pClassData (cdc q) = None"
    "ep_in q = ep_in p" "ep_out q = ep_out p" "ep0_state q = ep0_state p" "in_buff q = in_buff p" "out_buff q = out_buff p"
    using reset_ok [of p] assms by (auto simp: usb_inv_def usb_base_def)
  have "usb_inv q"
    by (rule inv_transfer [OF assms]) (use q in \<open>simp_all add: usb_base_def class_ok_def dev_states receiving_def sending_def\<close>)
  then show ?thesis using q(1) by simp
qed

lemma disconnect_safe:
  assumes "usb_inv p"
  shows "usb_safe (HAL_PCD_DisconnectCallback p)"
proof -
  have c: "pClass p" "pUserData p" "core_ok p" using assms by (simp_all add: usb_inv_def usb_base_def core_ok_def)
  let ?q = "p\<lparr>dev_state := USBD_STATE_DEFAULT, ll := ll p @ [LL_Close CDC_IN_EP, LL_Close CDC_OUT_EP, LL_Close CDC_CMD_EP],
    cdc := (cdc p)\<lparr>pClassData := None\<rparr>\<rparr>"
  have "usb_inv ?q"
    by (rule inv_transfer [OF assms]) (use c(3) in \<open>simp_all add: usb_base_def core_ok_def class_ok_def dev_states receiving_def sending_def\<close>)
  then show ?thesis using c by (simp add: HAL_PCD_DisconnectCallback_def USBD_LL_DevDisconnected_def via_class_def DeInit_eq)
qed

lemma suspend_safe: "usb_inv p \<Longrightarrow> usb_inv (HAL_PCD_SuspendCallback p)"
  by (simp add: HAL_PCD_SuspendCallback_def USBD_LL_Suspend_def usb_inv_def usb_base_def core_ok_def class_ok_def dev_states
      receiving_def sending_def)

lemma resume_safe: "usb_inv p \<Longrightarrow> dev_state p = USBD_STATE_SUSPENDED \<Longrightarrow> usb_inv (HAL_PCD_ResumeCallback p)"
  by (auto simp: HAL_PCD_ResumeCallback_def USBD_LL_Resume_def usb_inv_def usb_base_def core_ok_def class_ok_def dev_states
      receiving_def sending_def)

lemma sof_safe: "usb_inv p \<Longrightarrow> usb_safe (HAL_PCD_SOFCallback p)"
  by (simp add: HAL_PCD_SOFCallback_def USBD_LL_SOF_def via_class_def usb_inv_def usb_base_def core_ok_def)

lemma rx_ready_ok:
  assumes "usb_base p"
  shows "\<exists>q. via_class (\<lambda>p. if dev_state p = USBD_STATE_CONFIGURED then USBD_CDC_EP0_RxReady p else Inr p) p = Inr q \<and> usb_base q"
proof (cases "dev_state p = USBD_STATE_CONFIGURED")
  case True
  then obtain h where "pClassData (cdc p) = Some h" using assms by (auto simp: usb_base_def class_ok_def)
  then show ?thesis using True assms
    by (cases "CmdOpCode h = 0xFF")
      (simp_all add: via_class_def USBD_CDC_EP0_RxReady_def CDC_Control_def usb_base_def class_ok_def core_ok_def)
next
  case False
  then show ?thesis using assms by (simp add: via_class_def usb_base_def core_ok_def)
qed

text \<open>The end of a data packet; the bytes that may still come fit behind the pointer.\<close>

lemma data_out_safe:
  assumes "usb_base p" and "ep0_state p = USBD_EP0_DATA_OUT" and "out_buff p = Some off"
    and "64 < unat (rem_length (ep_out p ! 0)) \<Longrightarrow> off + unat (rem_length (ep_out p ! 0)) \<le> 512 + 64"
  shows "usb_safe (HAL_PCD_DataOutStageCallback 0 rx p)"
proof -
  let ?rem = "rem_length (ep_out p ! 0)"
  have c: "core_ok p" "class_ok p" "maxpacket (ep_out p ! 0) = 64" "length (ep_out p) = 15" "pClass p" "pUserData p"
    using assms(1) by (simp_all add: usb_base_def core_ok_def)
  show ?thesis
  proof (cases "64 < unat ?rem")
    case True
    then have gt: "64 < ?rem" by (simp add: word_less_nat_alt)
    then have "unat (?rem - 64) = unat ?rem - 64" by (simp add: unat_sub word_less_nat_alt word_le_nat_alt)
    then have "off + unat (?rem - 64) \<le> 512" using assms(4) True by simp
    then show ?thesis using c gt assms(2,3)
      by (simp add: HAL_PCD_DataOutStageCallback_def USBD_LL_DataOutStage_def Let_def wr_def USBD_CtlContinueRx_def
          USBD_LL_PrepareReceive_def log_ll_def usb_inv_def usb_base_def receiving_def core_ok_def class_ok_def ep0_states)
  next
    case False
    then have le: "\<not> 64 < ?rem" by (simp add: word_less_nat_alt)
    obtain q where q: "via_class (\<lambda>p. if dev_state p = USBD_STATE_CONFIGURED then USBD_CDC_EP0_RxReady p else Inr p) p = Inr q"
      "usb_base q" using rx_ready_ok [OF assms(1)] by blast
    then show ?thesis using c le assms(2) send_status_safe
      by (simp add: HAL_PCD_DataOutStageCallback_def USBD_LL_DataOutStage_def)
  qed
qed

lemma out_safe:
  assumes "usb_inv p" and "fair (EvOut pkt) p"
  shows "usb_safe (ep0_packet pkt p)"
proof (cases "ep0_state p = USBD_EP0_DATA_OUT")
  case False
  then have "pkt = []" using assms(2) by auto
  then show ?thesis using False assms(1)
    by (simp add: ep0_packet_def HAL_PCD_DataOutStageCallback_def USBD_LL_DataOutStage_def usb_inv_def usb_base_def core_ok_def)
next
  case True
  then obtain off where off: "out_buff p = Some off" "off + unat (rem_length (ep_out p ! 0)) \<le> 512" "usb_base p"
    using assms(1) by (auto simp: usb_inv_def receiving_def)
  show ?thesis
  proof (cases "pkt = []")
    case empty: True
    then show ?thesis using data_out_safe [OF off(3) True off(1)] off(2) by (simp add: ep0_packet_def)
  next
    case False
    then have f: "dev_state p = USBD_STATE_CONFIGURED" "length pkt \<le> unat (rem_length (ep_out p ! 0))" "length pkt \<le> 64"
      using assms(2) by auto
    then obtain h where h: "pClassData (cdc p) = Some h" "length (cdata h) = 512" using off(3) by (auto simp: usb_base_def class_ok_def)
    define m where "m = take off (cdata h) @ pkt @ drop (off + length pkt) (cdata h)"
    have m: "wr_range (cdata h) off pkt = Inr m" "length m = 512" using f(2) off(2) h(2) by (simp_all add: wr_range_def m_def)
    let ?q = "p\<lparr>cdc := (cdc p)\<lparr>pClassData := Some (h\<lparr>cdata := m\<rparr>)\<rparr>, out_buff := Some (off + length pkt)\<rparr>"
    have "usb_safe (HAL_PCD_DataOutStageCallback 0 (of_nat (length pkt)) ?q)"
      by (rule data_out_safe [where off = "off + length pkt"])
        (use off f(3) m(2) True in \<open>auto simp: usb_base_def core_ok_def class_ok_def\<close>)
    then show ?thesis using False off(1) h(1) m(1) by (simp add: ep0_packet_def)
  qed
qed

lemma step_safe:
  assumes "usb_inv p" and "fair e p"
  shows "usb_safe (usb_step b e p)"
proof (cases e)
  case (EvSetup bm br v i w)
  then show ?thesis using request_safe [OF inv_base [OF assms(1)]] assms(2) by (simp del: fair.simps)
next
  case (EvOut pkt)
  then show ?thesis using out_safe [OF assms(1)] assms(2) by (simp del: fair.simps)
qed (use assms in \<open>simp_all add: in_done_safe reset_safe suspend_safe resume_safe sof_safe disconnect_safe\<close>)

section \<open>Properties\<close>

lemma start_inv:
  assumes "HAL_PCD_ResetCallback (MX_USB_OTG_FS_USB_Init (usb_off i ms)) = Inr p"
  shows "usb_inv p"
  using usb_starts [of i ms] assms by (auto simp: usb_inv_def usb_base_def class_ok_def dev_states ep0_states)

lemma reachable_inv: "usb_reachable p \<Longrightarrow> usb_inv p"
proof (induction rule: usb_reachable.induct)
  case (step p e b p')
  then show ?case using step_safe [of p e b] by simp
qed (rule start_inv)



text \<open>
  A request that the stack does not know is refused on both directions of endpoint 0, and nothing else changes:
  for every device request whose code is not one of the seven that are handled.
\<close>

theorem usb_unknown_request_stalls:
  assumes "core_ok p" and "bm AND 0x1F = 0" and "br \<notin> {0, 1, 3, 5, 6, 8, 9}"
  shows "HAL_PCD_SetupStageCallback b (setup_bytes bm br v i w) p = Inr ((set_up (req_of bm br v i w) p)
     \<lparr>in_stall := (in_stall p)[0 := True], out_stall := (out_stall p)[0 := True]\<rparr>)"
  using assms by (simp add: HAL_PCD_SetupStageCallback_def setup_stage Let_def USBD_StdDevReq_def USBD_CtlError_def
      USBD_LL_StallEP_def set_stall_def wr_def core_ok_def set_up_def)

theorem usb_unknown_request_stalls_witness:
  "\<exists>p p'. HAL_PCD_SetupStageCallback False (setup_bytes 0x80 0x0C 0 0 2) p = Inr p' \<and> in_stall p' ! 0 \<and> out_stall p' ! 0"
proof -
  obtain p where p: "core_ok p" using usb_starts by blast
  let ?p = "(set_up (req_of 0x80 0x0C 0 0 2) p)\<lparr>in_stall := (in_stall p)[0 := True], out_stall := (out_stall p)[0 := True]\<rparr>"
  have "HAL_PCD_SetupStageCallback False (setup_bytes 0x80 0x0C 0 0 2) p = Inr ?p"
    using usb_unknown_request_stalls [OF p, of "0x80" "0x0C" False 0 0 2] by simp
  moreover have "in_stall ?p ! 0" "out_stall ?p ! 0" using p by (simp_all add: core_ok_def)
  ultimately show ?thesis by blast
qed

text \<open>
  A class request for an endpoint is passed to the class in every state of the device: before it is configured there
  is no class data, and any such request with data dereferences the null pointer.
\<close>

theorem usb_class_request_unconfigured:
  assumes "core_ok p" and "pClassData (cdc p) = None" and "bm AND 0x60 = 0x20" and "bm AND 0x1F = 2" and "w \<noteq> 0"
  shows "HAL_PCD_SetupStageCallback b (setup_bytes bm br v i w) p = Inl NullDeref"
  using assms by (simp add: HAL_PCD_SetupStageCallback_def setup_stage Let_def USBD_StdEPReq_def via_class_def core_ok_def
      USBD_CDC_Setup_def)

theorem usb_class_request_unconfigured_witness:
  "\<exists>p. HAL_PCD_ResetCallback (MX_USB_OTG_FS_USB_Init (usb_off (1, 2, 3) [])) = Inr p \<and>
     HAL_PCD_SetupStageCallback False (setup_bytes 0xA2 0 0 0 1) p = Inl NullDeref"
proof -
  obtain p where p: "HAL_PCD_ResetCallback (MX_USB_OTG_FS_USB_Init (usb_off (1, 2, 3) [])) = Inr p" "core_ok p"
    "pClassData (cdc p) = None"
    using usb_starts [of "(1, 2, 3)" "[]"] by blast
  with usb_class_request_unconfigured [OF p(2,3), of "0xA2" 1 False 0 0 0] show ?thesis by auto
qed

text \<open>
  The endpoint number of a request is not checked: asked to halt an endpoint above 14 by any address the host writes,
  the configured device sets the flag of an endpoint that its driver does not have.
\<close>

theorem usb_halt_endpoint_out_of_bounds:
  assumes "core_ok p" and "dev_state p = USBD_STATE_CONFIGURED" and "15 \<le> unat ((ucast i :: u8) AND 0x7F)"
  shows "HAL_PCD_SetupStageCallback b (setup_bytes 0x02 0x03 0 i w) p = Inl OutOfBounds"
proof -
  let ?ep = "ucast i :: u8"
  have "?ep \<noteq> 0" "?ep \<noteq> 0x80" using assms(3) by auto
  moreover have "15 \<le> unat (if 0x80 AND ?ep = 0x80 then ?ep AND 0x7F else ?ep)"
    using assms(3) high_bit_clear [of ?ep] by auto
  then have "set_stall True ?ep (set_up (req_of 2 3 0 i w) p) = Inl OutOfBounds"
    using assms(1) by (simp add: set_stall_def wr_def core_ok_def split: if_splits)
  ultimately show ?thesis using assms(2)
    by (simp add: HAL_PCD_SetupStageCallback_def setup_stage Let_def USBD_StdEPReq_def stall_other_def USBD_LL_StallEP_def dev_states)
qed

theorem usb_halt_endpoint_out_of_bounds_witness:
  "\<exists>p. dev_state p = USBD_STATE_CONFIGURED \<and> HAL_PCD_SetupStageCallback False (setup_bytes 0x02 0x03 0 0x8F 0) p = Inl OutOfBounds"
proof -
  obtain p where p: "core_ok p" "dev_state p = USBD_STATE_CONFIGURED"
    using enumerated [of 17 "(1, 2, 3)" class_memory "[]" False] by auto
  have "15 \<le> unat ((ucast (0x8F :: u16) :: u8) AND 0x7F)" by simp
  from usb_halt_endpoint_out_of_bounds [OF p this, of False 0] p(2) show ?thesis by blast
qed

text \<open>
  A second suspend event loses the state to return to: the device then stays suspended after the resume.
\<close>

lemma usb_double_suspend: "dev_state (HAL_PCD_ResumeCallback (HAL_PCD_SuspendCallback (HAL_PCD_SuspendCallback p))) = USBD_STATE_SUSPENDED"
  by (simp add: HAL_PCD_ResumeCallback_def HAL_PCD_SuspendCallback_def USBD_LL_Resume_def USBD_LL_Suspend_def)

text \<open>
  A configuration without memory for the class: the request is refused, but the device counts as configured, and the
  next class request with data dereferences the null pointer.
\<close>

lemma usb_config_without_memory:
  assumes "core_ok p" and "dev_state p = USBD_STATE_ADDRESSED" and "mallocs p = None # ms" and "w \<noteq> 0"
  shows "\<exists>p'. HAL_PCD_SetupStageCallback b (setup_bytes 0 9 1 0 0) p = Inr p' \<and> dev_state p' = USBD_STATE_CONFIGURED \<and>
     in_stall p' ! 0 \<and> HAL_PCD_SetupStageCallback b (setup_bytes 0x21 br v 0 w) p' = Inl NullDeref"
proof -
  have "in_stall p \<noteq> []" using assms(1) by (auto simp: core_ok_def)
  then show ?thesis using assms by (simp add: HAL_PCD_SetupStageCallback_def setup_stage Let_def USBD_StdDevReq_def USBD_SetConfig_def dev_states
      USBD_MAX_NUM_CONFIGURATION_def start_class_def USBD_SetClassConfig_def class_Init_def USBD_LL_OpenEP_def log_ll_def
      USBD_CDC_Init_def core_ok_def set_up_def USBD_CtlError_def USBD_LL_StallEP_def set_stall_def wr_def USBD_StdItfReq_def
      USBD_MAX_NUM_INTERFACES_def via_class_def USBD_CDC_Setup_def)
qed

end
