(* ===== verification/SlaveSpi.thy ===== *)
theory SlaveSpi
  imports ByteQueue
begin

text \<open>
  The SPI slave driver of the submodules, \<^verbatim>\<open>slave_lib/peripherals/spi.c\<close>: two rings of 256 bytes
  indexed by \<^verbatim>\<open>uint8_t\<close>, filled and emptied by \<^verbatim>\<open>SPI1_IRQHandler\<close>. The reading side of the receive
  ring is a byte queue; \<^verbatim>\<open>writeResponse\<close> puts a status byte and data on the wire.
\<close>

section \<open>The driver state\<close>

text \<open>
  \<^verbatim>\<open>wrError_t\<close> of \<^verbatim>\<open>commsLib.h\<close>. The record holds the two rings of \<^verbatim>\<open>spi.c\<close>, the interrupt enables of
  \<^verbatim>\<open>SPI1->CR2\<close> and the error flags of \<^verbatim>\<open>SPI1->SR\<close> the handler clears, the level of the interrupt
  pin \<^verbatim>\<open>PF0\<close>, the bytes put into the data register so far (\<open>miso\<close>), and the SPI interrupts that are
  still to come (\<open>irqs\<close>): the environment, which decides whether and when the master clocks bytes.
  An interrupt carries the received byte when \<^verbatim>\<open>RXNE\<close> is set and whether \<^verbatim>\<open>TXE\<close> is set.
\<close>

type_synonym wrError_t = u8

definition WR_ERR :: wrError_t where "WR_ERR = 0x05"
definition WR_NO_DATA :: wrError_t where "WR_NO_DATA = 0x06"
definition WR_BUFF_FULL :: wrError_t where "WR_BUFF_FULL = 0x07"
definition WR_ERR_INV_ARG :: wrError_t where "WR_ERR_INV_ARG = 0x08"
definition WR_OK :: wrError_t where "WR_OK = 0xAA"

definition BUFFER_SIZE :: nat where "BUFFER_SIZE = 256"

type_synonym spi_irq = "u8 option \<times> bool"

record spi =
  txBuffer :: "u8 list"
  txBufferStart :: u8
  txBufferLen :: u8
  rxBuffer :: "u8 list"
  rxBufferStart :: u8
  rxBufferLen :: u8
  CR2_TXEIE :: bool
  CR2_RXNEIE :: bool
  CR2_ERRIE :: bool
  CR1_SPE :: bool
  SR_FRE :: bool
  SR_OVR :: bool
  SR_MODF :: bool
  SR_CRCERR :: bool
  spiInt :: bool
  miso :: "u8 list"
  irqs :: "spi_irq list"

definition spi_wf :: "spi \<Rightarrow> bool" where
  "spi_wf s \<longleftrightarrow> length (txBuffer s) = BUFFER_SIZE \<and> length (rxBuffer s) = BUFFER_SIZE"

definition rx_content :: "spi \<Rightarrow> u8 list" where
  "rx_content s = ring (rxBuffer s) (unat (rxBufferStart s)) (unat (rxBufferLen s))"

definition tx_content :: "spi \<Rightarrow> u8 list" where
  "tx_content s = ring (txBuffer s) (unat (txBufferStart s)) (unat (txBufferLen s))"

section \<open>Operations\<close>

definition COMMS_SPI_Init :: "spi \<Rightarrow> spi" where
  "COMMS_SPI_Init s =
     s\<lparr>CR2_TXEIE := True, CR2_RXNEIE := True, CR2_ERRIE := True, CR1_SPE := True\<rparr>"

definition clearSPIInt :: "spi \<Rightarrow> spi" where
  "clearSPIInt s = s\<lparr>spiInt := False\<rparr>"

definition setSPIInt :: "spi \<Rightarrow> spi" where
  "setSPIInt s = s\<lparr>spiInt := True\<rparr>"

text \<open>The handler has one block per status flag.\<close>

definition irq_rxne :: "u8 \<Rightarrow> spi \<Rightarrow> spi cres" where
  "irq_rxne b s =
     (let idx = (unat (rxBufferStart s) + unat (rxBufferLen s)) mod BUFFER_SIZE in
      bindE (wr (rxBuffer s) idx b) (\<lambda>rx.
      Inr (s\<lparr>rxBuffer := rx, rxBufferLen := rxBufferLen s + 1\<rparr>)))"

definition irq_txe :: "spi \<Rightarrow> spi cres" where
  "irq_txe s =
     (if txBufferLen s \<noteq> 0 then
        bindE (rd (txBuffer s) (unat (txBufferStart s))) (\<lambda>b.
        Inr (s\<lparr>miso := miso s @ [b],
               txBufferStart := of_nat ((unat (txBufferStart s) + 1) mod BUFFER_SIZE),
               txBufferLen := txBufferLen s - 1\<rparr>))
      else Inr (s\<lparr>CR2_TXEIE := False\<rparr>))"

definition SPI1_IRQHandler :: "spi_irq \<Rightarrow> spi \<Rightarrow> spi cres" where
  "SPI1_IRQHandler ev s =
     bindE (case fst ev of None \<Rightarrow> Inr s | Some b \<Rightarrow> irq_rxne b s) (\<lambda>s.
     bindE (if snd ev then irq_txe s else Inr s) (\<lambda>s.
     Inr (s\<lparr>SR_FRE := False, SR_OVR := False, SR_MODF := False, SR_CRCERR := False\<rparr>)))"

text \<open>
  The wait of \<^verbatim>\<open>runResponse\<close>: interrupts run until the ring is empty. When the environment has no
  more of them the firmware is still waiting.
\<close>

fun wait_tx :: "spi_irq list \<Rightarrow> spi \<Rightarrow> spi stop + spi" where
  "wait_tx evs s =
     (if txBufferLen s = 0 then Inr (s\<lparr>irqs := evs\<rparr>)
      else case evs of
        [] \<Rightarrow> Inl (Waits (s\<lparr>irqs := []\<rparr>))
      | ev # evs' \<Rightarrow> bindE (ckd (SPI1_IRQHandler ev s)) (wait_tx evs'))"

declare wait_tx.simps [simp del]

definition runResponse :: "spi \<Rightarrow> spi stop + spi" where
  "runResponse s =
     bindE (wait_tx (irqs s) (setSPIInt s)) (\<lambda>s. Inr (clearSPIInt s))"

text \<open>
  \<^verbatim>\<open>writeResponse(status, data, dataLen)\<close>: \<open>put_tx\<close> is its two-part copy into the ring. The sums and
  the ring position stay far below the widths of their C types, so they are natural numbers here;
  \<^verbatim>\<open>txBufferLen += respLen\<close> is an 8-bit addition.
\<close>

definition put_tx :: "u8 \<Rightarrow> u8 list \<Rightarrow> nat \<Rightarrow> nat \<Rightarrow> u8 list \<Rightarrow> u8 list cres" where
  "put_tx status data respLen writeIdx tx =
     (let firstLen = (if writeIdx + respLen \<le> BUFFER_SIZE then respLen else BUFFER_SIZE - writeIdx)
      in
      bindE (wr tx writeIdx status) (\<lambda>tx.
      bindE (bindE (rd_range data 0 (firstLen - 1)) (wr_range tx (writeIdx + 1))) (\<lambda>tx.
      if firstLen \<noteq> respLen
      then bindE (rd_range data (firstLen - 1) (respLen - firstLen)) (wr_range tx 0)
      else Inr tx)))"

definition writeResponse :: "u8 \<Rightarrow> u8 list \<Rightarrow> u8 \<Rightarrow> spi \<Rightarrow> spi stop + (wrError_t \<times> spi)" where
  "writeResponse status data dataLen s =
     (if unat (txBufferLen s) + 1 + unat dataLen > BUFFER_SIZE then Inr (WR_BUFF_FULL, s)
      else
        let s = s\<lparr>CR2_TXEIE := False\<rparr>;
            respLen = 1 + unat dataLen;
            writeIdx = (unat (txBufferStart s) + unat (txBufferLen s)) mod BUFFER_SIZE
        in
        bindE (ckd (put_tx status data respLen writeIdx (txBuffer s))) (\<lambda>tx.
        let s = s\<lparr>txBuffer := tx, txBufferLen := txBufferLen s + of_nat respLen, CR2_TXEIE := True\<rparr>
        in bindE (runResponse s) (\<lambda>s. Inr (WR_OK, s))))"

text \<open>\<^verbatim>\<open>readByte(&data)\<close>: \<open>None\<close> is the return value \<^verbatim>\<open>WR_NO_DATA\<close>, \<open>Some b\<close> is \<^verbatim>\<open>WR_OK\<close> with the byte.\<close>

definition readByte :: "spi \<Rightarrow> 'z stop + (u8 option \<times> spi)" where
  "readByte s =
     (if rxBufferLen s = 0 then Inr (None, s)
      else
        let s = s\<lparr>CR2_RXNEIE := False\<rparr> in
        bindE (ckd (rd (rxBuffer s) (unat (rxBufferStart s)))) (\<lambda>data.
        let s = s\<lparr>rxBufferLen := rxBufferLen s - 1,
                  rxBufferStart := of_nat ((unat (rxBufferStart s) + 1) mod BUFFER_SIZE)\<rparr>
        in Inr (Some data, s\<lparr>CR2_RXNEIE := True\<rparr>)))"

section \<open>The receive ring is a byte queue\<close>

lemma unat_ring_succ [simp]:
  "unat (of_nat (Suc (unat (x :: u8)) mod BUFFER_SIZE) :: u8) = Suc (unat x) mod 256"
  by (simp add: BUFFER_SIZE_def unat_of_nat)

lemma unat_pred_u8: "x \<noteq> 0 \<Longrightarrow> unat (x :: u8) = Suc (unat (x - 1))"
  using unat_gt_0 [of x] by (simp add: unat_minus_one)

lemma unat_succ_u8: "unat (x :: u8) < 255 \<Longrightarrow> unat (x + 1) = Suc (unat x)"
  by (simp add: unat_add_u8)

lemma rx_content_Cons:
  assumes "spi_wf s" "rxBufferLen s \<noteq> 0"
  shows "rx_content s = rxBuffer s ! unat (rxBufferStart s) #
           ring (rxBuffer s) ((unat (rxBufferStart s) + 1) mod 256) (unat (rxBufferLen s - 1))"
  using assms unat_pred_u8 [OF assms(2)] ring_Suc [of "rxBuffer s" "unat (rxBufferStart s)"]
  by (simp add: rx_content_def spi_wf_def BUFFER_SIZE_def)

interpretation rxq: byte_queue spi_wf rx_content readByte
proof unfold_locales
  fix s :: spi
  assume "spi_wf s" "rx_content s = []"
  then have "rxBufferLen s = 0" using rx_content_Cons by fastforce
  then show "\<exists>s'. readByte s = Inr (None, s') \<and> spi_wf s' \<and> rx_content s' = []"
    using \<open>spi_wf s\<close> \<open>rx_content s = []\<close> by (simp add: readByte_def)
next
  fix s :: spi and b bs
  assume wf: "spi_wf s" and c: "rx_content s = b # bs"
  then have ne: "rxBufferLen s \<noteq> 0" by (auto simp: rx_content_def)
  have "unat (rxBufferStart s) < length (rxBuffer s)"
    using wf by (simp add: spi_wf_def BUFFER_SIZE_def)
  with ne wf c rx_content_Cons [OF wf ne]
  show "\<exists>s'. readByte s = Inr (Some b, s') \<and> spi_wf s' \<and> rx_content s' = bs"
    by (auto simp: readByte_def rx_content_def spi_wf_def)
qed

lemma irq_rxne_appends:
  assumes "spi_wf s" "unat (rxBufferLen s) < 255"
  shows "\<exists>s'. irq_rxne b s = Inr s' \<and> spi_wf s' \<and> rx_content s' = rx_content s @ [b]"
  using assms ring_snoc [of "unat (rxBufferLen s)" "rxBuffer s" "unat (rxBufferStart s)" b]
  by (simp add: irq_rxne_def rx_content_def spi_wf_def BUFFER_SIZE_def unat_succ_u8)

section \<open>The handler and the wait\<close>

text \<open>What every operation of the driver leaves alone, and that none of them faults.\<close>

definition tx_same :: "spi \<Rightarrow> spi \<Rightarrow> bool" where
  "tx_same s s' \<longleftrightarrow> txBuffer s' = txBuffer s \<and> txBufferStart s' = txBufferStart s \<and>
     txBufferLen s' = txBufferLen s \<and> miso s' = miso s \<and> spiInt s' = spiInt s"

lemma irq_rxne_ok:
  assumes "spi_wf s"
  shows "\<exists>s'. irq_rxne b s = Inr s' \<and> spi_wf s' \<and> tx_same s s'"
  using assms by (simp add: irq_rxne_def spi_wf_def tx_same_def BUFFER_SIZE_def)

lemma tx_content_Cons:
  assumes "spi_wf s" "txBufferLen s \<noteq> 0"
  shows "tx_content s = txBuffer s ! unat (txBufferStart s) #
           ring (txBuffer s) ((unat (txBufferStart s) + 1) mod 256) (unat (txBufferLen s - 1))"
  using assms unat_pred_u8 [OF assms(2)] ring_Suc [of "txBuffer s" "unat (txBufferStart s)"]
  by (simp add: tx_content_def spi_wf_def BUFFER_SIZE_def)

lemma irq_txe_ok:
  assumes "spi_wf s"
  shows "\<exists>s'. irq_txe s = Inr s' \<and> spi_wf s' \<and> spiInt s' = spiInt s \<and>
           miso s' @ tx_content s' = miso s @ tx_content s \<and>
           unat (txBufferLen s') = unat (txBufferLen s) - 1"
proof (cases "txBufferLen s = 0")
  case True
  with assms show ?thesis by (simp add: irq_txe_def spi_wf_def tx_content_def)
next
  case False
  have "unat (txBufferStart s) < length (txBuffer s)"
    using assms by (simp add: spi_wf_def BUFFER_SIZE_def)
  with False assms tx_content_Cons [OF assms False] unat_pred_u8 [OF False] show ?thesis
    by (simp add: irq_txe_def spi_wf_def tx_content_def)
qed

lemma SPI1_IRQHandler_ok:
  assumes "spi_wf s"
  shows "\<exists>s'. SPI1_IRQHandler ev s = Inr s' \<and> spi_wf s' \<and> spiInt s' = spiInt s \<and>
           miso s' @ tx_content s' = miso s @ tx_content s \<and>
           unat (txBufferLen s') = unat (txBufferLen s) - (if snd ev then 1 else 0)"
proof -
  obtain r t where ev: "ev = (r, t)" by (cases ev)
  obtain s1 where s1: "(case r of None \<Rightarrow> Inr s | Some b \<Rightarrow> irq_rxne b s) = Inr s1" "spi_wf s1"
    "tx_same s s1"
    using irq_rxne_ok [OF assms] assms by (cases r) (fastforce simp: tx_same_def)+
  obtain s2 where s2: "(if t then irq_txe s1 else Inr s1) = Inr s2" "spi_wf s2"
    "spiInt s2 = spiInt s1" "miso s2 @ tx_content s2 = miso s1 @ tx_content s1"
    "unat (txBufferLen s2) = unat (txBufferLen s1) - (if t then 1 else 0)"
    using irq_txe_ok [OF s1(2)] s1(2) by (cases t) auto
  from s1 s2 ev show ?thesis
    by (simp add: SPI1_IRQHandler_def tx_same_def spi_wf_def tx_content_def)
qed

lemma wait_tx_ok:
  assumes "spi_wf s" "unat (txBufferLen s) \<le> length (filter snd evs)"
  shows "\<exists>s'. wait_tx evs s = Inr s' \<and> spi_wf s' \<and> spiInt s' = spiInt s \<and>
           miso s' = miso s @ tx_content s \<and> txBufferLen s' = 0"
  using assms
proof (induction evs arbitrary: s)
  case Nil
  then show ?case
    by (simp add: wait_tx.simps spi_wf_def tx_content_def unat_eq_zero)
next
  case (Cons ev evs)
  show ?case
  proof (cases "txBufferLen s = 0")
    case True
    with Cons.prems show ?thesis by (simp add: wait_tx.simps spi_wf_def tx_content_def)
  next
    case False
    from SPI1_IRQHandler_ok [OF Cons.prems(1)] obtain t where
      t: "SPI1_IRQHandler ev s = Inr t" "spi_wf t" "spiInt t = spiInt s"
        "miso t @ tx_content t = miso s @ tx_content s"
        "unat (txBufferLen t) = unat (txBufferLen s) - (if snd ev then 1 else 0)" by blast
    have "unat (txBufferLen t) \<le> length (filter snd evs)"
      using Cons.prems(2) t(5) by (auto split: if_splits)
    from Cons.IH [OF t(2) this] obtain s' where
      "wait_tx evs t = Inr s'" "spi_wf s'" "spiInt s' = spiInt t"
      "miso s' = miso t @ tx_content t" "txBufferLen s' = 0" by blast
    with False t show ?thesis by (simp add: wait_tx.simps)
  qed
qed

lemma wait_tx_no_fault:
  assumes "spi_wf s"
  shows "(\<exists>s'. wait_tx evs s = Inr s' \<and> spi_wf s') \<or> (\<exists>s'. wait_tx evs s = Inl (Waits s'))"
  using assms
proof (induction evs arbitrary: s)
  case Nil
  then show ?case by (simp add: wait_tx.simps spi_wf_def)
next
  case (Cons ev evs)
  from SPI1_IRQHandler_ok [OF Cons.prems(1)] obtain t where
    "SPI1_IRQHandler ev s = Inr t" "spi_wf t" by blast
  with Cons.IH [of t] Cons.prems show ?case by (simp add: wait_tx.simps spi_wf_def)
qed

section \<open>Responses\<close>

lemma mod_256_flat:
  "w < 256 \<Longrightarrow> k < 256 \<Longrightarrow> (w + k) mod 256 = (if w + k < 256 then w + k else w + k - (256::nat))"
  by (simp add: mod_if)

lemma put_tx_list:
  assumes "length tx = 256" "w < 256" "dl \<le> length data" "dl < 256"
  shows "put_tx status data (1 + dl) w tx = Inr (let vs = status # take dl data in
           if w + 1 + dl \<le> 256 then take w tx @ vs @ drop (w + 1 + dl) tx
           else drop (256 - w) vs @ drop (w + 1 + dl - 256) (take w tx) @ take (256 - w) vs)"
proof (cases "w + 1 + dl \<le> 256")
  case True
  with assms show ?thesis
    by (simp add: put_tx_def BUFFER_SIZE_def upd_conv_take_nth_drop min_def add.commute)
next
  case False
  define f where "f = 255 - w"
  have f: "f < dl" "256 - w = Suc f" "w + 1 + f = 256" "w + 1 + dl - 256 = dl - f"
    "Suc dl - Suc f = dl - f" "dl - f \<le> w"
    using False assms by (auto simp: f_def)
  have "put_tx status data (1 + dl) w tx =
      bindE (wr_range (take w tx @ [status] @ take f data) 0 (take (dl - f) (drop f data))) Inr"
    using False assms f by (simp add: put_tx_def BUFFER_SIZE_def upd_conv_take_nth_drop min_def)
  also have "\<dots> = Inr (take (dl - f) (drop f data) @
      drop (dl - f) (take w tx) @ status # take f data)"
    using f(1,6) assms length_take [of "dl - f" "drop f data"] by (simp add: wr_range_def)
  finally show ?thesis
    using False f assms by (simp add: Let_def drop_take min_def)
qed

lemma put_tx_spec:
  assumes "length tx = 256" "w < 256" "dl \<le> length data" "dl < 256"
  shows "\<exists>tx'. put_tx status data (1 + dl) w tx = Inr tx' \<and> length tx' = 256 \<and>
           (\<forall>k < 256. tx' ! ((w + k) mod 256) =
             (if k \<le> dl then (status # data) ! k else tx ! ((w + k) mod 256)))"
proof -
  define vs where "vs = status # take dl data"
  have vs: "length vs = 1 + dl" "\<And>k. k \<le> dl \<Longrightarrow> (status # data) ! k = vs ! k"
    using assms(3) by (auto simp: vs_def nth_Cons split: nat.splits)
  show ?thesis
    unfolding put_tx_list [OF assms] vs_def [symmetric] Let_def
    using assms(1,2,4) vs
    by (auto simp: mod_256_flat nth_append)
qed

lemma ring_put:
  assumes "length tx = 256" "length tx' = 256" "l + 1 + dl \<le> 256" "dl \<le> length data"
    and "\<forall>k < 256. tx' ! (((s + l) mod 256 + k) mod 256) =
           (if k \<le> dl then (status # data) ! k else tx ! (((s + l) mod 256 + k) mod 256))"
  shows "ring tx' s (l + 1 + dl) = ring tx s l @ status # take dl data"
proof (rule nth_equalityI)
  fix i assume "i < length (ring tx' s (l + 1 + dl))"
  then have i: "i < l + 1 + dl" by simp
  show "ring tx' s (l + 1 + dl) ! i = (ring tx s l @ status # take dl data) ! i"
  proof (cases "i < l")
    case True
    define m where "m = 256 - l + i"
    have m: "m < 256" "\<not> m \<le> dl" "s + l + m = s + i + 256"
      using True assms(3) by (auto simp: m_def)
    then have "((s + l) mod 256 + m) mod 256 = (s + i) mod 256"
      by (metis mod_add_left_eq mod_add_self2)
    with assms(5) m have "tx' ! ((s + i) mod 256) = tx ! ((s + i) mod 256)" by metis
    with True i assms(1,2) show ?thesis by (simp add: ring_nth nth_append)
  next
    case False
    define k where "k = i - l"
    have k: "i = l + k" "k \<le> dl" "k < 256" using False i assms(3) by (auto simp: k_def)
    have "(s + i) mod 256 = ((s + l) mod 256 + k) mod 256"
      using k by (simp add: mod_simps add.assoc)
    with assms(5) k have "tx' ! ((s + i) mod 256) = (status # data) ! k" by metis
    with i assms(1,2) have "ring tx' s (l + 1 + dl) ! i = (status # data) ! k"
      by (simp add: ring_nth)
    with k(1,2) show ?thesis by (cases k) (simp_all add: nth_append)
  qed
qed (use assms in simp)

text \<open>
  A response that fits reaches the wire whole: the bytes still queued, the status and the data go
  out in order, and the interrupt pin is low again at the end.
\<close>

lemma runResponse_ok:
  assumes "spi_wf s" "unat (txBufferLen s) \<le> length (filter snd (irqs s))"
  shows "\<exists>s'. runResponse s = Inr s' \<and> spi_wf s' \<and> \<not> spiInt s' \<and>
           miso s' = miso s @ tx_content s \<and> txBufferLen s' = 0"
proof -
  have "spi_wf (setSPIInt s)" "unat (txBufferLen (setSPIInt s)) \<le> length (filter snd (irqs s))"
    using assms by (simp_all add: spi_wf_def setSPIInt_def)
  from wait_tx_ok [OF this] show ?thesis
    by (auto simp: runResponse_def setSPIInt_def clearSPIInt_def spi_wf_def tx_content_def)
qed

lemma runResponse_no_fault:
  assumes "spi_wf s"
  shows "(\<exists>s'. runResponse s = Inr s' \<and> spi_wf s') \<or> (\<exists>s'. runResponse s = Inl (Waits s'))"
proof -
  have "spi_wf (setSPIInt s)" using assms by (simp add: spi_wf_def setSPIInt_def)
  from wait_tx_no_fault [OF this, of "irqs s"] show ?thesis
    by (auto simp: runResponse_def clearSPIInt_def spi_wf_def)
qed

lemma put_response:
  assumes wf: "spi_wf s" and fit: "unat (txBufferLen s) + 1 + unat (dataLen :: u8) < 256"
    and dl: "unat dataLen \<le> length data"
    and w: "w = (unat (txBufferStart s) + unat (txBufferLen s)) mod BUFFER_SIZE"
  shows "\<exists>tx. put_tx status data (1 + unat dataLen) w (txBuffer s) = Inr tx \<and>
     spi_wf (s\<lparr>txBuffer := tx, txBufferLen := txBufferLen s + of_nat (1 + unat dataLen)\<rparr>) \<and>
     tx_content (s\<lparr>txBuffer := tx, txBufferLen := txBufferLen s + of_nat (1 + unat dataLen)\<rparr>) =
       tx_content s @ status # take (unat dataLen) data"
proof -
  have w256: "w = (unat (txBufferStart s) + unat (txBufferLen s)) mod 256" "w < 256"
    by (simp_all add: w BUFFER_SIZE_def)
  have len: "length (txBuffer s) = 256" using wf by (simp add: spi_wf_def BUFFER_SIZE_def)
  obtain tx where tx: "put_tx status data (1 + unat dataLen) w (txBuffer s) = Inr tx"
      "length tx = 256" "\<forall>k < 256. tx ! ((w + k) mod 256) =
        (if k \<le> unat dataLen then (status # data) ! k else txBuffer s ! ((w + k) mod 256))"
    using put_tx_spec [OF len w256(2) dl u8_less_256] by blast
  have "unat (txBufferLen s + of_nat (1 + unat dataLen)) = unat (txBufferLen s) + 1 + unat dataLen"
    using fit unat_of_nat_u8 [of "1 + unat dataLen"] by (subst unat_add_u8) simp_all
  then show ?thesis
    using tx wf len ring_put [OF len tx(2) _ dl, of "unat (txBufferLen s)" "unat (txBufferStart s)"
        status] fit
    by (simp add: w256(1) spi_wf_def tx_content_def BUFFER_SIZE_def)
qed

lemma writeResponse_ok:
  assumes wf: "spi_wf s" and fit: "unat (txBufferLen s) + 1 + unat dataLen < 256"
    and dl: "unat dataLen \<le> length data"
    and irq: "unat (txBufferLen s) + 1 + unat dataLen \<le> length (filter snd (irqs s))"
  shows "\<exists>s'. writeResponse status data dataLen s = Inr (WR_OK, s') \<and> spi_wf s' \<and>
           miso s' = miso s @ tx_content s @ status # take (unat dataLen) data \<and>
           txBufferLen s' = 0 \<and> \<not> spiInt s'"
proof -
  define t where "t = s\<lparr>CR2_TXEIE := False\<rparr>"
  have t: "spi_wf t" "unat (txBufferLen t) + 1 + unat dataLen < 256" "txBuffer t = txBuffer s"
    "tx_content t = tx_content s"
    using wf fit by (simp_all add: t_def spi_wf_def tx_content_def)
  obtain tx where tx: "put_tx status data (1 + unat dataLen)
      ((unat (txBufferStart s) + unat (txBufferLen s)) mod BUFFER_SIZE) (txBuffer s) = Inr tx"
    and u: "spi_wf (t\<lparr>txBuffer := tx, txBufferLen := txBufferLen t + of_nat (1 + unat dataLen)\<rparr>)"
      "tx_content (t\<lparr>txBuffer := tx, txBufferLen := txBufferLen t + of_nat (1 + unat dataLen)\<rparr>) =
       tx_content s @ status # take (unat dataLen) data"
    using put_response [OF t(1,2) dl refl, of status] by (auto simp: t_def tx_content_def)
  define v where "v = t\<lparr>txBuffer := tx, txBufferLen := txBufferLen t + of_nat (1 + unat dataLen),
    CR2_TXEIE := True\<rparr>"
  have v: "spi_wf v" "tx_content v = tx_content s @ status # take (unat dataLen) data"
    "irqs v = irqs s" "miso v = miso s"
    using u by (simp_all add: v_def spi_wf_def tx_content_def t_def)
  then have "unat (txBufferLen v) = unat (txBufferLen s) + 1 + unat dataLen"
    using dl by (metis (no_types, lifting) add.assoc length_Cons length_append length_ring
      length_take min.absorb2 plus_1_eq_Suc tx_content_def)
  with runResponse_ok [OF v(1)] irq v obtain s' where
    "runResponse v = Inr s'" "spi_wf s'" "\<not> spiInt s'" "txBufferLen s' = 0"
    "miso s' = miso s @ tx_content s @ status # take (unat dataLen) data" by auto
  moreover have "writeResponse status data dataLen s = bindE (runResponse v) (\<lambda>s. Inr (WR_OK, s))"
    using fit tx by (simp add: writeResponse_def BUFFER_SIZE_def t_def v_def)
  ultimately show ?thesis by simp
qed

lemma writeResponse_no_fault:
  assumes wf: "spi_wf s" and dl: "unat dataLen \<le> length data"
  shows "(\<exists>r s'. writeResponse status data dataLen s = Inr (r, s') \<and> spi_wf s') \<or>
         (\<exists>s'. writeResponse status data dataLen s = Inl (Waits s'))"
proof (cases "unat (txBufferLen s) + 1 + unat dataLen > BUFFER_SIZE")
  case True
  with wf show ?thesis by (simp add: writeResponse_def)
next
  case False
  have len: "length (txBuffer s) = 256" using wf by (simp add: spi_wf_def BUFFER_SIZE_def)
  obtain tx where tx: "put_tx status data (1 + unat dataLen)
      ((unat (txBufferStart s) + unat (txBufferLen s)) mod BUFFER_SIZE) (txBuffer s) = Inr tx"
      "length tx = 256"
    using put_tx_spec [OF len _ dl u8_less_256] by (metis BUFFER_SIZE_def mod_less_divisor
      zero_less_numeral)
  define v where "v = s\<lparr>txBuffer := tx,
    txBufferLen := txBufferLen s + of_nat (1 + unat dataLen), CR2_TXEIE := True\<rparr>"
  have "spi_wf v" using wf tx(2) by (simp add: v_def spi_wf_def BUFFER_SIZE_def)
  moreover have "writeResponse status data dataLen s = bindE (runResponse v) (\<lambda>s. Inr (WR_OK, s))"
    using False tx(1) by (simp add: writeResponse_def v_def)
  ultimately show ?thesis using runResponse_no_fault [of v] by auto
qed

section \<open>Properties\<close>

text \<open>The driver as the reset leaves it, with the interrupts that are to come.\<close>

definition spi_reset :: "spi_irq list \<Rightarrow> spi" where
  "spi_reset evs = \<lparr>txBuffer = replicate 256 0, txBufferStart = 0, txBufferLen = 0,
     rxBuffer = replicate 256 0, rxBufferStart = 0, rxBufferLen = 0,
     CR2_TXEIE = False, CR2_RXNEIE = False, CR2_ERRIE = False, CR1_SPE = False,
     SR_FRE = False, SR_OVR = False, SR_MODF = False, SR_CRCERR = False,
     spiInt = False, miso = [], irqs = evs\<rparr>"

lemma spi_wf_reset [simp]: "spi_wf (spi_reset evs)"
  by (simp add: spi_wf_def spi_reset_def BUFFER_SIZE_def)

lemma reset_content [simp]:
  "tx_content (spi_reset evs) = []" "rx_content (spi_reset evs) = []"
  by (simp_all add: tx_content_def rx_content_def spi_reset_def)

lemma spi_reset_simps [simp]:
  "miso (spi_reset evs) = []" "irqs (spi_reset evs) = evs" "txBufferLen (spi_reset evs) = 0"
  "rxBufferLen (spi_reset evs) = 0" "txBufferStart (spi_reset evs) = 0"
  by (simp_all add: spi_reset_def)



text \<open>
  The receive ring holds 256 bytes but counts them in a \<^verbatim>\<open>uint8_t\<close>: the interrupt of a byte
  that arrives while 255 bytes are unread brings the count to 0, and all 256 bytes are lost.
\<close>

theorem slave_rx_overflow_loses_all:
  assumes "spi_wf s" and "rxBufferLen s = 255"
  shows "\<exists>s'. SPI1_IRQHandler (Some b, False) s = Inr s' \<and> length (rx_content s) = 255 \<and>
           rx_content s' = [] \<and> readByte s' = Inr (None, s')"
  using assms by (simp add: SPI1_IRQHandler_def irq_rxne_def rx_content_def spi_wf_def
      BUFFER_SIZE_def readByte_def)

theorem slave_rx_overflow_loses_all_witness:
  "\<exists>s'. SPI1_IRQHandler (Some 7, False) ((spi_reset [])\<lparr>rxBufferLen := 255\<rparr>) = Inr s' \<and>
     rx_content s' = []"
  using slave_rx_overflow_loses_all [of "(spi_reset [])\<lparr>rxBufferLen := 255\<rparr>" 7]
  by (auto simp: spi_reset_def spi_wf_def BUFFER_SIZE_def)

end
