(* ===== verification/SlaveComms.thy ===== *)
theory SlaveComms
  imports SlaveSpi
begin

text \<open>
  The message state machine all submodules share, \<^verbatim>\<open>slave_lib/drivers/commsLib.c\<close>, and the reset
  into the bootloader, \<^verbatim>\<open>slave_lib/drivers/boot.c\<close>. A submodule is the state machine with a table of
  messages; the locale \<open>slave_app\<close> says what a table must satisfy, and gives in return that no
  stream of bytes makes the submodule leave defined behaviour, and that every well-formed frame is
  answered by its callback. Each submodule theory interprets it on its own table.

  The weak symbols \<^verbatim>\<open>pauseInterruptingPeripherals\<close> and \<^verbatim>\<open>restoreInterruptingPeripherals\<close> have no
  definition in the repository, so the calls do nothing.
\<close>

section \<open>Data\<close>

datatype commState_t = START_BYTE | MSG_TYPE | DATA

definition COMMS_START_BYTE :: u8 where "COMMS_START_BYTE = 0xEA"
definition NUM_MSGS :: u8 where "NUM_MSGS = 11"
definition BOOT_MSG :: u8 where "BOOT_MSG = 0x0A"

text \<open>
  A callback gets the message buffer and the state of the application and returns its status byte
  with both updated, unless it never returns.
\<close>

type_synonym 'a callback_t = "u8 list \<Rightarrow> 'a \<Rightarrow> 'a stop + (u8 \<times> u8 list \<times> 'a)"

record 'a msgInfo_t =
  rxDataLength :: u8
  txDataLength :: u8
  callback :: "'a callback_t option"

definition msg :: "u8 \<Rightarrow> u8 \<Rightarrow> 'a callback_t option \<Rightarrow> 'a msgInfo_t" where
  "msg rx tx cb = \<lparr>rxDataLength = rx, txDataLength = tx, callback = cb\<rparr>"

lemma msg_simps [simp]:
  "rxDataLength (msg rx tx cb) = rx" "txDataLength (msg rx tx cb) = tx" "callback (msg rx tx cb) = cb"
  by (simp_all add: msg_def)

text \<open>The static variables of \<^verbatim>\<open>runCommsFSM\<close>, the buffer, the SPI driver and the application.\<close>

record 'a slave =
  state :: commState_t
  dataSize :: u8
  dataIdx :: u8
  msgType :: u8
  buff :: "u8 list"
  port :: spi
  app :: 'a

section \<open>Operations\<close>

text \<open>\<^verbatim>\<open>bootload\<close>: after a delay the processor resets.\<close>

definition bootload :: "'a callback_t" where
  "bootload data a = Inl (SystemReset a)"

definition in_app :: "'a slave \<Rightarrow> 'a stop + 'b \<Rightarrow> 'a slave stop + 'b" where
  "in_app s r = (case r of Inl e \<Rightarrow> Inl (map_stop (\<lambda>a. s\<lparr>app := a\<rparr>) e) | Inr x \<Rightarrow> Inr x)"

definition in_port :: "'a slave \<Rightarrow> spi stop + 'b \<Rightarrow> 'a slave stop + 'b" where
  "in_port s r = (case r of Inl e \<Rightarrow> Inl (map_stop (\<lambda>p. s\<lparr>port := p\<rparr>) e) | Inr x \<Rightarrow> Inr x)"

lemma in_app_simps [simp]: "in_app s (Inr x) = Inr x"
  "in_app s (Inl e) = Inl (map_stop (\<lambda>a. s\<lparr>app := a\<rparr>) e)"
  by (simp_all add: in_app_def)

lemma in_port_simps [simp]: "in_port s (Inr x) = Inr x"
  "in_port s (Inl e) = Inl (map_stop (\<lambda>p. s\<lparr>port := p\<rparr>) e)"
  by (simp_all add: in_port_def)

text \<open>The tail both branches share: the callback, its response, and back to the start state.\<close>

definition answer :: "'a msgInfo_t \<Rightarrow> 'a callback_t \<Rightarrow> 'a slave \<Rightarrow> 'a slave stop + 'a slave" where
  "answer m cb s =
     bindE (in_app s (cb (buff s) (app s))) (\<lambda>(status, b, a).
     let s = s\<lparr>buff := b, app := a\<rparr> in
     bindE (in_port s (writeResponse status (buff s) (txDataLength m) (port s))) (\<lambda>(r, p).
     Inr (s\<lparr>port := p, state := START_BYTE\<rparr>)))"

definition fsm_msg_type :: "'a msgInfo_t list \<Rightarrow> u8 \<Rightarrow> 'a slave \<Rightarrow> 'a slave stop + 'a slave" where
  "fsm_msg_type msgResp data s =
     (if data \<ge> NUM_MSGS then Inr (s\<lparr>state := START_BYTE\<rparr>)
      else
        bindE (ckd (rd msgResp (unat data))) (\<lambda>m.
        let s = s\<lparr>msgType := data, dataSize := rxDataLength m\<rparr> in
        case callback m of
          None \<Rightarrow> Inr (s\<lparr>state := START_BYTE\<rparr>)
        | Some cb \<Rightarrow>
            if dataSize s = 0 then
              bindE (if data = BOOT_MSG
                     then bindE (in_port s (writeResponse WR_OK [] 0 (port s)))
                            (\<lambda>(r, p). Inr (s\<lparr>port := p\<rparr>))
                     else Inr s) (answer m cb)
            else Inr (s\<lparr>dataIdx := 0, state := DATA\<rparr>)))"

definition fsm_data :: "'a msgInfo_t list \<Rightarrow> u8 \<Rightarrow> 'a slave \<Rightarrow> 'a slave stop + 'a slave" where
  "fsm_data msgResp data s =
     bindE (ckd (wr (buff s) (unat (dataIdx s)) data)) (\<lambda>b.
     let s = s\<lparr>buff := b, dataIdx := dataIdx s + 1\<rparr> in
     if dataIdx s = dataSize s then
       bindE (ckd (rd msgResp (unat (msgType s)))) (\<lambda>m.
       case callback m of
         None \<Rightarrow> Inl (Faulted NullDeref)
       | Some cb \<Rightarrow> answer m cb s)
     else Inr s)"

definition runCommsFSM :: "'a msgInfo_t list \<Rightarrow> u8 \<Rightarrow> 'a slave \<Rightarrow> 'a slave stop + 'a slave" where
  "runCommsFSM msgResp data s =
     (case state s of
        START_BYTE \<Rightarrow>
          let s = s\<lparr>port := clearSPIInt (port s)\<rparr> in
          Inr (if data = COMMS_START_BYTE then s\<lparr>state := MSG_TYPE\<rparr> else s)
      | MSG_TYPE \<Rightarrow> fsm_msg_type msgResp data s
      | DATA \<Rightarrow> fsm_data msgResp data s)"

text \<open>One round of the main loop of a submodule.\<close>

definition main_round :: "'a msgInfo_t list \<Rightarrow> 'a slave \<Rightarrow> 'a slave stop + 'a slave" where
  "main_round msgResp s =
     bindE (readByte (port s)) (\<lambda>(d, p).
     let s = s\<lparr>port := p\<rparr> in
     case d of None \<Rightarrow> Inr s | Some b \<Rightarrow> runCommsFSM msgResp b s)"

definition slave_start :: "spi_irq list \<Rightarrow> 'a \<Rightarrow> 'a slave" where
  "slave_start evs a = \<lparr>state = START_BYTE, dataSize = 0, dataIdx = 0, msgType = 0,
     buff = replicate 256 0, port = spi_reset evs, app = a\<rparr>"

section \<open>What a table of messages owes the state machine\<close>

fun fault_free :: "'s stop \<Rightarrow> bool" where
  "fault_free (Faulted u) = False"
| "fault_free _ = True"

definition no_fault :: "'s stop + 'b \<Rightarrow> bool" where
  "no_fault r = (case r of Inl e \<Rightarrow> fault_free e | Inr x \<Rightarrow> True)"

lemma no_fault_simps [simp]: "no_fault (Inr x)" "no_fault (Inl e) = fault_free e"
  by (simp_all add: no_fault_def)

lemma fault_free_map [simp]: "fault_free (map_stop f e) = fault_free e"
  by (cases e) simp_all

definition callback_ok :: "('a \<Rightarrow> bool) \<Rightarrow> 'a callback_t \<Rightarrow> bool" where
  "callback_ok app_wf cb \<longleftrightarrow> (\<forall>b a. length b = 256 \<longrightarrow> app_wf a \<longrightarrow>
     no_fault (cb b a) \<and> (\<forall>st b' a'. cb b a = Inr (st, b', a') \<longrightarrow> length b' = 256 \<and> app_wf a'))"

lemma callback_ok_bootload [simp, intro]: "callback_ok app_wf bootload"
  by (simp add: callback_ok_def bootload_def)

locale slave_app =
  fixes app_wf :: "'a \<Rightarrow> bool" and msgResp :: "'a msgInfo_t list"
  assumes table_length: "length msgResp = 11"
    and table_callbacks: "\<And>m cb. m \<in> set msgResp \<Longrightarrow> callback m = Some cb \<Longrightarrow> callback_ok app_wf cb"
begin

definition base :: "'a slave \<Rightarrow> bool" where
  "base s \<longleftrightarrow> spi_wf (port s) \<and> length (buff s) = 256 \<and> app_wf (app s)"

definition wf :: "'a slave \<Rightarrow> bool" where
  "wf s \<longleftrightarrow> base s \<and>
     (state s = DATA \<longrightarrow> unat (msgType s) < 11 \<and> callback (msgResp ! unat (msgType s)) \<noteq> None \<and>
        dataSize s = rxDataLength (msgResp ! unat (msgType s)) \<and> dataIdx s < dataSize s)"

definition good :: "'a slave stop + 'a slave \<Rightarrow> bool" where
  "good r \<longleftrightarrow> no_fault r \<and> (\<forall>s. r = Inr s \<longrightarrow> wf s)"

lemma good_Inr [simp]: "good (Inr s) = wf s"
  by (simp add: good_def)

lemma good_Inl [simp]: "good (Inl e) = fault_free e"
  by (simp add: good_def)

lemma good_bindE: "good m \<Longrightarrow> (\<And>s. wf s \<Longrightarrow> m = Inr s \<Longrightarrow> good (f s)) \<Longrightarrow> good (bindE m f)"
  by (cases m) auto

lemma wf_start: "app_wf a \<Longrightarrow> wf (slave_start evs a)"
  by (simp add: wf_def base_def slave_start_def)

lemma good_answer:
  assumes "base s" "m \<in> set msgResp" "callback m = Some cb"
  shows "good (answer m cb s)"
proof -
  have cb: "callback_ok app_wf cb" by (rule table_callbacks [OF assms(2,3)])
  with assms(1) have nf: "no_fault (cb (buff s) (app s))" by (simp add: callback_ok_def base_def)
  show ?thesis
  proof (cases "cb (buff s) (app s)")
    case (Inl e)
    with nf show ?thesis by (simp add: answer_def)
  next
    case (Inr x)
    then obtain st b a where x: "cb (buff s) (app s) = Inr (st, b, a)" by (cases x) auto
    with cb assms(1) have ba: "length b = 256" "app_wf a"
      unfolding callback_ok_def base_def by blast+
    have wf: "spi_wf (port s)" using assms(1) by (simp add: base_def)
    have "unat (txDataLength m) \<le> length b" using ba(1) less_imp_le [OF u8_less_256] by simp
    from writeResponse_no_fault [OF wf this, of st] show ?thesis
    proof (elim disjE exE conjE)
      fix r p assume "writeResponse st b (txDataLength m) (port s) = Inr (r, p)" "spi_wf p"
      with x ba show ?thesis by (simp add: answer_def wf_def base_def)
    next
      fix p assume "writeResponse st b (txDataLength m) (port s) = Inl (Waits p)"
      with x show ?thesis by (simp add: answer_def)
    qed
  qed
qed

lemma nth_table: "n < 11 \<Longrightarrow> msgResp ! n \<in> set msgResp"
  by (simp add: table_length)

lemma good_msg_type:
  assumes "wf s" "state s = MSG_TYPE"
  shows "good (fsm_msg_type msgResp d s)"
proof (cases "d \<ge> NUM_MSGS")
  case True
  with assms show ?thesis by (simp add: fsm_msg_type_def wf_def base_def)
next
  case False
  then have d: "unat d < 11" by (simp add: NUM_MSGS_def word_less_nat_alt not_le)
  define m where "m = msgResp ! unat d"
  define t where "t = s\<lparr>msgType := d, dataSize := rxDataLength m\<rparr>"
  have t: "wf t" "spi_wf (port t)" using assms by (simp_all add: wf_def base_def t_def)
  have rd: "rd msgResp (unat d) = Inr m" using d by (simp add: m_def table_length)
  show ?thesis
  proof (cases "callback m")
    case None
    with False t rd show ?thesis
      by (simp add: fsm_msg_type_def t_def [symmetric] wf_def base_def)
  next
    case (Some cb)
    have ans: "\<And>p. spi_wf p \<Longrightarrow> good (answer m cb (t\<lparr>port := p\<rparr>))"
      using good_answer [OF _ _ Some] t nth_table [OF d] assms(2)
      by (simp add: m_def base_def wf_def t_def)
    from writeResponse_no_fault [OF t(2), of 0 "[]" WR_OK] ans [OF t(2)] ans
    have boot: "good (bindE (bindE (in_port t (writeResponse WR_OK [] 0 (port t)))
        (\<lambda>(r, p). Inr (t\<lparr>port := p\<rparr>))) (answer m cb))" by auto
    have "\<not> dataSize t = 0 \<Longrightarrow> wf (t\<lparr>dataIdx := 0, state := DATA\<rparr>)"
      using t(1) d Some by (simp add: wf_def base_def t_def m_def word_gt_0)
    with False rd Some boot ans [OF t(2)] show ?thesis
      by (simp add: fsm_msg_type_def t_def [symmetric])
  qed
qed

lemma good_data:
  assumes "wf s" "state s = DATA"
  shows "good (fsm_data msgResp d s)"
proof -
  define t where "t = s\<lparr>buff := (buff s)[unat (dataIdx s) := d], dataIdx := dataIdx s + 1\<rparr>"
  have mt: "unat (msgType s) < 11" and lt: "dataIdx s < dataSize s" and b: "base s"
    using assms by (auto simp: wf_def)
  obtain cb where cb: "callback (msgResp ! unat (msgType s)) = Some cb"
    using assms by (auto simp: wf_def)
  have step: "fsm_data msgResp d s =
      (if dataIdx t = dataSize t then answer (msgResp ! unat (msgType s)) cb t else Inr t)"
    using b mt cb by (simp add: fsm_data_def t_def base_def table_length)
  show ?thesis
  proof (cases "dataIdx t = dataSize t")
    case True
    with step good_answer [OF _ nth_table [OF mt] cb, of t] b show ?thesis
      by (simp add: base_def t_def)
  next
    case False
    have "dataIdx s + 1 \<le> dataSize s" using lt by (rule inc_le)
    with False have "dataIdx t < dataSize t" by (simp add: t_def)
    with False step assms show ?thesis by (simp add: wf_def base_def t_def)
  qed
qed

text \<open>Safety: no byte, and so no stream of bytes, makes the submodule fault.\<close>

lemma good_runCommsFSM: "wf s \<Longrightarrow> good (runCommsFSM msgResp d s)"
  by (cases "state s")
    (auto simp: runCommsFSM_def good_msg_type good_data Let_def,
      auto simp: wf_def base_def clearSPIInt_def spi_wf_def)

lemma good_foldE: "wf s \<Longrightarrow> good (foldE (runCommsFSM msgResp) ds s)"
  by (induction ds arbitrary: s) (auto intro!: good_bindE good_runCommsFSM)

lemma good_main_round:
  assumes "wf s"
  shows "good (main_round msgResp s)"
proof (cases "rx_content (port s)")
  case Nil
  from rxq.get_Nil [OF _ Nil] assms obtain p where
    "readByte (port s) = (Inr (None, p) :: 'a slave stop + _)" "spi_wf p"
    unfolding wf_def base_def by blast
  with assms show ?thesis by (auto simp: main_round_def wf_def base_def)
next
  case (Cons b bs)
  from rxq.get_Cons [OF _ Cons] assms obtain p where
    p: "readByte (port s) = (Inr (Some b, p) :: 'a slave stop + _)" "spi_wf p"
    unfolding wf_def base_def by blast
  have "wf (s\<lparr>port := p\<rparr>)" using assms p(2) by (auto simp: wf_def base_def)
  from good_runCommsFSM [OF this] p(1) show ?thesis by (simp add: main_round_def)
qed

end

section \<open>Frames\<close>

text \<open>Outside a frame every byte but the start byte is ignored.\<close>

lemma ignored_outside_frame:
  assumes "state s = START_BYTE" "COMMS_START_BYTE \<notin> set ds"
  shows "foldE (runCommsFSM msgResp) ds s =
    Inr (if ds = [] then s else s\<lparr>port := clearSPIInt (port s)\<rparr>)"
  using assms
proof (induction ds arbitrary: s)
  case (Cons d ds)
  then show ?case
    by (auto simp: runCommsFSM_def clearSPIInt_def)
qed simp

text \<open>The bytes of a message are stored from the start of the buffer on.\<close>

lemma collect_data:
  assumes "state s = DATA" "length (buff s) = 256"
    and "unat (dataIdx s) + length ds < unat (dataSize s)"
  shows "foldE (runCommsFSM msgResp) ds s =
    Inr (s\<lparr>buff := take (unat (dataIdx s)) (buff s) @ ds @ drop (unat (dataIdx s) + length ds) (buff s),
           dataIdx := dataIdx s + of_nat (length ds)\<rparr>)"
  using assms
proof (induction ds arbitrary: s)
  case Nil
  then show ?case by (simp add: id_take_nth_drop)
next
  case (Cons d ds)
  have sz: "unat (dataIdx s) < 255"
    using Cons.prems(3) u8_less_256 [of "dataSize s"] by (simp del: u8_less_256)
  then have ix: "unat (dataIdx s + 1) = unat (dataIdx s) + 1"
    using unat_succ_u8 [of "dataIdx s"] by simp
  then have ne: "dataIdx s + 1 \<noteq> dataSize s" using Cons.prems(3) by auto
  define t where "t = s\<lparr>buff := (buff s)[unat (dataIdx s) := d], dataIdx := dataIdx s + 1\<rparr>"
  have "runCommsFSM msgResp d s = Inr t"
    using Cons.prems ne by (simp add: runCommsFSM_def fsm_data_def t_def)
  moreover have "foldE (runCommsFSM msgResp) ds t =
    Inr (t\<lparr>buff := take (unat (dataIdx t)) (buff t) @ ds @ drop (unat (dataIdx t) + length ds) (buff t),
           dataIdx := dataIdx t + of_nat (length ds)\<rparr>)"
    by (rule Cons.IH) (use Cons.prems ix in \<open>simp_all add: t_def\<close>)
  ultimately show ?case
    using Cons.prems ix sz by (simp add: t_def take_Suc_update add.assoc)
qed

text \<open>A whole frame runs its callback on the data of the frame, and answers.\<close>

definition after_frame :: "'a msgInfo_t \<Rightarrow> u8 \<Rightarrow> u8 list \<Rightarrow> 'a slave \<Rightarrow> 'a slave" where
  "after_frame m mt ds s = s\<lparr>port := clearSPIInt (port s), msgType := mt,
     dataSize := rxDataLength m, buff := ds @ drop (length ds) (buff s),
     dataIdx := (if ds = [] then dataIdx s else of_nat (length ds)),
     state := (if ds = [] then MSG_TYPE else DATA)\<rparr>"

lemma frame_runs_callback:
  assumes st: "state s = START_BYTE" and len: "length (buff s) = 256" "length msgResp = 11"
    and mt: "unat mt < 11" "mt \<noteq> BOOT_MSG \<or> ds \<noteq> []"
    and m: "msgResp ! unat mt = m" "callback m = Some cb" "unat (rxDataLength m) = length ds"
  shows "foldE (runCommsFSM msgResp) (COMMS_START_BYTE # mt # ds) s =
    answer m cb (after_frame m mt ds s)"
proof -
  define t where "t = s\<lparr>port := clearSPIInt (port s), state := MSG_TYPE\<rparr>"
  define u where "u = t\<lparr>msgType := mt, dataSize := rxDataLength m\<rparr>"
  have "\<not> NUM_MSGS \<le> mt" using mt by (simp add: NUM_MSGS_def word_le_nat_alt)
  then have msg: "runCommsFSM msgResp mt t =
      (if ds = [] then answer m cb u else Inr (u\<lparr>dataIdx := 0, state := DATA\<rparr>))"
    using assms by (auto simp: runCommsFSM_def fsm_msg_type_def t_def u_def unat_eq_zero
        simp flip: unat_eq_zero)
  have start: "foldE (runCommsFSM msgResp) (COMMS_START_BYTE # mt # ds) s =
      bindE (runCommsFSM msgResp mt t) (foldE (runCommsFSM msgResp) ds)"
    using st by (simp add: runCommsFSM_def t_def)
  show ?thesis
  proof (cases ds rule: rev_cases)
    case Nil
    have "after_frame m mt [] s = u"
      by (cases s) (simp add: after_frame_def u_def t_def)
    with Nil show ?thesis using start msg by (cases "answer m cb u") simp_all
  next
    case (snoc es d)
    define v where "v = u\<lparr>dataIdx := 0, state := DATA\<rparr>"
    have l: "length ds = Suc (length es)" "length ds < 256"
      using snoc m(3) u8_less_256 [of "rxDataLength m"] by (auto simp del: u8_less_256)
    define x where "x = v\<lparr>buff := es @ drop (length es) (buff s), dataIdx := of_nat (length es)\<rparr>"
    define y where "y = v\<lparr>buff := ds @ drop (length ds) (buff s), dataIdx := rxDataLength m\<rparr>"
    have fold: "foldE (runCommsFSM msgResp) es v = Inr x"
      using collect_data [of v es msgResp] len l m(3) by (simp add: v_def u_def t_def x_def)
    have r: "of_nat (length ds) = rxDataLength m" by (simp flip: m(3))
    then have e: "of_nat (length es) + 1 = rxDataLength m" using l(1) by (simp add: add.commute)
    have y: "y = after_frame m mt ds s"
      using snoc r by (cases s) (simp add: after_frame_def y_def v_def u_def t_def)
    have "drop (length es) (buff s) = buff s ! length es # drop (Suc (length es)) (buff s)"
      using l len by (simp add: Cons_nth_drop_Suc)
    moreover have "unat (of_nat (length es) :: u8) = length es" using l by (simp add: unat_of_nat_u8)
    ultimately have "runCommsFSM msgResp d x = answer m cb y"
      using snoc e mt m len by (simp add: runCommsFSM_def fsm_data_def x_def y_def v_def u_def t_def)
    with fold y snoc start msg v_def show ?thesis
      by (cases "answer m cb y") (simp_all add: foldE_append)
  qed
qed

text \<open>
  A submodule between frames with nothing left to send, and a master that will clock \<open>n\<close> bytes
  while the submodule answers.
\<close>

definition ready :: "nat \<Rightarrow> 'a slave \<Rightarrow> bool" where
  "ready n s \<longleftrightarrow> state s = START_BYTE \<and> length (buff s) = 256 \<and> spi_wf (port s) \<and>
     txBufferLen (port s) = 0 \<and> n \<le> length (filter snd (irqs (port s)))"

lemma ready_start [simp]: "ready n (slave_start (replicate n (r, True)) a)"
  by (simp add: ready_def slave_start_def)

lemma slave_start_simps [simp]:
  "app (slave_start evs a) = a" "buff (slave_start evs a) = replicate 256 0"
  "miso (port (slave_start evs a)) = []"
  by (simp_all add: slave_start_def)

lemma answer_ok:
  assumes wf: "spi_wf (port s)" "txBufferLen (port s) = 0"
    and irq: "1 + unat (txDataLength m) \<le> length (filter snd (irqs (port s)))"
    and tx: "unat (txDataLength m) < 255"
    and cb: "cb (buff s) (app s) = Inr (st, b, a)" "length b = 256"
  shows "\<exists>p. answer m cb s = Inr (s\<lparr>buff := b, app := a, port := p, state := START_BYTE\<rparr>) \<and>
     spi_wf p \<and> txBufferLen p = 0 \<and> miso p = miso (port s) @ st # take (unat (txDataLength m)) b"
proof -
  have "tx_content (port s) = []" using wf(2) by (simp add: tx_content_def)
  with writeResponse_ok [OF wf(1), of "txDataLength m" b st] assms obtain p where
    "writeResponse st b (txDataLength m) (port s) = Inr (WR_OK, p)" "spi_wf p" "txBufferLen p = 0"
    "miso p = miso (port s) @ st # take (unat (txDataLength m)) b" by auto
  with cb show ?thesis by (auto simp: answer_def)
qed

lemma frame_answered:
  assumes r: "ready (1 + unat (txDataLength m)) s" and len: "length msgResp = 11"
    and mt: "unat mt < 11" "mt \<noteq> BOOT_MSG \<or> ds \<noteq> []"
    and m: "msgResp ! unat mt = m" "callback m = Some cb" "unat (rxDataLength m) = length ds"
    and tx: "unat (txDataLength m) < 255"
    and cb: "cb (ds @ drop (length ds) (buff s)) (app s) = Inr (st, b, a)" "length b = 256"
  shows "\<exists>s'. foldE (runCommsFSM msgResp) (COMMS_START_BYTE # mt # ds) s = Inr s' \<and>
     ready 0 s' \<and> app s' = a \<and> buff s' = b \<and>
     miso (port s') = miso (port s) @ st # take (unat (txDataLength m)) b"
proof -
  define t where "t = after_frame m mt ds s"
  have t: "spi_wf (port t)" "txBufferLen (port t) = 0" "irqs (port t) = irqs (port s)"
    "miso (port t) = miso (port s)" "app t = app s" "buff t = ds @ drop (length ds) (buff s)"
    using r by (simp_all add: t_def after_frame_def ready_def clearSPIInt_def spi_wf_def)
  have "foldE (runCommsFSM msgResp) (COMMS_START_BYTE # mt # ds) s = answer m cb t"
    unfolding t_def by (rule frame_runs_callback) (use r len mt m in \<open>auto simp: ready_def\<close>)
  with answer_ok [OF t(1,2), of m cb st b a] t r tx cb show ?thesis
    by (auto simp: ready_def)
qed

lemma message_answered:
  assumes "ready n s" "length msgResp = 11"
    and "msgResp ! unat mt = msg rx tx (Some cb)" "unat mt < 11" "mt \<noteq> BOOT_MSG \<or> ds \<noteq> []"
    and "unat rx = length ds" "n = 1 + unat tx" "unat tx < 255"
    and "cb (ds @ drop (length ds) (buff s)) (app s) = Inr (st, b, a)" "length b = 256"
  obtains s' where "foldE (runCommsFSM msgResp) (COMMS_START_BYTE # mt # ds) s = Inr s'"
    "ready 0 s'" "app s' = a" "buff s' = b" "miso (port s') = miso (port s) @ st # take (unat tx) b"
  using assms frame_answered [of "msg rx tx (Some cb)" s msgResp mt ds cb st b a] by auto

end
