(* ===== verification/Mmio.thy ===== *)
theory Mmio
  imports Prelude
begin

text \<open>
  Memory-mapped registers of the submodule processors and the GPIO functions of the vendor library
  the firmware calls (\<^verbatim>\<open>slave_lib/libraries/STM32F0xx_HAL_Driver/src/stm32f0xx_hal_gpio.c\<close>). A register
  file maps every register to its 32-bit value; a store to \<^verbatim>\<open>BSRR\<close> or \<^verbatim>\<open>BRR\<close> of a port acts on its
  output register, as the reference manual of the processor says.
\<close>

section \<open>Registers\<close>

datatype gport = GPIOA | GPIOB | GPIOC | GPIOD | GPIOE | GPIOF
datatype gpio_reg = MODER | OTYPER | OSPEEDR | PUPDR | IDR | ODR | AFRL | AFRH
datatype timer = TIM1 | TIM2 | TIM3 | TIM4 | TIM9 | TIM16 | TIM17
datatype tim_reg = CR1 | DIER | SR | CCMR1 | CCMR2 | CCER | PSC | ARR | CCR1 | CCR2 | CCR3 | CCR4 | BDTR
datatype rcc_reg = AHBENR | AHB1ENR | APB1ENR | APB2ENR | CSR
datatype exti_reg = IMR | EMR | RTSR | FTSR

datatype reg =
    Gpio gport gpio_reg
  | Tim timer tim_reg
  | Rcc rcc_reg
  | Exti exti_reg
  | Exticr nat
  | NvicEnabled

type_synonym regs = "reg \<Rightarrow> u32"

definition set_bits :: "reg \<Rightarrow> u32 \<Rightarrow> regs \<Rightarrow> regs" where
  "set_bits r m f = f(r := f r OR m)"

definition clear_bits :: "reg \<Rightarrow> u32 \<Rightarrow> regs \<Rightarrow> regs" where
  "clear_bits r m f = f(r := f r AND NOT m)"

text \<open>\<^verbatim>\<open>CLEAR_BIT(temp, m); SET_BIT(temp, v);\<close> and the store back.\<close>

definition set_field :: "reg \<Rightarrow> u32 \<Rightarrow> u32 \<Rightarrow> regs \<Rightarrow> regs" where
  "set_field r m v f = f(r := (f r AND NOT m) OR v)"

lemma set_bits_apply [simp]: "set_bits r m f x = (if x = r then f r OR m else f x)"
  by (simp add: set_bits_def)

lemma clear_bits_apply [simp]: "clear_bits r m f x = (if x = r then f r AND NOT m else f x)"
  by (simp add: clear_bits_def)

lemma set_field_apply [simp]: "set_field r m v f x = (if x = r then (f r AND NOT m) OR v else f x)"
  by (simp add: set_field_def)

section \<open>GPIO functions of the vendor library\<close>

record GPIO_InitTypeDef =
  Pin :: u32
  Mode :: u32
  Pull :: u32
  Speed :: u32
  Alternate :: u32

definition GPIO_MODE_INPUT :: u32 where "GPIO_MODE_INPUT = 0x00"
definition GPIO_MODE_OUTPUT_PP :: u32 where "GPIO_MODE_OUTPUT_PP = 0x01"
definition GPIO_MODE_OUTPUT_OD :: u32 where "GPIO_MODE_OUTPUT_OD = 0x11"
definition GPIO_MODE_AF_PP :: u32 where "GPIO_MODE_AF_PP = 0x02"
definition GPIO_MODE_AF_OD :: u32 where "GPIO_MODE_AF_OD = 0x12"
definition GPIO_MODE_ANALOG :: u32 where "GPIO_MODE_ANALOG = 0x03"

lemmas gpio_modes = GPIO_MODE_INPUT_def GPIO_MODE_OUTPUT_PP_def GPIO_MODE_OUTPUT_OD_def
  GPIO_MODE_AF_PP_def GPIO_MODE_AF_OD_def GPIO_MODE_ANALOG_def

definition GPIO_PIN :: "nat \<Rightarrow> u32" where "GPIO_PIN n = push_bit n 1"

lemma bit_GPIO_PIN: "bit (GPIO_PIN k) n \<longleftrightarrow> n = k \<and> n < 32"
  by (auto simp: GPIO_PIN_def bit_simps)

fun GPIO_GET_INDEX :: "gport \<Rightarrow> u32" where
  "GPIO_GET_INDEX GPIOA = 0"
| "GPIO_GET_INDEX GPIOB = 1"
| "GPIO_GET_INDEX GPIOC = 2"
| "GPIO_GET_INDEX _ = 5"

definition gpio_exti :: "gport \<Rightarrow> GPIO_InitTypeDef \<Rightarrow> nat \<Rightarrow> regs \<Rightarrow> regs" where
  "gpio_exti port ini position f =
     (let iocurrent = Pin ini AND push_bit position 1;
          line = (\<lambda>r on f. set_field r iocurrent (if on then iocurrent else 0) f)
      in
      line (Exti FTSR) (Mode ini AND 0x00200000 = 0x00200000)
      (line (Exti RTSR) (Mode ini AND 0x00100000 = 0x00100000)
      (line (Exti EMR) (Mode ini AND 0x00020000 = 0x00020000)
      (line (Exti IMR) (Mode ini AND 0x00010000 = 0x00010000)
      (set_field (Exticr (position div 4)) (push_bit (4 * (position mod 4)) 0xF)
         (push_bit (4 * (position mod 4)) (GPIO_GET_INDEX port))
      (set_bits (Rcc APB2ENR) 1 f))))))"

definition gpio_one :: "gport \<Rightarrow> GPIO_InitTypeDef \<Rightarrow> nat \<Rightarrow> regs \<Rightarrow> regs" where
  "gpio_one port ini position f =
     (let af = (Mode ini = GPIO_MODE_AF_PP \<or> Mode ini = GPIO_MODE_AF_OD);
          out = (Mode ini = GPIO_MODE_OUTPUT_PP \<or> Mode ini = GPIO_MODE_AF_PP \<or>
                 Mode ini = GPIO_MODE_OUTPUT_OD \<or> Mode ini = GPIO_MODE_AF_OD);
          f = (if af then set_field (Gpio port (if position < 8 then AFRL else AFRH))
                            (push_bit (position mod 8 * 4) 0xF)
                            (push_bit (position mod 8 * 4) (Alternate ini)) f
               else f);
          f = set_field (Gpio port MODER) (push_bit (position * 2) 3)
                (push_bit (position * 2) (Mode ini AND 3)) f;
          f = (if out then
                 set_field (Gpio port OTYPER) (push_bit position 1)
                   (push_bit position (drop_bit 4 (Mode ini AND 0x10)))
                   (set_field (Gpio port OSPEEDR) (push_bit (position * 2) 3)
                      (push_bit (position * 2) (Speed ini)) f)
               else f);
          f = set_field (Gpio port PUPDR) (push_bit (position * 2) 3)
                (push_bit (position * 2) (Pull ini)) f
      in if Mode ini AND 0x10000000 = 0x10000000 then gpio_exti port ini position f else f)"

function gpio_loop :: "gport \<Rightarrow> GPIO_InitTypeDef \<Rightarrow> nat \<Rightarrow> regs \<Rightarrow> regs" where
  "gpio_loop port ini position f =
     (if drop_bit position (Pin ini) \<noteq> 0 then
        gpio_loop port ini (position + 1)
          (if Pin ini AND push_bit position 1 \<noteq> 0 then gpio_one port ini position f else f)
      else f)"
  by pat_completeness auto
termination
proof (relation "measure (\<lambda>(port, ini, position, f). 32 - position)")
  fix ini :: GPIO_InitTypeDef and position :: nat
  assume "drop_bit position (Pin ini) \<noteq> 0"
  moreover have "drop_bit position (Pin ini) = 0" if "32 \<le> position"
    using that by (intro bit_word_eqI) (auto simp: bit_simps)
  ultimately have "position < 32" by (meson not_le)
  then show "\<And>port f. ((port, ini, position + 1,
      if Pin ini AND push_bit position 1 \<noteq> 0 then gpio_one port ini position f else f),
      port, ini, position, f) \<in> measure (\<lambda>(port, ini, position, f). 32 - position)"
    by simp
qed simp

declare gpio_loop.simps [simp del]

definition HAL_GPIO_Init :: "gport \<Rightarrow> GPIO_InitTypeDef \<Rightarrow> regs \<Rightarrow> regs" where
  "HAL_GPIO_Init port ini f = gpio_loop port ini 0 f"

definition HAL_GPIO_ReadPin :: "gport \<Rightarrow> u32 \<Rightarrow> regs \<Rightarrow> bool" where
  "HAL_GPIO_ReadPin port pins f = (f (Gpio port IDR) AND pins \<noteq> 0)"

definition HAL_GPIO_WritePin :: "gport \<Rightarrow> u32 \<Rightarrow> bool \<Rightarrow> regs \<Rightarrow> regs" where
  "HAL_GPIO_WritePin port pins on f =
     (if on then set_bits (Gpio port ODR) pins f else clear_bits (Gpio port ODR) pins f)"

definition HAL_GPIO_TogglePin :: "gport \<Rightarrow> u32 \<Rightarrow> regs \<Rightarrow> regs" where
  "HAL_GPIO_TogglePin port pins f = f(Gpio port ODR := f (Gpio port ODR) XOR pins)"

section \<open>What the initialisation of pins does\<close>

text \<open>A register the configuration of pins never writes.\<close>

definition pin_config :: "gport \<Rightarrow> reg \<Rightarrow> bool" where
  "pin_config port r \<longleftrightarrow> (case r of
     Gpio p g \<Rightarrow> p = port \<and> g \<in> {MODER, OTYPER, OSPEEDR, PUPDR, AFRL, AFRH}
   | Tim _ _ \<Rightarrow> False
   | Rcc c \<Rightarrow> c = APB2ENR
   | Exti _ \<Rightarrow> True
   | Exticr _ \<Rightarrow> True
   | NvicEnabled \<Rightarrow> False)"

lemma not_pin_config:
  assumes "\<not> pin_config port r"
  shows "r \<noteq> Gpio port MODER" "r \<noteq> Gpio port OTYPER" "r \<noteq> Gpio port OSPEEDR" "r \<noteq> Gpio port PUPDR"
    "r \<noteq> Gpio port AFRL" "r \<noteq> Gpio port AFRH" "r \<noteq> Rcc APB2ENR" "r \<noteq> Exti e" "r \<noteq> Exticr n"
  using assms by (auto simp: pin_config_def)

lemma if_fun_apply: "(if c then g else h) x = (if c then g x else h x)"
  by simp

lemma gpio_exti_frame: "\<not> pin_config port r \<Longrightarrow> gpio_exti port ini pos f r = f r"
  by (simp add: gpio_exti_def Let_def not_pin_config)

lemma gpio_one_frame: "\<not> pin_config port r \<Longrightarrow> gpio_one port ini pos f r = f r"
  by (simp add: gpio_one_def gpio_exti_frame Let_def not_pin_config if_fun_apply)

lemma gpio_loop_frame: "\<not> pin_config port r \<Longrightarrow> gpio_loop port ini pos f r = f r"
proof (induction port ini pos f rule: gpio_loop.induct)
  case (1 port ini pos f)
  show ?case
  proof (cases "drop_bit pos (Pin ini) = 0")
    case True
    then show ?thesis by (subst gpio_loop.simps) simp
  next
    case False
    from False have "gpio_loop port ini pos f r =
        (if Pin ini AND push_bit pos 1 \<noteq> 0 then gpio_one port ini pos f else f) r"
      using "1.IH" [OF False "1.prems"] by (subst gpio_loop.simps) (simp only: if_True not_False_eq_True)
    also have "\<dots> = f r" by (simp only: if_fun_apply gpio_one_frame [OF "1.prems"] if_cancel)
    finally show ?thesis .
  qed
qed

lemma HAL_GPIO_Init_frame [simp]: "\<not> pin_config port r \<Longrightarrow> HAL_GPIO_Init port ini f r = f r"
  by (simp add: HAL_GPIO_Init_def gpio_loop_frame)

lemma gpio_one_MODER:
  "gpio_one port ini pos f (Gpio port MODER) =
     (f (Gpio port MODER) AND NOT (push_bit (pos * 2) 3)) OR push_bit (pos * 2) (Mode ini AND 3)"
  by (simp add: gpio_one_def gpio_exti_def Let_def)

lemma bit_3: "bit (3 :: int) n \<longleftrightarrow> n < 2"
proof -
  have "(3 :: int) = mask 2" by (simp add: mask_eq_exp_minus_1)
  then show ?thesis by (simp only: bit_mask_iff possible_bit_int) simp
qed

lemma bit_field:
  assumes "q < 16" "j < 2"
  shows "bit ((x AND NOT (push_bit (pos * 2) 3)) OR push_bit (pos * 2) (m AND 3) :: u32) (2 * q + j) =
    (if q = pos then bit m j else bit x (2 * q + j))"
  using assms by (cases "q < pos") (auto simp: bit_simps bit_3)

lemma gpio_loop_MODER:
  assumes "q < 16" "j < 2"
  shows "bit (gpio_loop port ini pos f (Gpio port MODER)) (2 * q + j) =
    (if pos \<le> q \<and> bit (Pin ini) q then bit (Mode ini) j else bit (f (Gpio port MODER)) (2 * q + j))"
proof (induction port ini pos f rule: gpio_loop.induct)
  case (1 port ini pos f)
  show ?case
  proof (cases "drop_bit pos (Pin ini) = 0")
    case True
    have "\<not> bit (Pin ini) q" if "pos \<le> q"
    proof -
      have "bit (Pin ini) q = bit (drop_bit pos (Pin ini)) (q - pos)"
        using that by (simp add: bit_drop_bit_eq)
      with True show ?thesis by simp
    qed
    with True show ?thesis by (subst gpio_loop.simps) auto
  next
    case False
    define g where "g = (if Pin ini AND push_bit pos 1 \<noteq> 0 then gpio_one port ini pos f else f)"
    have g: "bit (g (Gpio port MODER)) (2 * q + j) =
        (if q = pos \<and> bit (Pin ini) q then bit (Mode ini) j else bit (f (Gpio port MODER)) (2 * q + j))"
    proof (cases "bit (Pin ini) pos")
      case True
      then have "g = gpio_one port ini pos f" unfolding g_def and_push_bit_1 by (simp only: if_True)
      with True show ?thesis by (simp only: gpio_one_MODER bit_field [OF assms]) auto
    next
      case False
      then have "g = f" unfolding g_def and_push_bit_1 by (simp only: if_False)
      with False show ?thesis by auto
    qed
    have "gpio_loop port ini pos f = gpio_loop port ini (pos + 1) g"
      using False by (subst gpio_loop.simps) (simp only: g_def if_True not_False_eq_True)
    with "1.IH" [OF False, folded g_def] g show ?thesis by auto
  qed
qed

text \<open>
  \<^verbatim>\<open>HAL_GPIO_Init\<close> sets the direction of exactly the pins of its argument: in the mode register
  of the port, the two bits of each selected pin become the mode, those of every other pin stay.
\<close>

theorem HAL_GPIO_Init_sets_selected_pins:
  assumes "q < 16" "j < 2"
  shows "bit (HAL_GPIO_Init port ini f (Gpio port MODER)) (2 * q + j) =
    (if bit (Pin ini) q then bit (Mode ini) j else bit (f (Gpio port MODER)) (2 * q + j))"
  unfolding HAL_GPIO_Init_def by (simp add: gpio_loop_MODER [OF assms])

theorem HAL_GPIO_Init_sets_selected_pins_witness:
  "bit (HAL_GPIO_Init GPIOA \<lparr>Pin = 6, Mode = GPIO_MODE_OUTPUT_PP, Pull = 0, Speed = 0, Alternate = 0\<rparr>
     (\<lambda>r. 0) (Gpio GPIOA MODER)) 2"
  using HAL_GPIO_Init_sets_selected_pins [of 1 0 GPIOA
      "\<lparr>Pin = 6, Mode = GPIO_MODE_OUTPUT_PP, Pull = 0, Speed = 0, Alternate = 0\<rparr>" "\<lambda>r. 0"]
  by (simp add: GPIO_MODE_OUTPUT_PP_def bit_simps)

end
