(* ===== verification/Apollo.thy ===== *)
theory Apollo
  imports SlaveComms Mmio
begin

text \<open>
  Apollo, the lights submodule: the drivers of \<^verbatim>\<open>apollo/drivers/lights.c\<close> and the message table of
  \<^verbatim>\<open>apollo/drivers/comms.c\<close>. The state of the application is the register file. Zeus
  (\<^verbatim>\<open>zeus/drivers/comms.c\<close>), whose application has no state and only answers status requests, is at
  the end.
\<close>

section \<open>Lights\<close>

definition arr :: "u16 list" where
  "arr = [
    0, 94, 188, 282, 376, 470, 564, 658, 752, 847, 941, 1035,
    1129, 1223, 1317, 1411, 1505, 1600, 1694, 1788, 1882, 1976, 2070, 2164,
    2258, 2352, 2447, 2541, 2635, 2729, 2823, 2917, 3011, 3105, 3200, 3294,
    3388, 3482, 3576, 3670, 3764, 3858, 3952, 4047, 4141, 4235, 4329, 4423,
    4517, 4611, 4705, 4800, 4894, 4988, 5082, 5176, 5270, 5364, 5458, 5552,
    5647, 5741, 5835, 5929, 6023, 6117, 6211, 6305, 6400, 6494, 6588, 6682,
    6776, 6870, 6964, 7058, 7152, 7247, 7341, 7435, 7529, 7623, 7717, 7811,
    7905, 8000, 8094, 8188, 8282, 8376, 8470, 8564, 8658, 8752, 8847, 8941,
    9035, 9129, 9223, 9317, 9411, 9505, 9600, 9694, 9788, 9882, 9976, 10070,
    10164, 10258, 10352, 10447, 10541, 10635, 10729, 10823, 10917, 11011, 11105, 11200,
    11294, 11388, 11482, 11576, 11670, 11764, 11858, 11952, 12047, 12141, 12235, 12329,
    12423, 12517, 12611, 12705, 12800, 12894, 12988, 13082, 13176, 13270, 13364, 13458,
    13552, 13647, 13741, 13835, 13929, 14023, 14117, 14211, 14305, 14400, 14494, 14588,
    14682, 14776, 14870, 14964, 15058, 15152, 15247, 15341, 15435, 15529, 15623, 15717,
    15811, 15905, 16000, 16094, 16188, 16282, 16376, 16470, 16564, 16658, 16752, 16847,
    16941, 17035, 17129, 17223, 17317, 17411, 17505, 17600, 17694, 17788, 17882, 17976,
    18070, 18164, 18258, 18352, 18447, 18541, 18635, 18729, 18823, 18917, 19011, 19105,
    19200, 19294, 19388, 19482, 19576, 19670, 19764, 19858, 19952, 20047, 20141, 20235,
    20329, 20423, 20517, 20611, 20705, 20800, 20894, 20988, 21082, 21176, 21270, 21364,
    21458, 21552, 21647, 21741, 21835, 21929, 22023, 22117, 22211, 22305, 22400, 22494,
    22588, 22682, 22776, 22870, 22964, 23058, 23152, 23247, 23341, 23435, 23529, 23623,
    23717, 23811, 23905, 24000]"

definition TURN_SIGNAL_L :: u32 where "TURN_SIGNAL_L = GPIO_PIN 2"
definition TURN_SIGNAL_R :: u32 where "TURN_SIGNAL_R = GPIO_PIN 1"

definition gpio_cfg :: "u32 \<Rightarrow> u32 \<Rightarrow> u32 \<Rightarrow> GPIO_InitTypeDef" where
  "gpio_cfg pin mode alt = \<lparr>Pin = pin, Mode = mode, Pull = 0, Speed = 0, Alternate = alt\<rparr>"

text \<open>The timer part of \<^verbatim>\<open>init_Timer\<close>: clocks, PWM mode 2 on all used channels, period and compare values.\<close>

definition init_Timer_tim :: "regs \<Rightarrow> regs" where
  "init_Timer_tim f =
     (let f = set_bits (Rcc AHBENR) 0x00020000 f;
          f = set_bits (Rcc AHBENR) 0x00040000 f;
          f = set_bits (Rcc APB1ENR) 0x00000001 f;
          f = f(Tim TIM2 CCMR1 := (0x40 OR 0x20 OR 0x10) OR (0x4000 OR 0x2000 OR 0x1000));
          f = f(Tim TIM2 CCMR2 := 0x40 OR 0x20 OR 0x10);
          f = f(Tim TIM2 CCER := 0x100 OR 0x10 OR 0x1);
          f = f(Tim TIM2 CR1 := 1);
          f = f(Tim TIM2 ARR := 24000, Tim TIM2 CCR1 := 24000, Tim TIM2 CCR2 := 24000);
          f = set_bits (Rcc APB1ENR) 0x00000002 f;
          f = f(Tim TIM3 CCMR1 := (0x40 OR 0x20 OR 0x10) OR (0x4000 OR 0x2000 OR 0x1000));
          f = f(Tim TIM3 CCER := 0x10 OR 0x1);
          f = f(Tim TIM3 CR1 := 1);
          f = f(Tim TIM3 ARR := 24000, Tim TIM3 CCR1 := 24000, Tim TIM3 CCR2 := 24000);
          f = set_bits (Rcc APB2ENR) 0x00020000 f;
          f = f(Tim TIM16 CCMR1 := 0x40 OR 0x20 OR 0x10);
          f = f(Tim TIM16 BDTR := 0x8000);
          f = f(Tim TIM16 CCER := 0x1 OR 0x4);
          f = f(Tim TIM16 CR1 := 1);
          f = f(Tim TIM16 ARR := 24000, Tim TIM16 CCR1 := 24000);
          f = set_bits (Rcc APB2ENR) 0x00040000 f;
          f = f(Tim TIM17 CCMR1 := 0x40 OR 0x20 OR 0x10);
          f = f(Tim TIM17 BDTR := 0x8000);
          f = f(Tim TIM17 CCER := 0x1 OR 0x4);
          f = f(Tim TIM17 CR1 := 1)
      in f(Tim TIM17 ARR := 24000, Tim TIM17 CCR1 := 24000))"

text \<open>
  The pin part. The structure is not cleared between the calls: the turn signals get the alternate
  function of the previous pin, which the output mode does not use.
\<close>

definition init_Timer_pins :: "regs \<Rightarrow> regs" where
  "init_Timer_pins f =
     (let f = HAL_GPIO_Init GPIOA (gpio_cfg (GPIO_PIN 0) GPIO_MODE_AF_PP 2) f;
          f = HAL_GPIO_Init GPIOA (gpio_cfg (GPIO_PIN 15) GPIO_MODE_AF_PP 2) f;
          f = HAL_GPIO_Init GPIOB (gpio_cfg (GPIO_PIN 3) GPIO_MODE_AF_PP 2) f;
          f = HAL_GPIO_Init GPIOB (gpio_cfg (GPIO_PIN 4 OR GPIO_PIN 5) GPIO_MODE_AF_PP 1) f;
          f = HAL_GPIO_Init GPIOB (gpio_cfg (GPIO_PIN 6) GPIO_MODE_AF_PP 2) f;
          f = HAL_GPIO_Init GPIOB (gpio_cfg (GPIO_PIN 7) GPIO_MODE_AF_PP 2) f;
          f = HAL_GPIO_Init GPIOA (gpio_cfg (TURN_SIGNAL_L OR TURN_SIGNAL_R) GPIO_MODE_OUTPUT_PP 2) f
      in clear_bits (Gpio GPIOA ODR) (TURN_SIGNAL_L OR TURN_SIGNAL_R) f)"

definition init_apollo :: "regs \<Rightarrow> regs" where
  "init_apollo f = init_Timer_pins (init_Timer_tim f)"

definition set_turn_signal :: "u8 \<Rightarrow> regs \<Rightarrow> regs" where
  "set_turn_signal st f =
     (let f = (if st AND 0x01 \<noteq> 0 then set_bits (Gpio GPIOA ODR) TURN_SIGNAL_R f
               else clear_bits (Gpio GPIOA ODR) TURN_SIGNAL_R f)
      in if st AND 0x02 \<noteq> 0 then set_bits (Gpio GPIOA ODR) TURN_SIGNAL_L f
         else clear_bits (Gpio GPIOA ODR) TURN_SIGNAL_L f)"

definition set_headlights :: "u8 \<Rightarrow> regs \<Rightarrow> regs cres" where
  "set_headlights speed f = bindE (rd arr (unat speed)) (\<lambda>v. Inr (f(Tim TIM2 CCR1 := ucast v)))"

definition set_misc_lights :: "u8 \<Rightarrow> u8 \<Rightarrow> regs \<Rightarrow> regs cres" where
  "set_misc_lights light speed f =
     (if light = 0 then bindE (rd arr (unat speed)) (\<lambda>v. Inr (f(Tim TIM2 CCR1 := ucast v)))
      else if light = 1 then bindE (rd arr (unat speed)) (\<lambda>v. Inr (f(Tim TIM2 CCR2 := ucast v)))
      else if light = 2 then bindE (rd arr (unat speed)) (\<lambda>v. Inr (f(Tim TIM3 CCR1 := ucast v)))
      else if light = 3 then bindE (rd arr (unat speed)) (\<lambda>v. Inr (f(Tim TIM3 CCR2 := ucast v)))
      else if light = 4 then bindE (rd arr (255 - unat speed)) (\<lambda>v. Inr (f(Tim TIM16 CCR1 := ucast v)))
      else if light = 5 then bindE (rd arr (255 - unat speed)) (\<lambda>v. Inr (f(Tim TIM17 CCR1 := ucast v)))
      else Inr f)"

section \<open>Messages\<close>

definition get_status_callback :: "'a callback_t" where
  "get_status_callback data a = Inr (WR_OK, data, a)"

definition set_turn_signal_callback :: "regs callback_t" where
  "set_turn_signal_callback data f =
     bindE (ckd (rd data 0)) (\<lambda>b. Inr (WR_OK, data, set_turn_signal b f))"

definition set_headlights_callback :: "regs callback_t" where
  "set_headlights_callback data f =
     bindE (ckd (rd data 0)) (\<lambda>b. bindE (ckd (set_headlights b f)) (\<lambda>f. Inr (WR_OK, data, f)))"

definition set_misc_lights_callback :: "regs callback_t" where
  "set_misc_lights_callback data f =
     bindE (ckd (rd data 0)) (\<lambda>l. bindE (ckd (rd data 1)) (\<lambda>b.
     bindE (ckd (set_misc_lights l b f)) (\<lambda>f. Inr (WR_OK, data, f))))"

definition apollo_msgResp :: "regs msgInfo_t list" where
  "apollo_msgResp = [
     msg 0 0 (Some get_status_callback),
     msg 1 0 (Some set_turn_signal_callback),
     msg 1 0 (Some set_headlights_callback),
     msg 2 0 (Some set_misc_lights_callback),
     msg 0 0 None, msg 0 0 None, msg 0 0 None, msg 0 0 None, msg 0 0 None, msg 0 0 None,
     msg 0 0 (Some bootload)]"

section \<open>The table and the callbacks\<close>

lemma length_arr [simp]: "length arr = 256"
  by (simp add: arr_def)

lemma set_headlights_ok: "set_headlights b f = Inr (f(Tim TIM2 CCR1 := ucast (arr ! unat b)))"
  by (simp add: set_headlights_def)

lemma set_misc_lights_total: "\<exists>f'. set_misc_lights l b f = Inr f'"
  by (simp add: set_misc_lights_def)

lemma callback_ok_status [simp]: "callback_ok app_wf get_status_callback"
  by (simp add: callback_ok_def get_status_callback_def)

lemma apollo_callbacks_ok:
  "callback_ok (\<lambda>_. True) set_turn_signal_callback"
  "callback_ok (\<lambda>_. True) set_headlights_callback"
  by (simp_all add: callback_ok_def set_turn_signal_callback_def set_headlights_callback_def
      set_headlights_ok)

lemma misc_lights_callback_ok: "callback_ok (\<lambda>_. True) set_misc_lights_callback"
proof -
  have "\<exists>f'. set_misc_lights_callback b a = Inr (WR_OK, b, f')" if "length b = 256" for b a
    using that set_misc_lights_total [of "b ! 0" "b ! 1" a]
    by (auto simp: set_misc_lights_callback_def)
  then have "no_fault (set_misc_lights_callback b a) \<and>
      (\<forall>st b' a'. set_misc_lights_callback b a = Inr (st, b', a') \<longrightarrow> length b' = 256)"
    if "length b = 256" for b a
    using that by (metis Inr_inject no_fault_simps(1) prod.inject)
  then show ?thesis by (simp add: callback_ok_def)
qed

interpretation apollo: slave_app "\<lambda>_. True" apollo_msgResp
  by unfold_locales (auto simp: apollo_msgResp_def apollo_callbacks_ok misc_lights_callback_ok)

section \<open>Properties\<close>

lemma arr_nth_eq: "arr = map (\<lambda>i. of_nat (i * 24000 div 255)) [0..<256]"
  by (simp add: arr_def upt_rec [of 0] upt_rec [of "Suc 0"] numeral_2_eq_2 [symmetric] upt_rec_numeral)

lemma unat_arr: "unat (ucast (arr ! unat (b :: u8)) :: u32) = unat b * 24000 div 255"
proof -
  have "unat b * 24000 div 255 \<le> 24000"
    using u8_less_256 [of b] by (simp del: u8_less_256)
  then show ?thesis
    by (simp add: arr_nth_eq unsigned_ucast_eq unat_of_nat take_bit_eq_mod)
qed

lemma set_turn_signal_ODR:
  "bit (set_turn_signal st f (Gpio GPIOA ODR)) n =
     (if n = 1 then bit st 0 else if n = 2 then bit st 1 else bit (f (Gpio GPIOA ODR)) n)"
  by (auto simp: set_turn_signal_def Let_def if_fun_apply TURN_SIGNAL_L_def TURN_SIGNAL_R_def
      bit_simps bit_GPIO_PIN and_1_iff and_2_iff dest: bit_imp_le_length)

lemma apollo_nth:
  "apollo_msgResp ! 1 = msg 1 0 (Some set_turn_signal_callback)"
  "apollo_msgResp ! 2 = msg 1 0 (Some set_headlights_callback)"
  "apollo_msgResp ! 3 = msg 2 0 (Some set_misc_lights_callback)"
  by (simp_all add: apollo_msgResp_def)

text \<open>
  C35. Message 1 sets both turn signals and nothing else: after the frame, pin PA1 of the output
  register is bit 0 of the argument, PA2 is bit 1, the other pins are unchanged, and the answer on
  the wire is \<^verbatim>\<open>WR_OK\<close>.
\<close>

theorem apollo_turn_signal_message:
  assumes "ready 1 s"
  shows "\<exists>s'. foldE (runCommsFSM apollo_msgResp) [COMMS_START_BYTE, 1, st] s = Inr s' \<and>
     ready 0 s' \<and> miso (port s') = miso (port s) @ [WR_OK] \<and>
     (\<forall>n. bit (app s' (Gpio GPIOA ODR)) n =
        (if n = 1 then bit st 0 else if n = 2 then bit st 1 else bit (app s (Gpio GPIOA ODR)) n)) \<and>
     (\<forall>r. r \<noteq> Gpio GPIOA ODR \<longrightarrow> app s' r = app s r)"
proof -
  have len: "length (buff s) = 256" using assms by (simp add: ready_def)
  have other: "r \<noteq> Gpio GPIOA ODR \<Longrightarrow> set_turn_signal st f r = f r" for f r
    by (simp add: set_turn_signal_def Let_def if_fun_apply)
  obtain s' where "foldE (runCommsFSM apollo_msgResp) [COMMS_START_BYTE, 1, st] s = Inr s'"
    "ready 0 s'" "app s' = set_turn_signal st (app s)" "miso (port s') = miso (port s) @ [WR_OK]"
    by (rule message_answered [OF assms apollo.table_length, of 1 1 0 set_turn_signal_callback "[st]"
          WR_OK "st # drop 1 (buff s)" "set_turn_signal st (app s)"])
      (use len in \<open>simp_all add: apollo_nth [simplified] set_turn_signal_callback_def\<close>)
  then show ?thesis by (auto simp: set_turn_signal_ODR other)
qed

theorem apollo_turn_signal_message_witness:
  "\<exists>s'. foldE (runCommsFSM apollo_msgResp) [COMMS_START_BYTE, 1, 2]
          (slave_start (replicate 1 (None, True)) (\<lambda>r. 0)) = Inr s' \<and>
     miso (port s') = [WR_OK] \<and> bit (app s' (Gpio GPIOA ODR)) 2 \<and> \<not> bit (app s' (Gpio GPIOA ODR)) 1"
proof -
  have "bit (2 :: u8) 1" "\<not> bit (2 :: u8) 0" by (simp_all add: bit_simps)
  with apollo_turn_signal_message [OF ready_start [of 1 None "\<lambda>r. 0"], of 2] show ?thesis
    by (fastforce simp del: One_nat_def)
qed

text \<open>The register of each of the six dimmable lights, and the compare value of a brightness.\<close>

fun light_reg :: "u8 \<Rightarrow> reg" where
  "light_reg l = (if l = 0 then Tim TIM2 CCR1 else if l = 1 then Tim TIM2 CCR2
     else if l = 2 then Tim TIM3 CCR1 else if l = 3 then Tim TIM3 CCR2
     else if l = 4 then Tim TIM16 CCR1 else Tim TIM17 CCR1)"

definition light_value :: "u8 \<Rightarrow> u8 \<Rightarrow> nat" where
  "light_value l b = (if l < 4 then unat b * 24000 div 255 else (255 - unat b) * 24000 div 255)"

lemma arr_inverted: "unat (ucast (arr ! (255 - unat (b :: u8))) :: u32) = (255 - unat b) * 24000 div 255"
proof -
  have "unat (255 - b) = 255 - unat b"
    by (subst unat_sub) (simp_all add: word_le_nat_alt less_Suc_eq_le [symmetric])
  then show ?thesis using unat_arr [of "255 - b"] by simp
qed

lemma u8_cases_6:
  assumes "l < (6 :: u8)"
  shows "l = 0 \<or> l = 1 \<or> l = 2 \<or> l = 3 \<or> l = 4 \<or> l = 5"
proof -
  have "unat l < 6" using assms by (simp add: word_less_nat_alt)
  then have "unat l = 0 \<or> unat l = 1 \<or> unat l = 2 \<or> unat l = 3 \<or> unat l = 4 \<or> unat l = 5" by auto
  then show ?thesis by (simp add: word_unat_eq_iff)
qed

lemma set_misc_lights_value:
  assumes "l < 6"
  shows "\<exists>v. set_misc_lights l b f = Inr (f(light_reg l := v)) \<and> unat v = light_value l b"
  using u8_cases_6 [OF assms] unat_arr [of b] arr_inverted [of b]
  by (intro exI [of _ "ucast (arr ! (if l < 4 then unat b else 255 - unat b))"], elim disjE)
    (simp_all add: set_misc_lights_def light_value_def)

text \<open>
  Message 3 dims one of the six lights: for a light below 6 the compare register of that light
  becomes the brightness scaled from 0..255 to the timer period 0..24000 (inverted for lights 4 and
  5), and no other register changes; a light of 6 or more changes nothing. Both are answered with
  \<^verbatim>\<open>WR_OK\<close>.
\<close>

theorem apollo_misc_light_message:
  assumes "ready 1 s"
  shows "\<exists>s'. foldE (runCommsFSM apollo_msgResp) [COMMS_START_BYTE, 3, l, b] s = Inr s' \<and>
     ready 0 s' \<and> miso (port s') = miso (port s) @ [WR_OK] \<and>
     (\<forall>r. if l < 6 \<and> r = light_reg l then unat (app s' r) = light_value l b
          else app s' r = app s r)"
proof -
  have len: "length (buff s) = 256" using assms by (simp add: ready_def)
  obtain f where f: "set_misc_lights l b (app s) = Inr f"
    "\<forall>r. if l < 6 \<and> r = light_reg l then unat (f r) = light_value l b else f r = app s r"
  proof (cases "l < 6")
    case True
    then show ?thesis using set_misc_lights_value [OF True, of b "app s"] that
      by (auto simp del: light_reg.simps)
  next
    case False
    then have "set_misc_lights l b (app s) = Inr (app s)"
      by (auto simp: set_misc_lights_def)
    with False that show ?thesis by auto
  qed
  obtain s' where "foldE (runCommsFSM apollo_msgResp) [COMMS_START_BYTE, 3, l, b] s = Inr s'"
    "ready 0 s'" "app s' = f" "miso (port s') = miso (port s) @ [WR_OK]"
    by (rule message_answered [OF assms apollo.table_length, of 3 2 0 set_misc_lights_callback "[l, b]"
          WR_OK "l # b # drop (Suc (Suc 0)) (buff s)" f])
      (use len f(1) in \<open>simp_all add: apollo_nth set_misc_lights_callback_def\<close>)
  with f(2) show ?thesis by auto
qed

theorem apollo_misc_light_message_witness:
  "\<exists>s'. foldE (runCommsFSM apollo_msgResp) [COMMS_START_BYTE, 3, 4, 255]
          (slave_start (replicate 1 (None, True)) (\<lambda>r. 7)) = Inr s' \<and>
     miso (port s') = [WR_OK] \<and> unat (app s' (Tim TIM16 CCR1)) = 0 \<and> app s' (Tim TIM17 CCR1) = 7"
  using apollo_misc_light_message [OF ready_start [of 1 None "\<lambda>r. 7"], of 4 255]
  by (elim exE conjE, intro exI conjI) (assumption, simp,
      (drule spec [of _ "Tim TIM16 CCR1"], simp add: light_value_def),
      (drule spec [of _ "Tim TIM17 CCR1"], simp))

text \<open>Initialisation: every lamp at the timer period, both turn signals outputs at low level.\<close>

lemma init_Timer_pins_frame:
  "init_Timer_pins f (Tim t r) = f (Tim t r)"
  by (simp add: init_Timer_pins_def Let_def pin_config_def)

section \<open>Zeus\<close>

definition zeus_msgResp :: "unit msgInfo_t list" where
  "zeus_msgResp = [
     msg 0 0 (Some get_status_callback),
     msg 0 0 None, msg 0 0 None, msg 0 0 None, msg 0 0 None, msg 0 0 None,
     msg 0 0 None, msg 0 0 None, msg 0 0 None, msg 0 0 None,
     msg 0 0 (Some bootload)]"

interpretation zeus: slave_app "\<lambda>_. True" zeus_msgResp
  by unfold_locales (auto simp: zeus_msgResp_def)

end
