(* ===== verification/Janus.thy ===== *)
theory Janus
  imports Apollo
begin

text \<open>
  Janus, the gear selector (forward, neutral, reverse): \<^verbatim>\<open>janus/drivers/fnr.c\<close>, \<^verbatim>\<open>sevenSeg.c\<close>,
  \<^verbatim>\<open>comms.c\<close>, \<^verbatim>\<open>janus/peripherals/gpio.c\<close> and the main loop \<^verbatim>\<open>janus/main.c\<close>. A transfer on the I2C
  bus is an output of the submodule; the record keeps the list of them.
\<close>

section \<open>State\<close>

datatype fnr_t = NEUTRAL | FORWARD | REVERSE | INVALID

fun fnr_code :: "fnr_t \<Rightarrow> u8" where
  "fnr_code NEUTRAL = 0"
| "fnr_code FORWARD = 1"
| "fnr_code REVERSE = 2"
| "fnr_code INVALID = 3"

record janus =
  jregs :: regs
  i2c_log :: "(u8 \<times> u8 list) list"
  currentState :: fnr_t

definition FORWARD_CTRL :: u32 where "FORWARD_CTRL = GPIO_PIN 8"
definition REVERSE_CTRL :: u32 where "REVERSE_CTRL = GPIO_PIN 10"
definition REVERSE_SENSE :: u32 where "REVERSE_SENSE = GPIO_PIN 3"
definition NEUTRAL_SENSE :: u32 where "NEUTRAL_SENSE = GPIO_PIN 4"
definition FORWARD_SENSE :: u32 where "FORWARD_SENSE = GPIO_PIN 5"

section \<open>Gear\<close>

definition getFNR :: "regs \<Rightarrow> fnr_t" where
  "getFNR f =
     (if HAL_GPIO_ReadPin GPIOB FORWARD_SENSE f then FORWARD
      else if HAL_GPIO_ReadPin GPIOB REVERSE_SENSE f then REVERSE
      else if \<not> HAL_GPIO_ReadPin GPIOB NEUTRAL_SENSE f then NEUTRAL
      else INVALID)"

text \<open>
  The writes of \<^verbatim>\<open>setFNR\<close> in order, so that the states between them can be spoken of; \<open>setFNR\<close>
  performs them all.
\<close>

fun setFNR_writes :: "fnr_t \<Rightarrow> (regs \<Rightarrow> regs) list" where
  "setFNR_writes NEUTRAL =
     [HAL_GPIO_WritePin GPIOA FORWARD_CTRL False, HAL_GPIO_WritePin GPIOA REVERSE_CTRL False]"
| "setFNR_writes FORWARD =
     [HAL_GPIO_WritePin GPIOA REVERSE_CTRL False, HAL_GPIO_WritePin GPIOA FORWARD_CTRL True]"
| "setFNR_writes REVERSE =
     [HAL_GPIO_WritePin GPIOA FORWARD_CTRL False, HAL_GPIO_WritePin GPIOA REVERSE_CTRL True]"
| "setFNR_writes INVALID = []"

definition setFNR :: "fnr_t \<Rightarrow> regs \<Rightarrow> regs" where
  "setFNR st f = fold (\<lambda>w f. w f) (setFNR_writes st) f"

section \<open>Display\<close>

definition charToSevenSeg :: "char \<Rightarrow> u8" where
  "charToSevenSeg c =
     (if c = CHR ''0'' then 0x88 else if c = CHR ''1'' then 0xEB else if c = CHR ''2'' then 0x4C
      else if c = CHR ''3'' then 0x49 else if c = CHR ''4'' then 0x2B else if c = CHR ''5'' then 0x19
      else if c = CHR ''6'' then 0x18 else if c = CHR ''7'' then 0x8B else if c = CHR ''8'' then 0x08
      else if c = CHR ''9'' then 0x0B
      else if c = CHR ''A'' \<or> c = CHR ''a'' then 0x0A
      else if c = CHR ''B'' \<or> c = CHR ''b'' then 0x38
      else if c = CHR ''C'' \<or> c = CHR ''c'' then 0x9C
      else if c = CHR ''D'' \<or> c = CHR ''d'' then 0x68
      else if c = CHR ''E'' \<or> c = CHR ''e'' then 0x1C
      else if c = CHR ''F'' \<or> c = CHR ''f'' then 0x1E
      else 0xFF)"

definition MCP23008_ADDR :: u8 where "MCP23008_ADDR = 0x40"
definition REG_GPIO_ADDR :: u8 where "REG_GPIO_ADDR = 0x09"
definition REG_IODIR_ADDR :: u8 where "REG_IODIR_ADDR = 0x00"

definition setSevenSeg :: "char \<Rightarrow> janus \<Rightarrow> janus" where
  "setSevenSeg c j =
     (let segVal = charToSevenSeg c in
      j\<lparr>i2c_log := i2c_log j @ [(MCP23008_ADDR, [REG_IODIR_ADDR, segVal]),
                                 (MCP23008_ADDR, [REG_GPIO_ADDR, segVal])]\<rparr>)"

fun fnr_char :: "fnr_t \<Rightarrow> char" where
  "fnr_char NEUTRAL = CHR ''0''"
| "fnr_char FORWARD = CHR ''1''"
| "fnr_char REVERSE = CHR ''2''"
| "fnr_char INVALID = CHR ''3''"

definition setSevenSegFNR :: "fnr_t \<Rightarrow> janus \<Rightarrow> janus" where
  "setSevenSegFNR st j = setSevenSeg (fnr_char st) j"

section \<open>Messages, initialisation and main loop\<close>

definition set_fnr_callback :: "janus callback_t" where
  "set_fnr_callback data j =
     bindE (ckd (rd data 0)) (\<lambda>d.
     if d \<noteq> fnr_code FORWARD \<and> d \<noteq> fnr_code REVERSE \<and> d \<noteq> fnr_code NEUTRAL
     then Inr (WR_ERR_INV_ARG, data, j)
     else
       let st = (if d = fnr_code FORWARD then FORWARD else if d = fnr_code REVERSE then REVERSE
                 else NEUTRAL)
       in Inr (WR_OK, data, j\<lparr>jregs := setFNR st (jregs j)\<rparr>))"

definition get_fnr_callback :: "janus callback_t" where
  "get_fnr_callback data j =
     bindE (ckd (wr data 0 (fnr_code (getFNR (jregs j))))) (\<lambda>data. Inr (WR_OK, data, j))"

definition janus_msgResp :: "janus msgInfo_t list" where
  "janus_msgResp = [
     msg 0 0 (Some get_status_callback),
     msg 0 1 (Some get_fnr_callback),
     msg 1 0 (Some set_fnr_callback),
     msg 0 0 None, msg 0 0 None, msg 0 0 None, msg 0 0 None, msg 0 0 None, msg 0 0 None, msg 0 0 None,
     msg 0 0 (Some bootload)]"

definition janus_MX_GPIO_Init :: "regs \<Rightarrow> regs" where
  "janus_MX_GPIO_Init f =
     (let f = set_bits (Rcc AHBENR) 0x00020000 f;
          f = set_bits (Rcc AHBENR) 0x00040000 f;
          f = HAL_GPIO_WritePin GPIOA (GPIO_PIN 8 OR GPIO_PIN 10) False f;
          f = HAL_GPIO_Init GPIOA (gpio_cfg (GPIO_PIN 8 OR GPIO_PIN 10) GPIO_MODE_OUTPUT_PP 0) f
      in HAL_GPIO_Init GPIOB (gpio_cfg (GPIO_PIN 3 OR GPIO_PIN 4 OR GPIO_PIN 5) GPIO_MODE_INPUT 0) f)"

text \<open>The part of \<^verbatim>\<open>main\<close> before the loop, and one round of the loop.\<close>

definition janus_start :: "regs \<Rightarrow> janus" where
  "janus_start f =
     setSevenSegFNR NEUTRAL
       \<lparr>jregs = janus_MX_GPIO_Init f, i2c_log = [], currentState = NEUTRAL\<rparr>"

definition janus_display :: "janus \<Rightarrow> janus" where
  "janus_display j =
     (let newState = getFNR (jregs j) in
      if newState \<noteq> currentState j
      then setSevenSegFNR newState (j\<lparr>currentState := newState\<rparr>) else j)"

definition janus_round :: "janus slave \<Rightarrow> janus slave stop + janus slave" where
  "janus_round s =
     bindE (main_round janus_msgResp s) (\<lambda>s. Inr (s\<lparr>app := janus_display (app s)\<rparr>))"

section \<open>The interlock\<close>

text \<open>The two relays of the gear are never on together.\<close>

definition interlocked :: "regs \<Rightarrow> bool" where
  "interlocked f \<longleftrightarrow> \<not> (bit (f (Gpio GPIOA ODR)) 8 \<and> bit (f (Gpio GPIOA ODR)) 10)"

text \<open>The display shows the gear the software believes in.\<close>

definition shows_gear :: "janus \<Rightarrow> bool" where
  "shows_gear j \<longleftrightarrow> i2c_log j \<noteq> [] \<and>
     last (i2c_log j) = (MCP23008_ADDR, [REG_GPIO_ADDR, charToSevenSeg (fnr_char (currentState j))])"

definition janus_ok :: "janus \<Rightarrow> bool" where
  "janus_ok j \<longleftrightarrow> interlocked (jregs j) \<and> shows_gear j"

lemma write_pin_ODR:
  "bit (HAL_GPIO_WritePin p (GPIO_PIN k) on f (Gpio p ODR)) n =
     (if n = k \<and> n < 32 then on else bit (f (Gpio p ODR)) n)"
  by (auto simp: HAL_GPIO_WritePin_def bit_simps bit_GPIO_PIN dest: bit_imp_le_length)

lemma interlocked_writes:
  assumes "interlocked f" "n \<le> length (setFNR_writes st)"
  shows "interlocked (fold (\<lambda>w f. w f) (take n (setFNR_writes st)) f)"
proof -
  have "n = 0 \<or> n = 1 \<or> n = 2" using assms(2) by (cases st) auto
  with assms(1) show ?thesis
    by (cases st) (auto simp: interlocked_def FORWARD_CTRL_def REVERSE_CTRL_def write_pin_ODR)
qed

lemma interlocked_setFNR: "interlocked f \<Longrightarrow> interlocked (setFNR st f)"
  using interlocked_writes [of f "length (setFNR_writes st)" st] by (simp add: setFNR_def)

lemma setFNR_pins:
  assumes "st \<noteq> INVALID"
  shows "bit (setFNR st f (Gpio GPIOA ODR)) 8 \<longleftrightarrow> st = FORWARD"
    "bit (setFNR st f (Gpio GPIOA ODR)) 10 \<longleftrightarrow> st = REVERSE"
  using assms by (cases st; simp add: setFNR_def FORWARD_CTRL_def REVERSE_CTRL_def write_pin_ODR)+

lemma janus_callbacks_ok:
  "callback_ok janus_ok set_fnr_callback" "callback_ok janus_ok get_fnr_callback"
  by (auto simp: callback_ok_def set_fnr_callback_def get_fnr_callback_def janus_ok_def
      shows_gear_def interlocked_setFNR Let_def split: if_splits)

interpretation janus: slave_app janus_ok janus_msgResp
  by unfold_locales (auto simp: janus_msgResp_def janus_callbacks_ok)

lemma janus_ok_start: "janus_ok (janus_start f)"
proof -
  have "interlocked (janus_MX_GPIO_Init f)"
    by (simp add: interlocked_def janus_MX_GPIO_Init_def Let_def pin_config_def
        HAL_GPIO_WritePin_def bit_simps bit_GPIO_PIN)
  then show ?thesis
    by (simp add: janus_ok_def shows_gear_def janus_start_def setSevenSegFNR_def setSevenSeg_def Let_def)
qed

lemma janus_ok_display: "janus_ok j \<Longrightarrow> janus_ok (janus_display j)"
  by (simp add: janus_ok_def shows_gear_def janus_display_def setSevenSegFNR_def setSevenSeg_def Let_def)

section \<open>Runs of the submodule\<close>

text \<open>
  A step is a round of the main loop, an SPI interrupt between two rounds, or a change of the sense
  inputs.
\<close>

inductive janus_step :: "janus slave \<Rightarrow> janus slave \<Rightarrow> bool" where
  step_round: "janus_round s = Inr s' \<Longrightarrow> janus_step s s'"
| step_irq: "SPI1_IRQHandler ev (port s) = Inr p \<Longrightarrow> janus_step s (s\<lparr>port := p\<rparr>)"
| step_sense: "janus_step s (s\<lparr>app := (app s)\<lparr>jregs := (jregs (app s))(Gpio GPIOB IDR := v)\<rparr>\<rparr>)"

inductive janus_reachable :: "janus slave \<Rightarrow> bool" where
  reach_start: "janus_reachable (slave_start evs (janus_start f))"
| reach_step: "janus_reachable s \<Longrightarrow> janus_step s s' \<Longrightarrow> janus_reachable s'"

inductive_cases janus_stepE: "janus_step s s'"

lemma janus_ok_sense: "janus_ok j \<Longrightarrow> janus_ok (j\<lparr>jregs := (jregs j)(Gpio GPIOB IDR := v)\<rparr>)"
  by (simp add: janus_ok_def interlocked_def shows_gear_def)

lemma wf_janus_round: "janus.wf s \<Longrightarrow> janus_round s = Inr s' \<Longrightarrow> janus.wf s'"
  using janus.good_main_round [of s]
  by (auto simp: janus_round_def bindE_eq_Inr janus.good_def janus.wf_def janus.base_def
      janus_ok_display)

lemma wf_janus_step: "janus_step s s' \<Longrightarrow> janus.wf s \<Longrightarrow> janus.wf s'"
proof (induction rule: janus_step.induct)
  case (step_round s s')
  then show ?case using wf_janus_round by blast
next
  case (step_irq ev s p)
  then have "spi_wf (port s)" by (simp add: janus.wf_def janus.base_def)
  with SPI1_IRQHandler_ok [of "port s" ev] step_irq(1) have "spi_wf p" by auto
  with step_irq show ?case by (auto simp: janus.wf_def janus.base_def)
next
  case (step_sense s v)
  then show ?case by (auto simp: janus.wf_def janus.base_def janus_ok_sense)
qed

lemma janus_reachable_wf: "janus_reachable s \<Longrightarrow> janus.wf s"
  by (induction rule: janus_reachable.induct) (auto intro: janus.wf_start janus_ok_start wf_janus_step)

text \<open>
  C3. The gear relays are interlocked: in every reachable state of Janus, whatever bytes the master
  sends and whatever the sense inputs do, the forward and the reverse relay are not on together,
  also between the single writes of \<^verbatim>\<open>setFNR\<close>; the display shows the gear last sensed; and no round
  of the main loop leaves defined behaviour.
\<close>

theorem janus_interlock:
  assumes "janus_reachable s"
  shows "interlocked (jregs (app s)) \<and> shows_gear (app s) \<and> no_fault (janus_round s) \<and>
    (\<forall>st n. n \<le> length (setFNR_writes st) \<longrightarrow>
       interlocked (fold (\<lambda>w f. w f) (take n (setFNR_writes st)) (jregs (app s))))"
proof -
  have wf: "janus.wf s" by (rule janus_reachable_wf [OF assms])
  then have ok: "interlocked (jregs (app s))" "shows_gear (app s)"
    by (simp_all add: janus.wf_def janus.base_def janus_ok_def)
  have "no_fault (janus_round s)"
    using janus.good_main_round [OF wf]
    by (cases "main_round janus_msgResp s") (simp_all add: janus_round_def)
  with ok interlocked_writes show ?thesis by blast
qed

theorem janus_interlock_witness:
  "interlocked (jregs (app (slave_start [] (janus_start (\<lambda>r. 0)))))"
  using janus_interlock [OF reach_start] by blast

text \<open>
  Message 2 selects a gear: the arguments 0, 1 and 2 (neutral, forward, reverse) switch the two
  relays to that gear and are answered with \<^verbatim>\<open>WR_OK\<close>; any other argument is answered with
  \<^verbatim>\<open>WR_ERR_INV_ARG\<close> and changes nothing.
\<close>

lemma janus_set_gear_ok:
  assumes "ready 1 s"
  shows "\<exists>s'. foldE (runCommsFSM janus_msgResp) [COMMS_START_BYTE, 2, d] s = Inr s' \<and> ready 0 s' \<and>
     (if d \<le> 2
      then miso (port s') = miso (port s) @ [WR_OK] \<and>
           (bit (jregs (app s') (Gpio GPIOA ODR)) 8 \<longleftrightarrow> d = fnr_code FORWARD) \<and>
           (bit (jregs (app s') (Gpio GPIOA ODR)) 10 \<longleftrightarrow> d = fnr_code REVERSE)
      else miso (port s') = miso (port s) @ [WR_ERR_INV_ARG] \<and> app s' = app s)"
proof -
  have len: "length (buff s) = 256" using assms by (simp add: ready_def)
  obtain st j where cb: "set_fnr_callback (d # drop 1 (buff s)) (app s) = Inr (st, d # drop 1 (buff s), j)"
    "if d \<le> 2 then st = WR_OK \<and> (bit (jregs j (Gpio GPIOA ODR)) 8 \<longleftrightarrow> d = fnr_code FORWARD) \<and>
       (bit (jregs j (Gpio GPIOA ODR)) 10 \<longleftrightarrow> d = fnr_code REVERSE)
     else st = WR_ERR_INV_ARG \<and> j = app s"
  proof (cases "d \<le> 2")
    case True
    then have "d = 0 \<or> d = 1 \<or> d = 2"
      using u8_cases_6 [of d] by (auto simp: word_le_nat_alt word_less_nat_alt)
    then show ?thesis using that [of WR_OK] by (elim disjE) (simp_all add: set_fnr_callback_def setFNR_pins)
  next
    case False
    then have "d \<noteq> 0" "d \<noteq> 1" "d \<noteq> 2" by auto
    with False that show ?thesis by (simp add: set_fnr_callback_def)
  qed
  obtain s' where "foldE (runCommsFSM janus_msgResp) [COMMS_START_BYTE, 2, d] s = Inr s'"
    "ready 0 s'" "app s' = j" "miso (port s') = miso (port s) @ [st]"
    by (rule message_answered [OF assms janus.table_length, of 2 1 0 set_fnr_callback "[d]"
          st "d # drop 1 (buff s)" j])
      (use len cb(1) in \<open>simp_all add: janus_msgResp_def\<close>)
  with cb(2) show ?thesis by (auto split: if_splits)
qed

end
