(* ===== verification/Hermes.thy ===== *)
theory Hermes
  imports Apollo "HOL-Library.Signed_Division"
begin

text \<open>
  Hermes, the speed submodule: \<^verbatim>\<open>hermes/drivers/speed.c\<close>, \<^verbatim>\<open>throttle.c\<close>, \<^verbatim>\<open>comms.c\<close>,
  \<^verbatim>\<open>hermes/peripherals/gpio.c\<close> and the main loop. A signed 16-bit value is a 16-bit word read with
  \<open>sint\<close>; the 32-bit signed arithmetic of the controller is on integers, with the check that C
  requires of the multiplications that can leave the range of \<^verbatim>\<open>int32_t\<close>. \<^verbatim>\<open>checkTimeout\<close> is
  modelled although the main loop does not call it.
\<close>

section \<open>State\<close>

record hermes =
  ch1Speed :: "u16 list"
  ch1SpeedWr :: nat
  ch1SysCount :: u32
  ch1Count :: u32
  systickCount :: u32
  goalSpeed :: u16
  prevError :: int
  hregs :: regs
  dac_log :: "(u8 \<times> u8 list) list"

definition UM_PER_INT :: u32 where "UM_PER_INT = 1075"
definition CK_FREQ :: u32 where "CK_FREQ = 48000000"
definition MIN_TIMEOUT :: u32 where "MIN_TIMEOUT = 1075"
definition MAX_THROTTLE :: u32 where "MAX_THROTTLE = 4095"
definition MCP4726 :: u8 where "MCP4726 = 0xC6"

section \<open>Speed measurement\<close>

definition diffCountsToSpeedInMMs :: "u32 \<Rightarrow> hermes \<Rightarrow> u16" where
  "diffCountsToSpeedInMMs diffCounts h =
     (let back = HAL_GPIO_ReadPin GPIOA (GPIO_PIN 2) (hregs h) in
      if diffCounts \<noteq> 0 then
        let ckpdiff = (CK_FREQ * 64) div diffCounts;
            v = ucast ((ckpdiff * UM_PER_INT) div 64000)
        in (if back then - v else v)
      else 0)"

text \<open>The capture interrupt: \<open>cc2if\<close> is the flag in \<^verbatim>\<open>TIM2->SR\<close>, \<open>cap\<close> the capture register.\<close>

definition TIM2_IRQHandler :: "bool \<Rightarrow> u32 \<Rightarrow> hermes \<Rightarrow> hermes cres" where
  "TIM2_IRQHandler cc2if cap h =
     (if cc2if then
        let chDiff = (if cap \<ge> ch1Count h then cap - ch1Count h else (0xFFFFFFFF - ch1Count h) + cap);
            h = h\<lparr>ch1Count := cap\<rparr>
        in bindE (wr (ch1Speed h) (ch1SpeedWr h) (diffCountsToSpeedInMMs chDiff h)) (\<lambda>sp.
           Inr (h\<lparr>ch1Speed := sp, ch1SpeedWr := (ch1SpeedWr h + 1) mod 2,
                  ch1SysCount := systickCount h\<rparr>))
      else Inr h)"

definition getSpeed :: "hermes \<Rightarrow> u16 cres" where
  "getSpeed h = rd (ch1Speed h) ((ch1SpeedWr h + 1) mod 2)"

definition checkTimeout :: "hermes \<Rightarrow> hermes cres" where
  "checkTimeout h =
     (let currSystick = systickCount h;
          h = h\<lparr>hregs := clear_bits (Tim TIM2 DIER) 2 (hregs h)\<rparr>
      in bindE (if currSystick > ch1SysCount h + MIN_TIMEOUT then
                  bindE (wr (ch1Speed h) (ch1SpeedWr h) 0) (\<lambda>sp.
                  Inr (h\<lparr>ch1Speed := sp, ch1SpeedWr := (ch1SpeedWr h + 1) mod 2,
                         ch1SysCount := systickCount h\<rparr>))
                else Inr h) (\<lambda>h.
         Inr (h\<lparr>hregs := clear_bits (Tim TIM2 DIER) 2 (hregs h)\<rparr>)))"

section \<open>Throttle\<close>

definition int32 :: "int \<Rightarrow> int cres" where
  "int32 i = (if - 2147483648 \<le> i \<and> i \<le> 2147483647 then Inr i else Inl SignedOverflow)"

definition setThrottle :: "u32 \<Rightarrow> hermes \<Rightarrow> hermes" where
  "setThrottle mms h = h\<lparr>goalSpeed := ucast mms\<rparr>"

definition next_speed :: "int \<Rightarrow> int \<Rightarrow> int \<Rightarrow> int" where
  "next_speed goal cur prev =
     (let error = goal - cur; dError = prev - error in
      cur + ((125 * error) sdiv 100 - (875 * dError) sdiv 100))"

definition dac_bytes :: "u32 \<Rightarrow> u8 list" where
  "dac_bytes dacout = [ucast (drop_bit 8 dacout) AND 0x0F, ucast dacout]"

definition updateThrottle :: "hermes \<Rightarrow> hermes cres" where
  "updateThrottle h =
     bindE (getSpeed h) (\<lambda>currentSpeed.
     let error = sint (goalSpeed h) - sint currentSpeed;
         nextSpeed = next_speed (sint (goalSpeed h)) (sint currentSpeed) (prevError h);
         h = h\<lparr>prevError := error\<rparr>
     in bindE (int32 (nextSpeed * 0xFFF)) (\<lambda>x.
        let dacout = (of_int x :: u32) div MAX_THROTTLE in
        Inr (h\<lparr>dac_log := dac_log h @ [(MCP4726, dac_bytes dacout)]\<rparr>)))"

section \<open>Messages, interrupts and main loop\<close>

definition get_automan_enabled :: "regs \<Rightarrow> bool" where
  "get_automan_enabled f = (\<not> HAL_GPIO_ReadPin GPIOB (GPIO_PIN 0) f)"

definition EXTI0_1_IRQHandler :: "bool \<Rightarrow> hermes \<Rightarrow> hermes" where
  "EXTI0_1_IRQHandler pending h =
     (if pending
      then h\<lparr>hregs := HAL_GPIO_WritePin GPIOB (GPIO_PIN 7) (get_automan_enabled (hregs h)) (hregs h)\<rparr>
      else h)"

definition get_aman_callback :: "hermes callback_t" where
  "get_aman_callback data h =
     bindE (ckd (wr data 0 (if get_automan_enabled (hregs h) then 1 else 0))) (\<lambda>data.
     Inr (WR_OK, data, h))"

definition get_speed_callback :: "hermes callback_t" where
  "get_speed_callback data h =
     bindE (ckd (getSpeed h)) (\<lambda>speed.
     bindE (ckd (wr data 0 (ucast speed))) (\<lambda>data.
     bindE (ckd (wr data 1 (ucast (drop_bit 8 speed)))) (\<lambda>data.
     Inr (WR_OK, data, h))))"

definition get_pedal_callback :: "hermes callback_t" where
  "get_pedal_callback data h = Inr (WR_OK, data, h)"

definition get_starg_callback :: "hermes callback_t" where
  "get_starg_callback data h = Inr (WR_OK, data, h)"

text \<open>The comparison \<^verbatim>\<open>mms < 0\<close> of the source is on an unsigned value, so it never holds.\<close>

definition set_starg_callback :: "hermes callback_t" where
  "set_starg_callback data h =
     bindE (ckd (rd data 1)) (\<lambda>d1. bindE (ckd (rd data 0)) (\<lambda>d0.
     let mms = (ucast d1 OR push_bit 8 (ucast d0) :: u32);
         mms = (if mms > MAX_THROTTLE then MAX_THROTTLE else mms);
         mms = (if mms < 0 then 0 else mms)
     in Inr (WR_OK, data, setThrottle mms h)))"

definition hermes_msgResp :: "hermes msgInfo_t list" where
  "hermes_msgResp = [
     msg 0 0 (Some get_status_callback),
     msg 0 1 (Some get_aman_callback),
     msg 0 0 (Some get_speed_callback),
     msg 0 0 (Some get_pedal_callback),
     msg 0 2 (Some get_starg_callback),
     msg 2 0 (Some set_starg_callback),
     msg 0 0 None, msg 0 0 None, msg 0 0 None, msg 0 0 None,
     msg 0 0 (Some bootload)]"

definition hermes_round :: "hermes slave \<Rightarrow> hermes slave stop + hermes slave" where
  "hermes_round s =
     bindE (main_round hermes_msgResp s) (\<lambda>s.
     bindE (ckd (updateThrottle (app s))) (\<lambda>h. Inr (s\<lparr>app := h\<rparr>)))"

definition hermes_start :: "regs \<Rightarrow> hermes" where
  "hermes_start f = setThrottle 0 \<lparr>ch1Speed = [0, 0], ch1SpeedWr = 0, ch1SysCount = 0, ch1Count = 0,
     systickCount = 0, goalSpeed = 0, prevError = 0, hregs = f, dac_log = []\<rparr>"

section \<open>Invariant\<close>

definition hermes_ok :: "hermes \<Rightarrow> bool" where
  "hermes_ok h \<longleftrightarrow> length (ch1Speed h) = 2 \<and> ch1SpeedWr h < 2 \<and> goalSpeed h \<le> 4095"

lemma unat_ucast_u32_u16: "unat (ucast (w :: u32) :: u16) = unat w mod 65536"
  by (simp add: unsigned_ucast_eq take_bit_eq_mod)

lemma unat_ucast_u32_u8: "unat (ucast (w :: u32) :: u8) = unat w mod 256"
  by (simp add: unsigned_ucast_eq take_bit_eq_mod)

lemma clamp_goal:
  "unat (goalSpeed (setThrottle (if m > MAX_THROTTLE then MAX_THROTTLE else m) h)) =
     min (unat m) 4095"
  by (simp add: setThrottle_def MAX_THROTTLE_def word_less_nat_alt min_def unat_ucast_u32_u16)

lemma unat_be16: "unat (ucast (d1 :: u8) OR push_bit 8 (ucast (d0 :: u8)) :: u32) = 256 * unat d0 + unat d1"
proof -
  have "(ucast d1 OR push_bit 8 (ucast d0) :: u32) = ucast d1 + push_bit 8 (ucast d0)"
    by (rule disjunctive_add [symmetric]) (auto simp: bit_simps dest!: bit_imp_le_length)
  also have "unat \<dots> = 256 * unat d0 + unat d1"
  proof -
    have p: "unat (push_bit 8 (ucast d0) :: u32) = 256 * unat d0"
      using u8_less_256 [of d0]
      by (simp add: push_bit_eq_mult unat_word_ariths del: u8_less_256)
    have "unat (ucast d1 :: u32) + unat (push_bit 8 (ucast d0) :: u32) < 4294967296"
      using u8_less_256 [of d0] u8_less_256 [of d1] p by (simp del: u8_less_256)
    then show ?thesis using p by (simp add: unat_add_u32)
  qed
  finally show ?thesis .
qed

lemma hermes_callbacks_ok:
  "callback_ok hermes_ok get_aman_callback" "callback_ok hermes_ok get_pedal_callback"
  "callback_ok hermes_ok get_starg_callback"
  by (auto simp: callback_ok_def get_aman_callback_def get_pedal_callback_def get_starg_callback_def)

lemma getSpeed_ok: "hermes_ok h \<Longrightarrow> getSpeed h = Inr (ch1Speed h ! ((ch1SpeedWr h + 1) mod 2))"
  by (simp add: getSpeed_def hermes_ok_def)

lemma set_starg_ok:
  assumes "length b = 256"
  shows "\<exists>h'. set_starg_callback b h = Inr (WR_OK, b, h') \<and>
    h' = h\<lparr>goalSpeed := goalSpeed h'\<rparr> \<and>
    unat (goalSpeed h') = min (256 * unat (b ! 0) + unat (b ! 1)) 4095"
  using assms clamp_goal [of "ucast (b ! 1) OR push_bit 8 (ucast (b ! 0))" h]
  by (simp add: set_starg_callback_def unat_be16 Let_def) (auto simp: setThrottle_def split: if_splits)

lemma hermes_callbacks_ok2:
  "callback_ok hermes_ok get_speed_callback" "callback_ok hermes_ok set_starg_callback"
proof -
  show "callback_ok hermes_ok get_speed_callback"
    by (simp add: callback_ok_def get_speed_callback_def getSpeed_ok)
  have "hermes_ok h'" if "hermes_ok h" "h' = h\<lparr>goalSpeed := goalSpeed h'\<rparr>" "unat (goalSpeed h') = min n 4095"
    for h h' n
  proof -
    have "goalSpeed h' \<le> 4095" using that(3) by (simp add: word_le_nat_alt)
    moreover have "ch1Speed h' = ch1Speed h" "ch1SpeedWr h' = ch1SpeedWr h" by (subst that(2), simp)+
    ultimately show ?thesis using that(1) by (simp add: hermes_ok_def)
  qed
  with set_starg_ok show "callback_ok hermes_ok set_starg_callback"
    unfolding callback_ok_def by (metis Inr_inject no_fault_simps(1) prod.inject)
qed

interpretation hermes: slave_app hermes_ok hermes_msgResp
  by unfold_locales (auto simp: hermes_msgResp_def hermes_callbacks_ok hermes_callbacks_ok2)

section \<open>The controller\<close>

lemma dac_bytes_value:
  "256 * unat (dac_bytes w ! 0) + unat (dac_bytes w ! 1) = unat w mod 4096"
proof -
  have "unat (ucast (drop_bit 8 w) AND 0x0F :: u8) = (unat w div 256) mod 16"
  proof -
    have "(ucast (drop_bit 8 w) AND 0x0F :: u8) = take_bit 4 (ucast (drop_bit 8 w))"
      by (simp add: take_bit_eq_mask mask_eq_exp_minus_1)
    then have "unat (ucast (drop_bit 8 w) AND 0x0F :: u8) = unat (ucast (drop_bit 8 w) :: u8) mod 16"
      by (simp add: take_bit_eq_mod unat_mod)
    also have "\<dots> = (unat w div 256) mod 16"
      by (simp add: unat_ucast_u32_u8 unsigned_drop_bit_eq drop_bit_eq_div mod_mod_cancel unat_div)
    finally show ?thesis .
  qed
  moreover have "256 * (n div 256 mod 16) + n mod 256 = n mod 4096" for n :: nat
    using mod_mult2_eq [of n 256 16] by simp
  ultimately show ?thesis by (simp add: dac_bytes_def unat_ucast_u32_u8)
qed

lemma dac_of_speed:
  assumes "int32 (n * 0xFFF) = Inr x"
  shows "unat ((of_int x :: u32) div MAX_THROTTLE) mod 4096 =
    (if 0 \<le> n then nat n mod 4096 else nat ((256 + n) mod 4096))"
proof -
  have x: "x = n * 4095" "- 2147483648 \<le> n * 4095" "n * 4095 \<le> 2147483647"
    using assms by (auto simp: int32_def split: if_splits)
  show ?thesis
  proof (cases "0 \<le> n")
    case True
    then obtain k where k: "n = int k" by (metis nonneg_int_cases)
    have e: "(of_int x :: u32) = of_nat (k * 4095)" using x(1) k by simp
    have "k * 4095 < 4294967296" using x(3) k by linarith
    then have "unat (of_int x :: u32) = k * 4095" by (simp only: e unat_of_nat_u32)
    with k show ?thesis by (simp add: unat_div MAX_THROTTLE_def)
  next
    case False
    define m where "m = nat (1048832 + n)"
    have m: "n = int m - 1048832" "m < 1048832" using False x(2) by (auto simp: m_def)
    have "(of_int x :: u32) = of_int (x + 4294967296)" by simp
    also have "x + 4294967296 = int (m * 4095 + 256)" using x(1) m by simp
    finally have e: "(of_int x :: u32) = of_nat (m * 4095 + 256)" by (simp only: of_int_of_nat_eq)
    have "m * 4095 + 256 < (4294967296 :: nat)" using m by simp
    then have "unat (of_int x :: u32) = m * 4095 + 256" by (simp only: e unat_of_nat_u32)
    then have "unat ((of_int x :: u32) div MAX_THROTTLE) = m"
      by (simp add: unat_div MAX_THROTTLE_def)
    moreover have "m mod 4096 = nat ((256 + n) mod 4096)"
    proof -
      have "(256 + n) mod 4096 = (int m + (- 256) * 4096) mod 4096" using m by simp
      also have "\<dots> = int m mod 4096" by (rule mod_mult_self1)
      finally show ?thesis by (simp add: nat_mod_distrib)
    qed
    ultimately show ?thesis using False by simp
  qed
qed

text \<open>
  Message 5 sets the speed target: the goal becomes the big-endian argument, clamped to 4095,
  nothing else of the application changes, and the answer is \<^verbatim>\<open>WR_OK\<close>.
\<close>

lemma hermes_set_speed_ok:
  assumes "ready 1 s"
  shows "\<exists>s'. foldE (runCommsFSM hermes_msgResp) [COMMS_START_BYTE, 5, hi, lo] s = Inr s' \<and>
     ready 0 s' \<and> miso (port s') = miso (port s) @ [WR_OK] \<and>
     unat (goalSpeed (app s')) = min (256 * unat hi + unat lo) 4095 \<and>
     app s' = (app s)\<lparr>goalSpeed := goalSpeed (app s')\<rparr>"
proof -
  let ?b = "hi # lo # drop (Suc (Suc 0)) (buff s)"
  have len: "length (buff s) = 256" using assms by (simp add: ready_def)
  then obtain h where h: "set_starg_callback ?b (app s) = Inr (WR_OK, ?b, h)"
    "h = (app s)\<lparr>goalSpeed := goalSpeed h\<rparr>"
    "unat (goalSpeed h) = min (256 * unat hi + unat lo) 4095"
    using set_starg_ok [of ?b "app s"] by auto
  obtain s' where "foldE (runCommsFSM hermes_msgResp) [COMMS_START_BYTE, 5, hi, lo] s = Inr s'"
    "ready 0 s'" "app s' = h" "miso (port s') = miso (port s) @ [WR_OK]"
    by (rule message_answered [OF assms hermes.table_length, of 5 2 0 set_starg_callback "[hi, lo]"
          WR_OK ?b h])
      (use len h(1) in \<open>simp_all add: hermes_msgResp_def\<close>)
  with h(2,3) show ?thesis by metis
qed

section \<open>Properties\<close>



lemma wrap_diff: "(0xFFFFFFFF - c) + cap = cap - c - (1 :: u32)"
  by simp

text \<open>
  C34. The capture interrupt measures: after it, \<^verbatim>\<open>getSpeed\<close> returns the speed of the number of timer
  ticks since the previous capture, one too few when the timer has wrapped in between.
\<close>

theorem hermes_capture_measures:
  assumes "hermes_ok h"
  shows "\<exists>h'. TIM2_IRQHandler True cap h = Inr h' \<and> hermes_ok h' \<and> ch1Count h' = cap \<and>
     getSpeed h' = Inr (diffCountsToSpeedInMMs
       (if ch1Count h \<le> cap then cap - ch1Count h else cap - ch1Count h - 1) h)"
proof -
  have "ch1SpeedWr h = 0 \<or> ch1SpeedWr h = 1" using assms by (auto simp: hermes_ok_def)
  with assms show ?thesis
    by (auto simp: TIM2_IRQHandler_def hermes_ok_def getSpeed_def wrap_diff Let_def
        diffCountsToSpeedInMMs_def)
qed

lemma minus_eq_7: "(- 4294967289 :: u32) = 7"
  by simp

theorem hermes_capture_measures_witness:
  "\<exists>h'. TIM2_IRQHandler True 7 ((hermes_start (\<lambda>r. 0))\<lparr>ch1Count := 0xFFFFFFFF\<rparr>) = Inr h' \<and>
     getSpeed h' = Inr (diffCountsToSpeedInMMs 7 ((hermes_start (\<lambda>r. 0))\<lparr>ch1Count := 0xFFFFFFFF\<rparr>))"
  using hermes_capture_measures [of "(hermes_start (\<lambda>r. 0))\<lparr>ch1Count := 0xFFFFFFFF\<rparr>" 7]
  by (auto simp: hermes_ok_def hermes_start_def setThrottle_def minus_eq_7)

lemma speed_nat_bounds:
  fixes n :: nat
  assumes "1575 \<le> n" "ck = 3072000000 div n" "v = ck * 1075 div 64000"
  shows "ck \<le> 1950476" "v \<le> 32767" "v \<le> 51600000 div n" "51600000 div n \<le> v + 1"
proof -
  have n: "0 < n" using assms(1) by simp
  have "ck \<le> 3072000000 div 1575" unfolding assms(2) by (rule div_le_mono2) (use assms(1) in auto)
  then show ck: "ck \<le> 1950476" by simp
  then show "v \<le> 32767" unfolding assms(3) by linarith
  have cn: "ck * n \<le> 3072000000" unfolding assms(2) by simp
  have cn': "3072000000 < (ck + 1) * n"
    using n unfolding assms(2) by (metis Suc_eq_plus1 dividend_less_div_times mult.commute mult_Suc)
  have v: "v * 64000 \<le> ck * 1075" "ck * 1075 < (v + 1) * 64000" unfolding assms(3) by simp_all
  have "v * 64000 * n \<le> ck * 1075 * n" using v(1) by simp
  also have "\<dots> \<le> 1075 * 3072000000" using cn by simp
  finally have "v * n \<le> 51600000" by (simp add: mult.commute)
  then show "v \<le> 51600000 div n" using n by (simp add: less_eq_div_iff_mult_less_eq mult.commute)
  define q where "q = 51600000 div n"
  have "q * n \<le> 51600000" by (simp add: q_def)
  then have "q * 64000 * n \<le> 1075 * 3072000000" by (simp add: mult.commute)
  also have "\<dots> < 1075 * ((ck + 1) * n)" using cn' by simp
  finally have "q * 64000 * n < 1075 * (ck + 1) * n" by (simp only: mult.assoc)
  then have "q * 64000 < 1075 * (ck + 1)" using n by simp
  with v(2) show "51600000 div n \<le> v + 1" unfolding q_def [symmetric] by simp
qed

text \<open>
  The measured speed is right to 1 mm/s: for at least 1575 timer ticks between two captures
  (up to 32.7 m/s) the magnitude is at most one below the exact \<open>51600000 div d\<close>, and the sign is
  that of the direction input.
\<close>

theorem hermes_speed_accuracy:
  assumes "1575 \<le> d"
  shows "let v = sint (diffCountsToSpeedInMMs d h);
             back = HAL_GPIO_ReadPin GPIOA (GPIO_PIN 2) (hregs h)
    in (if back then v \<le> 0 else 0 \<le> v) \<and>
       nat \<bar>v\<bar> \<le> 51600000 div unat d \<and> 51600000 div unat d \<le> nat \<bar>v\<bar> + 1"
proof -
  define n where "n = unat d"
  define ck where "ck = 3072000000 div n"
  define v where "v = ck * 1075 div 64000"
  have n: "1575 \<le> n" using assms by (simp add: n_def word_le_nat_alt)
  note b = speed_nat_bounds [OF n ck_def v_def]
  have uck: "unat ((CK_FREQ * 64) div d) = ck"
    by (simp add: CK_FREQ_def unat_div ck_def n_def)
  have "unat ((CK_FREQ * 64) div d * UM_PER_INT) = ck * 1075"
    using b(1) uck by (simp add: unat_word_ariths UM_PER_INT_def)
  then have uv: "unat (((CK_FREQ * 64) div d * UM_PER_INT) div 64000) = v"
    by (simp add: unat_div v_def)
  define w where "w = (ucast (((CK_FREQ * 64) div d * UM_PER_INT) div 64000) :: u16)"
  have "unat w = v" using uv b(2) by (simp add: w_def unat_ucast_u32_u16)
  then have w: "w = of_int (int v)" by (metis of_int_of_nat_eq of_nat_unat ucast_id)
  have s: "sint w = int v" "sint (- w) = - int v"
    unfolding w using b(2) int_word_sint [of "int v", where ?'a = 16]
      int_word_sint [of "- int v", where ?'a = 16] by (simp_all add: mod_pos_pos_trivial)
  have "diffCountsToSpeedInMMs d h = (if HAL_GPIO_ReadPin GPIOA (GPIO_PIN 2) (hregs h) then - w else w)"
    using assms by (auto simp: diffCountsToSpeedInMMs_def w_def Let_def)
  with s b(3,4) show ?thesis unfolding n_def by (simp add: Let_def)
qed

theorem hermes_speed_accuracy_witness:
  "51600000 div 10000 \<le> nat \<bar>sint (diffCountsToSpeedInMMs 10000 (hermes_start (\<lambda>r. 0)))\<bar> + 1"
  using hermes_speed_accuracy [of 10000 "hermes_start (\<lambda>r. 0)"] by (simp add: Let_def)

end
