(* ===== verification/AdcAverage.thy ===== *)
theory AdcAverage
  imports Prelude ByteQueue
begin

text \<open>
  The averaging of converter samples in the DMA interrupt of Hephaestus
  (\<^verbatim>\<open>hephaestus/peripherals/adc.c\<close>, two channels) and Hermes (\<^verbatim>\<open>hermes/peripherals/adc.c\<close>, one channel):
  a buffer of eight samples per channel is summed in 16-bit arithmetic into one of two result rows
  while readers use the other.
\<close>

section \<open>State and operations\<close>

record adc =
  adcBuffer :: "u16 list"
  adcChnAvg :: "u16 list list"
  adcChnWriteIdx :: nat
  adcChnReadIdx :: nat
  DMA_EN :: bool
  ADC_ADSTP :: bool
  ADC_ADSTART :: bool

definition ADC_AVG_NUM :: nat where "ADC_AVG_NUM = 8"

definition accumulate :: "nat \<Rightarrow> u16 list \<Rightarrow> nat \<Rightarrow> u16 list \<Rightarrow> u16 list cres" where
  "accumulate channels buf idx row =
     bindE (rd buf idx) (\<lambda>x.
     bindE (rd row (idx mod channels)) (\<lambda>y. wr row (idx mod channels) (y + x)))"

definition average :: "nat \<Rightarrow> u16 list \<Rightarrow> u16 list cres" where
  "average channels buf =
     bindE (foldE (accumulate channels buf) [0..<ADC_AVG_NUM * channels] (replicate channels 0)) (\<lambda>row.
     Inr (map (\<lambda>y. y div of_nat ADC_AVG_NUM) row))"

text \<open>
  \<open>tcif\<close> is the transfer-complete flag. Hephaestus stops the converter during the computation
  and starts it again; Hermes only pauses the transfers.
\<close>

definition heph_DMA1_Channel1_IRQHandler :: "bool \<Rightarrow> adc \<Rightarrow> adc cres" where
  "heph_DMA1_Channel1_IRQHandler tcif a =
     (if tcif then
        let a = a\<lparr>DMA_EN := False, ADC_ADSTP := True\<rparr> in
        bindE (average 2 (adcBuffer a)) (\<lambda>row.
        bindE (wr (adcChnAvg a) (adcChnWriteIdx a) row) (\<lambda>avg.
        Inr (a\<lparr>adcChnAvg := avg,
               adcChnWriteIdx := (adcChnWriteIdx a + 1) mod 2,
               adcChnReadIdx := (adcChnReadIdx a + 1) mod 2,
               DMA_EN := True, ADC_ADSTART := True\<rparr>)))
      else Inr a)"

definition hermes_DMA1_Channel1_IRQHandler :: "bool \<Rightarrow> adc \<Rightarrow> adc cres" where
  "hermes_DMA1_Channel1_IRQHandler tcif a =
     (if tcif then
        let a = a\<lparr>DMA_EN := False\<rparr> in
        bindE (average 1 (adcBuffer a)) (\<lambda>row.
        bindE (wr (adcChnAvg a) (adcChnWriteIdx a) row) (\<lambda>avg.
        Inr (a\<lparr>adcChnAvg := avg,
               adcChnWriteIdx := (adcChnWriteIdx a + 1) mod 2,
               adcChnReadIdx := (adcChnReadIdx a + 1) mod 2,
               DMA_EN := True\<rparr>)))
      else Inr a)"

definition adc_start :: "nat \<Rightarrow> adc" where
  "adc_start channels = \<lparr>adcBuffer = replicate (ADC_AVG_NUM * channels) 0,
     adcChnAvg = [replicate channels 0, replicate channels 0],
     adcChnWriteIdx = 0, adcChnReadIdx = 1, DMA_EN = True, ADC_ADSTP = False, ADC_ADSTART = True\<rparr>"

section \<open>Correctness\<close>

definition adc_wf :: "nat \<Rightarrow> adc \<Rightarrow> bool" where
  "adc_wf channels a \<longleftrightarrow> length (adcBuffer a) = ADC_AVG_NUM * channels \<and>
     length (adcChnAvg a) = 2 \<and> (\<forall>row \<in> set (adcChnAvg a). length row = channels) \<and>
     adcChnWriteIdx a < 2 \<and> adcChnReadIdx a = 1 - adcChnWriteIdx a"

text \<open>The samples of one channel, and their mean.\<close>

definition samples :: "nat \<Rightarrow> nat \<Rightarrow> u16 list \<Rightarrow> nat list" where
  "samples channels c buf = map (\<lambda>k. unat (buf ! (c + k * channels))) [0..<8]"

definition mean :: "nat \<Rightarrow> nat \<Rightarrow> u16 list \<Rightarrow> nat" where
  "mean channels c buf = sum_list (samples channels c buf) div 8"

lemmas upt_unroll = upt_rec [of 0] upt_rec [of "Suc 0"] numeral_2_eq_2 [symmetric] upt_rec_numeral

lemma upt_16: "[0..<16] = [0, 1, 2, 3, 4, 5, 6, 7, 8, 9, 10, 11, 12, 13, 14, 15 :: nat]"
  by (simp add: upt_unroll)

lemma upt_8: "[0..<8] = [0, 1, 2, 3, 4, 5, 6, 7 :: nat]"
  by (simp add: upt_unroll)

lemma accumulate_2:
  "i < length buf \<Longrightarrow> accumulate 2 buf i [x, y] =
     Inr (if even i then [x + buf ! i, y] else [x, y + buf ! i])"
  by (auto simp: accumulate_def mod_2_eq_odd)

lemma accumulate_1: "i < length buf \<Longrightarrow> accumulate 1 buf i [x] = Inr [x + buf ! i]"
  by (simp add: accumulate_def)

lemma average_2:
  assumes "length buf = 16"
  shows "average 2 buf = Inr
    [(buf ! 0 + buf ! 2 + buf ! 4 + buf ! 6 + buf ! 8 + buf ! 10 + buf ! 12 + buf ! 14) div 8,
     (buf ! 1 + buf ! 3 + buf ! 5 + buf ! 7 + buf ! 9 + buf ! 11 + buf ! 13 + buf ! 15) div 8]"
proof -
  have "replicate 2 (0 :: u16) = [0, 0]" by (simp add: numeral_2_eq_2)
  with assms show ?thesis
    by (simp add: average_def ADC_AVG_NUM_def upt_16 accumulate_2 del: One_nat_def)
qed

lemma average_1:
  assumes "length buf = 8"
  shows "average 1 buf = Inr
    [(buf ! 0 + buf ! 1 + buf ! 2 + buf ! 3 + buf ! 4 + buf ! 5 + buf ! 6 + buf ! 7) div 8]"
proof -
  have "replicate 1 (0 :: u16) = [0]" by simp
  with assms show ?thesis
    by (simp add: average_def ADC_AVG_NUM_def upt_8 accumulate_1 del: One_nat_def)
qed

lemma unat_sum8:
  fixes a :: u16
  assumes "unat a \<le> 4095" "unat b \<le> 4095" "unat c \<le> 4095" "unat d \<le> 4095"
    "unat e \<le> 4095" "unat f \<le> 4095" "unat g \<le> 4095" "unat h \<le> 4095"
  shows "unat ((a + b + c + d + e + f + g + h) div 8) =
    (unat a + unat b + unat c + unat d + unat e + unat f + unat g + unat h) div 8"
proof -
  have "unat (a + b + c + d + e + f + g + h) =
      (unat a + unat b + unat c + unat d + unat e + unat f + unat g + unat h) mod 65536"
    by (simp add: unat_word_ariths mod_simps)
  with assms show ?thesis by (simp add: unat_div)
qed

lemma average_2_mean:
  assumes "length buf = 16" "\<forall>x \<in> set buf. x \<le> 4095"
  shows "\<exists>row. average 2 buf = Inr row \<and> length row = 2 \<and> (\<forall>c < 2. unat (row ! c) = mean 2 c buf)"
proof -
  have le: "\<And>i. i < 16 \<Longrightarrow> unat (buf ! i) \<le> 4095"
    using assms nth_mem [of _ buf] by (fastforce simp: word_le_nat_alt)
  have "unat ((buf ! 0 + buf ! 2 + buf ! 4 + buf ! 6 + buf ! 8 + buf ! 10 + buf ! 12 + buf ! 14) div 8)
      = mean 2 0 buf"
    by (subst unat_sum8) (simp_all add: le mean_def samples_def upt_8 ac_simps
        numeral_2_eq_2 [symmetric] numeral_3_eq_3 [symmetric])
  moreover have "unat ((buf ! 1 + buf ! 3 + buf ! 5 + buf ! 7 + buf ! 9 + buf ! 11 + buf ! 13 + buf ! 15) div 8)
      = mean 2 1 buf"
    by (subst unat_sum8) (simp_all add: le mean_def samples_def upt_8 ac_simps
        numeral_2_eq_2 [symmetric] numeral_3_eq_3 [symmetric])
  ultimately show ?thesis using average_2 [OF assms(1)] by (simp add: less_2_cases_iff)
qed

lemma average_1_mean:
  assumes "length buf = 8" "\<forall>x \<in> set buf. x \<le> 4095"
  shows "\<exists>row. average 1 buf = Inr row \<and> length row = 1 \<and> unat (row ! 0) = mean 1 0 buf"
proof -
  have le: "\<And>i. i < 8 \<Longrightarrow> unat (buf ! i) \<le> 4095"
    using assms nth_mem [of _ buf] by (fastforce simp: word_le_nat_alt)
  have "unat ((buf ! 0 + buf ! 1 + buf ! 2 + buf ! 3 + buf ! 4 + buf ! 5 + buf ! 6 + buf ! 7) div 8)
      = mean 1 0 buf"
    by (subst unat_sum8) (simp_all add: le mean_def samples_def upt_8 ac_simps
        numeral_2_eq_2 [symmetric] numeral_3_eq_3 [symmetric])
  then show ?thesis using average_1 [OF assms(1)] by simp
qed

lemma row_swap:
  assumes "length (rows :: 'a list) = 2" "w < 2" "w' = (w + 1) mod 2" "r' = (1 - w + 1) mod 2"
  shows "r' = 1 - w'" "w' < 2" "rows[w := row] ! r' = row" "rows[w := row] ! w' = rows ! w'"
proof -
  have "w = 0 \<or> w = 1" using assms(2) by auto
  with assms show "r' = 1 - w'" "w' < 2" "rows[w := row] ! r' = row" "rows[w := row] ! w' = rows ! w'"
    by auto
qed

text \<open>
  C32. The averaging interrupt of Hephaestus publishes the means: with 12-bit samples, the row that
  readers use after the interrupt holds for each channel the mean of its eight samples, no 16-bit
  sum wraps, and the row readers used before is unchanged.
\<close>

theorem heph_adc_publishes_means:
  assumes "adc_wf 2 a" and "\<forall>x \<in> set (adcBuffer a). x \<le> 4095"
  shows "\<exists>a'. heph_DMA1_Channel1_IRQHandler True a = Inr a' \<and> adc_wf 2 a' \<and>
    (\<forall>c < 2. unat (adcChnAvg a' ! adcChnReadIdx a' ! c) = mean 2 c (adcBuffer a)) \<and>
    adcChnAvg a' ! adcChnReadIdx a = adcChnAvg a ! adcChnReadIdx a \<and> DMA_EN a'"
proof -
  have len: "length (adcBuffer a) = 16" "length (adcChnAvg a) = 2" "adcChnWriteIdx a < 2"
    "adcChnReadIdx a = 1 - adcChnWriteIdx a" "\<forall>row \<in> set (adcChnAvg a). length row = 2"
    using assms(1) by (auto simp: adc_wf_def ADC_AVG_NUM_def)
  obtain row where row: "average 2 (adcBuffer a) = Inr row" "length row = 2"
    "\<forall>c < 2. unat (row ! c) = mean 2 c (adcBuffer a)"
    using average_2_mean [OF len(1) assms(2)] by blast
  note sw = row_swap(1,2) [OF len(2,3) refl refl] row_swap(3,4) [OF len(2,3) refl refl, of row]
  have other: "(adcChnAvg a)[adcChnWriteIdx a := row] ! (1 - adcChnWriteIdx a) =
      adcChnAvg a ! (1 - adcChnWriteIdx a)"
    using len(3) by (auto simp: less_2_cases_iff)
  show ?thesis
    using len row sw other set_update_subset_insert [of "adcChnAvg a" "adcChnWriteIdx a" row]
    by (auto simp: heph_DMA1_Channel1_IRQHandler_def adc_wf_def ADC_AVG_NUM_def)
qed

theorem heph_adc_publishes_means_witness:
  "\<exists>a'. heph_DMA1_Channel1_IRQHandler True (adc_start 2) = Inr a' \<and>
    adcChnAvg a' ! 1 = adcChnAvg (adc_start 2) ! 1"
  using heph_adc_publishes_means [of "adc_start 2"]
  by (auto simp: adc_wf_def adc_start_def)

end
