(* ===== verification/Hephaestus.thy ===== *)
theory Hephaestus
  imports AdcAverage Apollo
begin

text \<open>
  Hephaestus, steering and braking: \<^verbatim>\<open>hephaestus/drivers/steer.c\<close>, \<^verbatim>\<open>brake.c\<close>, \<^verbatim>\<open>steer_speed.c\<close>,
  \<^verbatim>\<open>comms.c\<close>, the duty table and \<^verbatim>\<open>tim1_set_channel_duty\<close> of \<^verbatim>\<open>hephaestus/peripherals/tim.c\<close>, and the
  main loop. The converter is the record of theory AdcAverage.
\<close>

section \<open>State\<close>

record heph =
  adc_st :: adc
  tregs :: regs
  steeringPot :: u16
  targetSteerValue :: u16
  enableSteering :: bool
  motorOnLeft :: bool
  motorOnRight :: bool
  ch3Speed :: "u16 list"
  ch3SpeedWr :: nat
  ch3SysCount :: u32
  ch3Count :: u32
  systick :: u32

definition MAX_LEFT_POT :: nat where "MAX_LEFT_POT = 975"
definition MIDDLE_POT :: u16 where "MIDDLE_POT = 1600"
definition MAX_RIGHT_POT :: nat where "MAX_RIGHT_POT = 1917"
definition MAX_LEFT_DEG :: nat where "MAX_LEFT_DEG = 45"
definition MAX_RIGHT_DEG :: nat where "MAX_RIGHT_DEG = 125"
definition DEADZONE :: int where "DEADZONE = 50"
definition POT_DEG_SLOPE :: nat where
  "POT_DEG_SLOPE = (MAX_RIGHT_POT - MAX_LEFT_POT) div (MAX_RIGHT_DEG - MAX_LEFT_DEG)"
definition POT_DEG_INTERCEPT :: nat where
  "POT_DEG_INTERCEPT = MAX_LEFT_POT - MAX_LEFT_DEG * POT_DEG_SLOPE"
definition CORRECTION_OFFSET :: nat where "CORRECTION_OFFSET = 100"
definition BANG_BANG_DUTY :: u8 where "BANG_BANG_DUTY = 85"
definition ARR_DEFAULT :: nat where "ARR_DEFAULT = 5545"
definition DUTY_MAX :: u8 where "DUTY_MAX = 100"

lemmas steer_consts = MAX_LEFT_POT_def MAX_RIGHT_POT_def MAX_LEFT_DEG_def MAX_RIGHT_DEG_def
  POT_DEG_SLOPE_def POT_DEG_INTERCEPT_def CORRECTION_OFFSET_def

section \<open>Motor outputs\<close>

text \<open>The entries of the table are the constant expressions \<^verbatim>\<open>ARR_DEFAULT * (100 - i) / 100\<close>.\<close>

definition tim1_duty_lut :: "u16 list" where
  "tim1_duty_lut = map (\<lambda>i. of_nat (ARR_DEFAULT * (100 - i) div 100)) [0..<101]"

definition duty_value :: "u8 \<Rightarrow> u16 cres" where
  "duty_value duty = (if duty = 0 then Inr (of_nat ARR_DEFAULT) else rd tim1_duty_lut (unat duty))"

definition tim1_set_channel_duty :: "u8 \<Rightarrow> u8 \<Rightarrow> regs \<Rightarrow> regs cres" where
  "tim1_set_channel_duty chn duty f =
     (if duty > DUTY_MAX then Inr f
      else
        let duty = DUTY_MAX - duty in
        if chn = 1 then bindE (duty_value duty) (\<lambda>v. Inr (f(Tim TIM1 CCR1 := ucast v)))
        else if chn = 2 then bindE (duty_value duty) (\<lambda>v. Inr (f(Tim TIM1 CCR2 := ucast v)))
        else if chn = 3 then bindE (duty_value duty) (\<lambda>v. Inr (f(Tim TIM1 CCR3 := ucast v)))
        else if chn = 4 then bindE (duty_value duty) (\<lambda>v. Inr (f(Tim TIM1 CCR4 := ucast v)))
        else Inr f)"

definition steer_left :: "u8 \<Rightarrow> regs \<Rightarrow> regs cres" where
  "steer_left duty f = bindE (tim1_set_channel_duty 1 0 f) (tim1_set_channel_duty 2 duty)"

definition steer_right :: "u8 \<Rightarrow> regs \<Rightarrow> regs cres" where
  "steer_right duty f = bindE (tim1_set_channel_duty 2 0 f) (tim1_set_channel_duty 1 duty)"

definition steer_stop :: "regs \<Rightarrow> regs cres" where
  "steer_stop f = bindE (tim1_set_channel_duty 1 0 f) (tim1_set_channel_duty 2 0)"

definition brake_drive_release :: "u8 \<Rightarrow> regs \<Rightarrow> regs cres" where
  "brake_drive_release duty f = bindE (tim1_set_channel_duty 3 0 f) (tim1_set_channel_duty 4 duty)"

definition break_drive_press :: "u8 \<Rightarrow> regs \<Rightarrow> regs cres" where
  "break_drive_press duty f = bindE (tim1_set_channel_duty 3 0 f) (tim1_set_channel_duty 4 duty)"

definition brake_drive_stop :: "regs \<Rightarrow> regs cres" where
  "brake_drive_stop f = bindE (tim1_set_channel_duty 3 0 f) (tim1_set_channel_duty 4 0)"

section \<open>Steering\<close>

definition deg_to_pot :: "u8 \<Rightarrow> u16" where
  "deg_to_pot deg = of_nat (unat deg * POT_DEG_SLOPE + POT_DEG_INTERCEPT + CORRECTION_OFFSET)"

definition set_steer_target :: "u8 \<Rightarrow> heph \<Rightarrow> heph" where
  "set_steer_target angle h = h\<lparr>targetSteerValue := deg_to_pot angle\<rparr>"

definition STEER_AVG_IDX :: nat where "STEER_AVG_IDX = 0"
definition BRAKE_AVG_IDX :: nat where "BRAKE_AVG_IDX = 1"

definition adc_value :: "nat \<Rightarrow> heph \<Rightarrow> u16 cres" where
  "adc_value c h = bindE (rd (adcChnAvg (adc_st h)) (adcChnReadIdx (adc_st h))) (\<lambda>row. rd row c)"

text \<open>
  The bang-bang controller. The comparisons are on \<^verbatim>\<open>int\<close>, so a target below the dead zone does not
  wrap.
\<close>

definition update_steer_control_loop :: "heph \<Rightarrow> heph cres" where
  "update_steer_control_loop h =
     bindE (adc_value STEER_AVG_IDX h) (\<lambda>pot.
     let h = h\<lparr>enableSteering := True, steeringPot := pot\<rparr>;
         target = int (unat (targetSteerValue h))
     in
     if int (unat pot) < target - DEADZONE then
       (if \<not> motorOnRight h then
          bindE (steer_right BANG_BANG_DUTY (tregs h)) (\<lambda>f.
          Inr (h\<lparr>tregs := f, motorOnRight := True, motorOnLeft := False\<rparr>))
        else Inr h)
     else if int (unat pot) > target + DEADZONE then
       (if \<not> motorOnLeft h then
          bindE (steer_left BANG_BANG_DUTY (tregs h)) (\<lambda>f.
          Inr (h\<lparr>tregs := f, motorOnLeft := True, motorOnRight := False\<rparr>))
        else Inr h)
     else
       bindE (steer_stop (tregs h)) (\<lambda>f.
       Inr (h\<lparr>tregs := f, motorOnRight := False, motorOnLeft := False, enableSteering := False\<rparr>)))"

section \<open>Steering speed\<close>

definition clk_ticks_to_speed_mRev_s :: "u32 \<Rightarrow> heph \<Rightarrow> u16" where
  "clk_ticks_to_speed_mRev_s diffCounts h =
     (if diffCounts = 0 then 0
      else
        let back = HAL_GPIO_ReadPin GPIOB (GPIO_PIN 11) (tregs h);
            v = ucast (48000000 div 200 div diffCounts)
        in (if back then - v else v))"

definition heph_TIM2_IRQHandler :: "bool \<Rightarrow> u32 \<Rightarrow> heph \<Rightarrow> heph cres" where
  "heph_TIM2_IRQHandler cc3if cap h =
     (if cc3if then
        let chDiff = (if cap \<ge> ch3Count h then cap - ch3Count h else (0xFFFFFFFF - ch3Count h) + cap);
            h = h\<lparr>ch3Count := cap\<rparr>
        in bindE (wr (ch3Speed h) (ch3SpeedWr h) (clk_ticks_to_speed_mRev_s chDiff h)) (\<lambda>sp.
           Inr (h\<lparr>ch3Speed := sp, ch3SpeedWr := (ch3SpeedWr h + 1) mod 2,
                  ch3SysCount := systick h\<rparr>))
      else Inr h)"

text \<open>\<^verbatim>\<open>check_steer_speed_timeout\<close> masks the capture interrupt first and clears another mask bit last.\<close>

definition check_steer_speed_timeout :: "heph \<Rightarrow> heph cres" where
  "check_steer_speed_timeout h =
     (let currSystick = systick h;
          h = h\<lparr>tregs := clear_bits (Tim TIM2 DIER) 8 (tregs h)\<rparr>
      in bindE (if currSystick > ch3SysCount h + 1000 then
                  bindE (wr (ch3Speed h) (ch3SpeedWr h) 0) (\<lambda>sp.
                  Inr (h\<lparr>ch3Speed := sp, ch3SpeedWr := (ch3SpeedWr h + 1) mod 2,
                         ch3SysCount := systick h\<rparr>))
                else Inr h) (\<lambda>h.
         Inr (h\<lparr>tregs := clear_bits (Tim TIM2 DIER) 2 (tregs h)\<rparr>)))"

section \<open>Messages and main loop\<close>

definition set_steer_callback :: "heph callback_t" where
  "set_steer_callback data h =
     bindE (ckd (rd data 0)) (\<lambda>d.
     if unat d > MAX_RIGHT_DEG \<or> unat d < MAX_LEFT_DEG then Inr (WR_ERR_INV_ARG, data, h)
     else Inr (WR_OK, data, set_steer_target d h))"

definition get_steer_pot_callback :: "heph callback_t" where
  "get_steer_pot_callback data h =
     bindE (ckd (adc_value STEER_AVG_IDX h)) (\<lambda>v.
     bindE (ckd (wr_range data 0 (le16 v))) (\<lambda>data. Inr (WR_OK, data, h)))"

definition get_steer_speed_callback :: "heph callback_t" where
  "get_steer_speed_callback data h =
     bindE (ckd (rd (ch3Speed h) ((ch3SpeedWr h + 1) mod 2))) (\<lambda>v.
     bindE (ckd (wr_range data 0 (le16 v))) (\<lambda>data. Inr (WR_OK, data, h)))"

definition set_brake_callback :: "heph callback_t" where
  "set_brake_callback data h = Inr (WR_ERR, data, h)"

definition get_brake_pot_callback :: "heph callback_t" where
  "get_brake_pot_callback data h =
     bindE (ckd (adc_value BRAKE_AVG_IDX h)) (\<lambda>v.
     bindE (ckd (wr_range data 0 (le16 v))) (\<lambda>data. Inr (WR_OK, data, h)))"

definition heph_msgResp :: "heph msgInfo_t list" where
  "heph_msgResp = [
     msg 0 0 (Some get_status_callback),
     msg 1 0 (Some set_steer_callback),
     msg 0 2 (Some get_steer_pot_callback),
     msg 0 2 (Some get_steer_speed_callback),
     msg 2 0 (Some set_brake_callback),
     msg 0 2 (Some get_brake_pot_callback),
     msg 0 0 None, msg 0 0 None, msg 0 0 None, msg 0 0 None,
     msg 0 0 (Some bootload)]"

definition heph_round :: "heph slave \<Rightarrow> heph slave stop + heph slave" where
  "heph_round s =
     bindE (main_round heph_msgResp s) (\<lambda>s.
     bindE (ckd (update_steer_control_loop (app s))) (\<lambda>h. Inr (s\<lparr>app := h\<rparr>)))"

definition heph_start :: "regs \<Rightarrow> heph" where
  "heph_start f = \<lparr>adc_st = adc_start 2, tregs = f, steeringPot = 0, targetSteerValue = MIDDLE_POT,
     enableSteering = False, motorOnLeft = False, motorOnRight = False,
     ch3Speed = [0, 0], ch3SpeedWr = 0, ch3SysCount = 0, ch3Count = 0, systick = 0\<rparr>"

section \<open>Lemmas\<close>

lemma length_lut [simp]: "length tim1_duty_lut = 101"
  by (simp add: tim1_duty_lut_def)

lemma unat_of_nat_u16: "n < 65536 \<Longrightarrow> unat (of_nat n :: u16) = n"
  by (simp add: unat_of_nat)

text \<open>A duty of at most 100 percent becomes that share of the period; the table inverts, then the index.\<close>

lemma duty_value_spec:
  assumes "duty \<le> 100"
  shows "\<exists>v. duty_value (DUTY_MAX - duty) = Inr v \<and> unat v = ARR_DEFAULT * unat duty div 100"
proof -
  have d: "unat duty \<le> 100" using assms by (simp add: word_le_nat_alt)
  have u: "unat (DUTY_MAX - duty) = 100 - unat duty"
    using assms by (simp add: DUTY_MAX_def unat_sub_le)
  show ?thesis
  proof (cases "DUTY_MAX - duty = 0")
    case True
    then have "unat duty = 100" using u d by simp
    with True show ?thesis by (simp add: duty_value_def ARR_DEFAULT_def unat_of_nat_u16)
  next
    case False
    have "ARR_DEFAULT * unat duty div 100 \<le> 5545" using d by (simp add: ARR_DEFAULT_def)
    with False u d show ?thesis
      by (simp add: duty_value_def tim1_duty_lut_def unat_of_nat_u16 nth_append del: upt_Suc)
  qed
qed

fun ccr :: "u8 \<Rightarrow> reg" where
  "ccr chn = Tim TIM1 (if chn = 1 then CCR1 else if chn = 2 then CCR2 else if chn = 3 then CCR3 else CCR4)"

lemma set_duty_spec:
  assumes "chn = 1 \<or> chn = 2 \<or> chn = 3 \<or> chn = 4" "duty \<le> 100"
  shows "\<exists>v. tim1_set_channel_duty chn duty f = Inr (f(ccr chn := v)) \<and> unat v = ARR_DEFAULT * unat duty div 100"
proof -
  obtain v where "duty_value (DUTY_MAX - duty) = Inr v" "unat v = ARR_DEFAULT * unat duty div 100"
    using duty_value_spec [OF assms(2)] by blast
  moreover have "\<not> duty > DUTY_MAX" using assms(2) by (simp add: DUTY_MAX_def not_less)
  ultimately show ?thesis
    using assms(1) by (intro exI [of _ "ucast v"]) (auto simp: tim1_set_channel_duty_def)
qed

lemma duty_0:
  assumes "chn = 1 \<or> chn = 2 \<or> chn = 3 \<or> chn = 4"
  shows "tim1_set_channel_duty chn 0 f = Inr (f(ccr chn := 0))"
  using set_duty_spec [OF assms, of 0 f] by (auto simp: unat_eq_zero)

definition DRIVE :: u32 where "DRIVE = 4713"

lemma duty_85:
  assumes "chn = 1 \<or> chn = 2 \<or> chn = 3 \<or> chn = 4"
  shows "tim1_set_channel_duty chn BANG_BANG_DUTY f = Inr (f(ccr chn := DRIVE))"
proof -
  have "unat v = 4713 \<Longrightarrow> v = DRIVE" for v :: u32 by (simp add: DRIVE_def word_unat_eq_iff)
  moreover obtain v where "tim1_set_channel_duty chn BANG_BANG_DUTY f = Inr (f(ccr chn := v))"
    "unat v = 4713"
    using set_duty_spec [OF assms, of BANG_BANG_DUTY f]
    by (auto simp: BANG_BANG_DUTY_def ARR_DEFAULT_def)
  ultimately show ?thesis by metis
qed

lemma steer_outputs:
  "steer_right BANG_BANG_DUTY f = Inr (f(Tim TIM1 CCR2 := 0, Tim TIM1 CCR1 := DRIVE))"
  "steer_left BANG_BANG_DUTY f = Inr (f(Tim TIM1 CCR1 := 0, Tim TIM1 CCR2 := DRIVE))"
  "steer_stop f = Inr (f(Tim TIM1 CCR1 := 0, Tim TIM1 CCR2 := 0))"
  by (simp_all add: steer_right_def steer_left_def steer_stop_def duty_0 duty_85)

section \<open>Invariant\<close>

text \<open>A flag says that the motor is driven in its direction only.\<close>

definition motor_ok :: "heph \<Rightarrow> bool" where
  "motor_ok h \<longleftrightarrow>
     (motorOnRight h \<longrightarrow> tregs h (Tim TIM1 CCR1) = DRIVE \<and> tregs h (Tim TIM1 CCR2) = 0) \<and>
     (motorOnLeft h \<longrightarrow> tregs h (Tim TIM1 CCR1) = 0 \<and> tregs h (Tim TIM1 CCR2) = DRIVE)"

definition heph_ok :: "heph \<Rightarrow> bool" where
  "heph_ok h \<longleftrightarrow> adc_wf 2 (adc_st h) \<and> length (ch3Speed h) = 2 \<and> ch3SpeedWr h < 2 \<and> motor_ok h"

lemma adc_value_ok:
  assumes "heph_ok h" "c < 2"
  shows "adc_value c h = Inr (adcChnAvg (adc_st h) ! adcChnReadIdx (adc_st h) ! c)"
  using assms by (simp add: heph_ok_def adc_wf_def adc_value_def)

lemma heph_ok_start: "heph_ok (heph_start f)"
  by (simp add: heph_ok_def heph_start_def adc_wf_def adc_start_def motor_ok_def)

lemma heph_callbacks_ok:
  "callback_ok heph_ok set_steer_callback" "callback_ok heph_ok set_brake_callback"
  by (auto simp: callback_ok_def set_steer_callback_def set_brake_callback_def set_steer_target_def
      heph_ok_def motor_ok_def)

lemma heph_callbacks_ok2:
  "callback_ok heph_ok get_steer_pot_callback" "callback_ok heph_ok get_brake_pot_callback"
  "callback_ok heph_ok get_steer_speed_callback"
  by (auto simp: callback_ok_def get_steer_pot_callback_def get_brake_pot_callback_def
      get_steer_speed_callback_def adc_value_ok STEER_AVG_IDX_def BRAKE_AVG_IDX_def heph_ok_def)

interpretation heph: slave_app heph_ok heph_msgResp
  by unfold_locales (auto simp: heph_msgResp_def heph_callbacks_ok heph_callbacks_ok2)

section \<open>Properties\<close>

text \<open>
  C31. The steering controller: from every state that satisfies the invariant one round succeeds,
  keeps the invariant, and drives channel 1 (right) at 85 percent exactly when the potentiometer is
  more than the dead zone below the target, channel 2 (left) exactly when it is more than the dead
  zone above, and otherwise neither; so the two are never driven together.
\<close>

theorem steering_bang_bang:
  assumes "heph_ok h"
    and "pot = int (unat (adcChnAvg (adc_st h) ! adcChnReadIdx (adc_st h) ! STEER_AVG_IDX))"
    and "target = int (unat (targetSteerValue h))"
  shows "\<exists>h'. update_steer_control_loop h = Inr h' \<and> heph_ok h' \<and>
     targetSteerValue h' = targetSteerValue h \<and>
     tregs h' (Tim TIM1 CCR1) = (if pot < target - DEADZONE then DRIVE else 0) \<and>
     tregs h' (Tim TIM1 CCR2) = (if pot > target + DEADZONE then DRIVE else 0)"
proof -
  have v: "adc_value STEER_AVG_IDX h = Inr (adcChnAvg (adc_st h) ! adcChnReadIdx (adc_st h) ! STEER_AVG_IDX)"
    by (rule adc_value_ok) (simp_all add: assms(1) STEER_AVG_IDX_def)
  consider "pot < target - DEADZONE" | "pot > target + DEADZONE" "\<not> pot < target - DEADZONE"
    | "\<not> pot > target + DEADZONE" "\<not> pot < target - DEADZONE" by blast
  then show ?thesis
  proof cases
    case 1
    then have "\<not> pot > target + DEADZONE" by (simp add: DEADZONE_def)
    with 1 v assms show ?thesis
      by (auto simp: update_steer_control_loop_def steer_outputs Let_def heph_ok_def motor_ok_def)
  next
    case 2
    with v assms show ?thesis
      by (auto simp: update_steer_control_loop_def steer_outputs Let_def heph_ok_def motor_ok_def)
  next
    case 3
    with v assms show ?thesis
      by (auto simp: update_steer_control_loop_def steer_outputs Let_def heph_ok_def motor_ok_def)
  qed
qed

theorem steering_bang_bang_witness:
  "\<exists>h'. update_steer_control_loop (heph_start (\<lambda>r. 7)) = Inr h' \<and>
     tregs h' (Tim TIM1 CCR1) = DRIVE \<and> tregs h' (Tim TIM1 CCR2) = 0"
  using steering_bang_bang [of "heph_start (\<lambda>r. 7)" 0 1600, OF heph_ok_start]
  by (auto simp: heph_start_def adc_start_def STEER_AVG_IDX_def MIDDLE_POT_def DEADZONE_def)

lemma steering_target_ok:
  assumes "ready 1 s"
  shows "\<exists>s'. foldE (runCommsFSM heph_msgResp) [COMMS_START_BYTE, 1, d] s = Inr s' \<and> ready 0 s' \<and>
     (if 45 \<le> unat d \<and> unat d \<le> 125
      then miso (port s') = miso (port s) @ [WR_OK] \<and>
           app s' = (app s)\<lparr>targetSteerValue := targetSteerValue (app s')\<rparr> \<and>
           unat (targetSteerValue (app s')) = 11 * unat d + 580 \<and>
           unat (targetSteerValue (app s')) \<in> {1075..1955}
      else miso (port s') = miso (port s) @ [WR_ERR_INV_ARG] \<and> app s' = app s)"
proof -
  have len: "length (buff s) = 256" using assms by (simp add: ready_def)
  let ?in = "45 \<le> unat d \<and> unat d \<le> 125"
  define st where "st = (if ?in then WR_OK else WR_ERR_INV_ARG)"
  define h where "h = (if ?in then (app s)\<lparr>targetSteerValue := deg_to_pot d\<rparr> else app s)"
  have cb: "set_steer_callback (d # drop 1 (buff s)) (app s) = Inr (st, d # drop 1 (buff s), h)"
    by (auto simp: set_steer_callback_def st_def h_def set_steer_target_def steer_consts)
  have pot: "unat d \<le> 125 \<Longrightarrow> unat (deg_to_pot d) = 11 * unat d + 580"
    unfolding deg_to_pot_def by (subst unat_of_nat_u16) (simp_all add: steer_consts)
  obtain s' where "foldE (runCommsFSM heph_msgResp) [COMMS_START_BYTE, 1, d] s = Inr s'"
    "ready 0 s'" "app s' = h" "miso (port s') = miso (port s) @ [st]"
    by (rule message_answered [OF assms heph.table_length, of 1 1 0 set_steer_callback "[d]"
          st "d # drop 1 (buff s)" h])
      (use len cb in \<open>simp_all add: heph_msgResp_def\<close>)
  with pot show ?thesis by (auto simp: st_def h_def)
qed

text \<open>
  Message 1 sets the steering target: an angle between 45 and 125 degrees is accepted and the
  target becomes \<open>11 * angle + 580\<close>, between 1075 and 1955; any other argument is answered with
  \<^verbatim>\<open>WR_ERR_INV_ARG\<close> and changes nothing.
\<close>

theorem steering_target_message:
  assumes "ready 1 s"
  shows "\<exists>s'. foldE (runCommsFSM heph_msgResp) [COMMS_START_BYTE, 1, d] s = Inr s' \<and> ready 0 s' \<and>
     (if 45 \<le> unat d \<and> unat d \<le> 125
      then miso (port s') = miso (port s) @ [WR_OK] \<and>
           app s' = (app s)\<lparr>targetSteerValue := targetSteerValue (app s')\<rparr> \<and>
           unat (targetSteerValue (app s')) = 11 * unat d + 580 \<and>
           unat (targetSteerValue (app s')) \<in> {1075..1955}
      else miso (port s') = miso (port s) @ [WR_ERR_INV_ARG] \<and> app s' = app s)"
  by (rule steering_target_ok [OF assms])

theorem steering_target_message_witness:
  "\<exists>s'. foldE (runCommsFSM heph_msgResp) [COMMS_START_BYTE, 1, 125]
          (slave_start (replicate 1 (None, True)) (heph_start (\<lambda>r. 0))) = Inr s' \<and>
     miso (port s') = [WR_OK] \<and> unat (targetSteerValue (app s')) = 1955"
  using steering_target_message [OF ready_start [of 1 None "heph_start (\<lambda>r. 0)"], of 125]
  by auto

end
