(* ===== verification/SlaveBoot.thy ===== *)
theory SlaveBoot
  imports SlaveComms
begin

text \<open>
  The bootloader of the submodules: \<^verbatim>\<open>slave_boot/drivers/comms.c\<close>, \<^verbatim>\<open>slave_boot/peripherals/flash.c\<close> and
  \<^verbatim>\<open>slave_boot/main.c\<close>. Flash memory is 32 KiB of half words counted from \<^verbatim>\<open>0x08000000\<close>. As the reference
  manual of the processor says, a half word is programmed only while the memory is unlocked and
  programming is enabled, and only if it is erased (\<^verbatim>\<open>0xFFFF\<close>) or the new value is zero; a store
  outside the memory is a bus fault.
\<close>

section \<open>Flash\<close>

definition PAGE_SIZE :: nat where "PAGE_SIZE = 1024"
definition APP_START_PAGE :: nat where "APP_START_PAGE = 5"
definition APP_MAX_SIZE :: u32 where "APP_MAX_SIZE = 27 * 1024"
definition APP_START_ADDR :: u32 where "APP_START_ADDR = 0x8001400"
definition APP_START_HW :: nat where "APP_START_HW = 0x1400 div 2"
definition FLASH_HWS :: nat where "FLASH_HWS = 16384"

record sboot =
  flash :: "nat \<Rightarrow> u16"
  unlocked :: bool
  CR_PG :: bool
  bsize :: u32
  checksum :: u32
  flashComplete :: bool
  count :: u32
  addr :: nat

definition erasePage :: "nat \<Rightarrow> sboot \<Rightarrow> sboot" where
  "erasePage page b =
     (if unlocked b
      then b\<lparr>flash := (\<lambda>h. if page * (PAGE_SIZE div 2) \<le> h \<and> h < (page + 1) * (PAGE_SIZE div 2)
                            then 0xFFFF else flash b h)\<rparr>
      else b)"

definition numPages :: "u32 \<Rightarrow> nat" where
  "numPages progsize = unat progsize div 1024 + (if unat progsize mod 1024 \<noteq> 0 then 1 else 0)"

definition writeInit :: "u32 \<Rightarrow> sboot \<Rightarrow> sboot" where
  "writeInit progsize b =
     fold (\<lambda>page. erasePage (APP_START_PAGE + page)) [0..<numPages progsize] (b\<lparr>unlocked := True\<rparr>)"

definition program :: "nat \<Rightarrow> u16 \<Rightarrow> sboot \<Rightarrow> sboot cres" where
  "program h v b =
     (if h < FLASH_HWS
      then Inr (if unlocked b \<and> CR_PG b \<and> (flash b h = 0xFFFF \<or> v = 0)
                then b\<lparr>flash := (flash b)(h := v)\<rparr> else b)
      else Inl OutOfBounds)"

definition writeFlash :: "nat \<Rightarrow> u16 \<Rightarrow> sboot \<Rightarrow> sboot cres" where
  "writeFlash h v b =
     bindE (program h v (b\<lparr>CR_PG := True\<rparr>)) (\<lambda>b. Inr (b\<lparr>CR_PG := False\<rparr>))"

definition writeComplete :: "sboot \<Rightarrow> sboot" where
  "writeComplete b = b\<lparr>CR_PG := False\<rparr>"

section \<open>Messages\<close>

definition ERASE_FLASH_KEY :: u32 where "ERASE_FLASH_KEY = 0x666C6170"

definition get_status_callback :: "sboot callback_t" where
  "get_status_callback data b = Inr (WR_OK, data, b)"

definition write_header :: "sboot callback_t" where
  "write_header data b =
     bindE (ckd (rd_range data 0 8)) (\<lambda>h.
     let size = of_le32 (h ! 0) (h ! 1) (h ! 2) (h ! 3);
         key = of_le32 (h ! 4) (h ! 5) (h ! 6) (h ! 7)
     in if key \<noteq> ERASE_FLASH_KEY \<or> size > APP_MAX_SIZE then Inr (WR_ERR, data, b)
        else Inr (WR_OK, data,
               writeInit size (b\<lparr>bsize := size, checksum := 0, flashComplete := False\<rparr>)))"

text \<open>The loop of \<^verbatim>\<open>write_data\<close>: \<open>n\<close> half words from byte \<open>i\<close> on.\<close>

fun write_loop :: "nat \<Rightarrow> nat \<Rightarrow> bool \<Rightarrow> u8 list \<Rightarrow> sboot \<Rightarrow> sboot cres" where
  "write_loop 0 i high16bit data b = Inr b"
| "write_loop (Suc n) i high16bit data b =
     bindE (rd_range data i 2) (\<lambda>v.
     let val = of_le16 (v ! 0) (v ! 1) in
     bindE (writeFlash (addr b) val b) (\<lambda>b.
     write_loop n (i + 2) (\<not> high16bit) data
       (b\<lparr>addr := addr b + 1,
          checksum := checksum b + (if high16bit then push_bit 16 (ucast val) else ucast val)\<rparr>)))"

definition write_data :: "sboot callback_t" where
  "write_data data b =
     (if bsize b = 0 then Inr (WR_ERR, data, b)
      else
        bindE (ckd (write_loop 32 0 False data b)) (\<lambda>b.
        let b = b\<lparr>count := count b + 64\<rparr> in
        Inr (WR_OK, data, if count b \<ge> bsize b then (writeComplete b)\<lparr>flashComplete := True\<rparr> else b)))"

text \<open>
  \<^verbatim>\<open>run_checksum\<close> answers before it jumps, and the jump does not return: the callback asks for the
  jump, and \<open>boot_fsm\<close> sends the answer first.
\<close>

definition run_checksum :: "sboot callback_t" where
  "run_checksum data b =
     (if \<not> flashComplete b then Inr (WR_ERR, data, b)
      else
        bindE (ckd (rd_range data 0 4)) (\<lambda>d.
        if of_le32 (d ! 0) (d ! 1) (d ! 2) (d ! 3) \<noteq> checksum b then Inr (WR_ERR, data, b)
        else Inl (JumpToApp APP_START_ADDR b)))"

definition boot_msgResp :: "sboot msgInfo_t list" where
  "boot_msgResp = [
     msg 0 0 (Some get_status_callback),
     msg 8 0 (Some write_header),
     msg 64 0 (Some write_data),
     msg 4 0 (Some run_checksum),
     msg 0 0 None, msg 0 0 None, msg 0 0 None, msg 0 0 None, msg 0 0 None, msg 0 0 None,
     msg 0 0 None]"

definition boot_fsm :: "u8 \<Rightarrow> sboot slave \<Rightarrow> sboot slave stop + sboot slave" where
  "boot_fsm d s =
     (case runCommsFSM boot_msgResp d s of
        Inl (JumpToApp a s') \<Rightarrow>
          bindE (in_port s' (writeResponse WR_OK [] 0 (port s'))) (\<lambda>(r, p).
          Inl (JumpToApp a (s'\<lparr>port := p\<rparr>)))
      | r \<Rightarrow> r)"

text \<open>
  \<^verbatim>\<open>main\<close>: without a software reset the application starts at once; otherwise the loop reads bytes.
\<close>

definition boot_main_start :: "bool \<Rightarrow> sboot slave \<Rightarrow> sboot slave stop + sboot slave" where
  "boot_main_start SFTRSTF s =
     (if \<not> SFTRSTF then Inl (JumpToApp APP_START_ADDR s)
      else Inr (s\<lparr>port := COMMS_SPI_Init (port s)\<rparr>))"

definition boot_round :: "sboot slave \<Rightarrow> sboot slave stop + sboot slave" where
  "boot_round s =
     bindE (readByte (port s)) (\<lambda>(d, p).
     let s = s\<lparr>port := p\<rparr> in
     case d of None \<Rightarrow> Inr s | Some b \<Rightarrow> boot_fsm b s)"

definition sboot_start :: "(nat \<Rightarrow> u16) \<Rightarrow> sboot" where
  "sboot_start f = \<lparr>flash = f, unlocked = False, CR_PG = False, bsize = 0, checksum = 0,
     flashComplete = False, count = 0, addr = APP_START_HW\<rparr>"

section \<open>Erasing\<close>

definition pages :: "nat \<Rightarrow> nat \<Rightarrow> nat \<Rightarrow> bool" where
  "pages p n h \<longleftrightarrow> p * 512 \<le> h \<and> h < (p + n) * 512"

lemma fold_erase:
  assumes "unlocked b"
  shows "fold (\<lambda>page. erasePage (APP_START_PAGE + page)) [0..<n] b =
    b\<lparr>flash := (\<lambda>h. if pages APP_START_PAGE n h then 0xFFFF else flash b h)\<rparr>"
proof (induction n)
  case 0
  have "flash b = (\<lambda>h. if pages APP_START_PAGE 0 h then 0xFFFF else flash b h)"
    by (rule ext) (auto simp: pages_def)
  then show ?case by simp
next
  case (Suc n)
  have "(\<lambda>h. if (APP_START_PAGE + n) * (PAGE_SIZE div 2) \<le> h \<and> h < (APP_START_PAGE + n + 1) * (PAGE_SIZE div 2)
      then 0xFFFF else if pages APP_START_PAGE n h then 0xFFFF else flash b h) =
      (\<lambda>h. if pages APP_START_PAGE (Suc n) h then 0xFFFF else flash b h)"
    by (rule ext) (auto simp: pages_def PAGE_SIZE_def)
  with assms Suc show ?case by (simp add: erasePage_def cong: if_cong)
qed

lemma writeInit_eq:
  "writeInit sz b =
    b\<lparr>unlocked := True, flash := (\<lambda>h. if pages APP_START_PAGE (numPages sz) h then 0xFFFF else flash b h)\<rparr>"
  unfolding writeInit_def by (subst fold_erase) (simp_all cong: if_cong)

section \<open>Programming a chunk\<close>

text \<open>Half word \<open>k\<close> of a block of bytes.\<close>

definition hw :: "u8 list \<Rightarrow> nat \<Rightarrow> u16" where
  "hw data k = of_le16 (data ! (2 * k)) (data ! (2 * k + 1))"

definition same_session :: "sboot \<Rightarrow> sboot \<Rightarrow> bool" where
  "same_session b b' \<longleftrightarrow> bsize b' = bsize b \<and> count b' = count b \<and>
     flashComplete b' = flashComplete b \<and> unlocked b' = unlocked b"

lemma writeFlash_erased:
  assumes "unlocked b" "h < FLASH_HWS" "flash b h = 0xFFFF"
  shows "writeFlash h v b = Inr (b\<lparr>flash := (flash b)(h := v), CR_PG := False\<rparr>)"
  using assms by (simp add: writeFlash_def program_def)

lemma suc_diff_shift: "Suc a \<le> k \<Longrightarrow> Suc (x + k - Suc a) = x + k - a"
  by simp

lemma write_loop_flash:
  assumes "unlocked b" "addr b + n \<le> FLASH_HWS" "i + 2 * n \<le> length data" "even i"
    and "\<forall>k. addr b \<le> k \<and> k < addr b + n \<longrightarrow> flash b k = 0xFFFF"
  shows "\<exists>b'. write_loop n i hi data b = Inr b' \<and> same_session b b' \<and> addr b' = addr b + n \<and>
    flash b' = (\<lambda>k. if addr b \<le> k \<and> k < addr b + n then hw data (i div 2 + (k - addr b)) else flash b k)"
  using assms
proof (induction n arbitrary: i hi b)
  case 0
  have "flash b = (\<lambda>k. if addr b \<le> k \<and> k < addr b + 0 then hw data (i div 2 + (k - addr b)) else flash b k)"
    by (rule ext) auto
  then show ?case by (simp add: same_session_def)
next
  case (Suc n)
  have w: "writeFlash (addr b) v b = Inr (b\<lparr>flash := (flash b)(addr b := v), CR_PG := False\<rparr>)" for v
    using Suc.prems by (intro writeFlash_erased) auto
  have r: "rd_range data i 2 = Inr (take 2 (drop i data))" using Suc.prems by simp
  have val: "of_le16 (take 2 (drop i data) ! 0) (take 2 (drop i data) ! 1) = hw data (i div 2)"
    using Suc.prems by (simp add: hw_def)
  define c where "c = b\<lparr>flash := (flash b)(addr b := hw data (i div 2)), CR_PG := False,
    addr := addr b + 1, checksum := checksum b +
      (if hi then push_bit 16 (ucast (hw data (i div 2))) else ucast (hw data (i div 2)))\<rparr>"
  have step: "write_loop (Suc n) i hi data b = write_loop n (i + 2) (\<not> hi) data c"
    using r val w by (simp add: c_def Let_def)
  obtain b' where b': "write_loop n (i + 2) (\<not> hi) data c = Inr b'" "same_session c b'"
    "addr b' = addr c + n"
    "flash b' = (\<lambda>k. if addr c \<le> k \<and> k < addr c + n
       then hw data ((i + 2) div 2 + (k - addr c)) else flash c k)"
    using Suc.IH [of c "i + 2" "\<not> hi"] Suc.prems by (auto simp: c_def)
  have "flash b' = (\<lambda>k. if addr b \<le> k \<and> k < addr b + Suc n
      then hw data (i div 2 + (k - addr b)) else flash b k)"
    unfolding b'(4) by (rule ext) (auto simp: c_def not_less_eq suc_diff_shift)
  with b' step show ?case by (auto simp: c_def same_session_def)
qed

lemma bit_u8_high: "8 \<le> n \<Longrightarrow> \<not> bit (b :: u8) n"
  by (auto dest: bit_imp_le_length)

lemma le32_halves:
  "ucast (of_le16 b0 b1) + push_bit 16 (ucast (of_le16 b2 b3)) = of_le32 b0 b1 b2 b3"
proof -
  have "ucast (of_le16 b0 b1) + push_bit 16 (ucast (of_le16 b2 b3)) =
      (ucast (of_le16 b0 b1) OR push_bit 16 (ucast (of_le16 b2 b3)) :: u32)"
    by (rule disjunctive_add) (auto simp: bit_simps dest!: bit_imp_le_length)
  also have "\<dots> = of_le32 b0 b1 b2 b3"
  proof (rule bit_word_eqI)
    fix n assume "n < LENGTH(32)"
    then consider "n < 8" | "8 \<le> n \<and> n < 16" | "16 \<le> n \<and> n < 24" | "24 \<le> n \<and> n < 32" by fastforce
    then show "bit (ucast (of_le16 b0 b1) OR push_bit 16 (ucast (of_le16 b2 b3)) :: u32) n =
        bit (of_le32 b0 b1 b2 b3) n"
      by cases (auto simp: of_le16_def of_le32_def bit_simps bit_u8_high)
  qed
  finally show ?thesis .
qed

text \<open>The sum of the little-endian 32-bit words of a block of bytes.\<close>

fun word_sum :: "u8 list \<Rightarrow> u32" where
  "word_sum (b0 # b1 # b2 # b3 # bs) = of_le32 b0 b1 b2 b3 + word_sum bs"
| "word_sum _ = 0"

lemma writeFlash_checksum: "writeFlash h v b = Inr x \<Longrightarrow> checksum x = checksum b"
  by (auto simp: writeFlash_def program_def bindE_eq_Inr split: if_splits)

lemma write_loop_checksum:
  assumes "write_loop (2 * m) i False data b = Inr b'" "i + 4 * m \<le> length data"
  shows "checksum b' = checksum b + word_sum (take (4 * m) (drop i data))"
  using assms
proof (induction m arbitrary: i b)
  case 0
  then show ?case by simp
next
  case (Suc m)
  have d: "drop i data = data ! i # data ! (i + 1) # data ! (i + 2) # data ! (i + 3) # drop (i + 4) data"
    using Suc.prems(2) by (simp add: Cons_nth_drop_Suc numeral_eq_Suc)
  have r: "rd_range data i 2 = Inr [data ! i, data ! (i + 1)]"
    "rd_range data (i + 2) 2 = Inr [data ! (i + 2), data ! (i + 3)]"
  proof -
    have "drop (i + 2) data = data ! (i + 2) # data ! (i + 3) # drop (i + 4) data"
      using Suc.prems(2) by (simp add: Cons_nth_drop_Suc numeral_eq_Suc)
    with Suc.prems(2) d show "rd_range data i 2 = Inr [data ! i, data ! (i + 1)]"
      "rd_range data (i + 2) 2 = Inr [data ! (i + 2), data ! (i + 3)]"
      by (simp_all add: rd_range_def take_Cons')
  qed
  from Suc.prems(1) r obtain x y where
    x: "writeFlash (addr b) (of_le16 (data ! i) (data ! (i + 1))) b = Inr x" and
    y: "writeFlash (addr x + 1) (of_le16 (data ! (i + 2)) (data ! (i + 3)))
          (x\<lparr>addr := addr x + 1, checksum := checksum x + ucast (of_le16 (data ! i) (data ! (i + 1)))\<rparr>)
        = Inr y" and
    rest: "write_loop (2 * m) (i + 4) False data (y\<lparr>addr := addr y + 1,
       checksum := checksum y + push_bit 16 (ucast (of_le16 (data ! (i + 2)) (data ! (i + 3))))\<rparr>) = Inr b'"
    by (auto simp: bindE_eq_Inr Let_def numeral_2_eq_2 numeral_3_eq_3 numeral_eq_Suc)
  have "checksum b' = checksum y + push_bit 16 (ucast (of_le16 (data ! (i + 2)) (data ! (i + 3)))) +
      word_sum (take (4 * m) (drop (i + 4) data))"
    using Suc.IH [OF rest] Suc.prems(2) by simp
  also have "checksum y = checksum b + ucast (of_le16 (data ! i) (data ! (i + 1)))"
    using writeFlash_checksum [OF x] writeFlash_checksum [OF y] by simp
  finally have "checksum b' = checksum b + (of_le32 (data ! i) (data ! (i + 1)) (data ! (i + 2)) (data ! (i + 3)) +
      word_sum (take (4 * m) (drop (i + 4) data)))"
    by (simp only: le32_halves [symmetric] add.assoc)
  moreover have "take (4 * Suc m) (drop i data) = data ! i # data ! (i + 1) # data ! (i + 2) # data ! (i + 3) #
      take (4 * m) (drop (i + 4) data)"
    unfolding d by (simp add: take_Cons')
  ultimately show ?case by simp
qed

section \<open>A flashing session\<close>

text \<open>The data messages of a session, one chunk each; their answers are dropped.\<close>

fun flash_chunks :: "u8 list list \<Rightarrow> sboot \<Rightarrow> sboot stop + sboot" where
  "flash_chunks [] b = Inr b"
| "flash_chunks (c # cs) b = bindE (write_data c b) (\<lambda>(st, d, b). flash_chunks cs b)"

definition boot_image :: "u8 list list \<Rightarrow> u8 list" where
  "boot_image cs = concat (map (take 64) cs)"

lemma hw_append:
  "length xs = 64 \<Longrightarrow> hw (xs @ ys) k = (if k < 32 then hw xs k else hw ys (k - 32))"
proof (cases "k < 32")
  case False
  then have "2 * k + 1 - 64 = 2 * (k - 32) + 1" "2 * k - 64 = 2 * (k - 32)" by auto
  moreover assume "length xs = 64"
  ultimately show ?thesis using False by (simp add: hw_def nth_append)
qed (auto simp: hw_def nth_append)

lemma word_sum_append: "4 dvd length xs \<Longrightarrow> word_sum (xs @ ys) = word_sum xs + word_sum ys"
proof (induction xs rule: word_sum.induct)
  case (1 b0 b1 b2 b3 bs)
  have "Suc (Suc (Suc (Suc (length bs)))) = length bs + 4" by simp
  then have "4 dvd length bs" using "1.prems" by (simp only: list.size add_Suc_right add_0_right) presburger
  with "1.IH" show ?case by simp
qed (auto dest!: dvd_imp_le)

lemma write_data_ok:
  assumes "unlocked b" "64 \<le> length c" "addr b + 32 \<le> FLASH_HWS" "bsize b \<noteq> 0"
    and "unat (count b) + 64 < 4294967296"
    and "\<forall>k. addr b \<le> k \<and> k < addr b + 32 \<longrightarrow> flash b k = 0xFFFF"
  shows "\<exists>b'. write_data c b = Inr (WR_OK, c, b') \<and> unlocked b' \<and> bsize b' = bsize b \<and>
    addr b' = addr b + 32 \<and> unat (count b') = unat (count b) + 64 \<and>
    checksum b' = checksum b + word_sum (take 64 c) \<and>
    flash b' = (\<lambda>k. if addr b \<le> k \<and> k < addr b + 32 then hw (take 64 c) (k - addr b) else flash b k) \<and>
    flashComplete b' = (flashComplete b \<or> bsize b \<le> count b')"
proof -
  obtain d where d: "write_loop 32 0 False c b = Inr d" "same_session b d" "addr d = addr b + 32"
    "flash d = (\<lambda>k. if addr b \<le> k \<and> k < addr b + 32 then hw c (0 div 2 + (k - addr b)) else flash b k)"
    using write_loop_flash [of b 32 0 c False] assms by auto
  have cs: "checksum d = checksum b + word_sum (take 64 c)"
    using write_loop_checksum [of 16 0 c b d] d(1) assms(2) by simp
  have fl: "flash d = (\<lambda>k. if addr b \<le> k \<and> k < addr b + 32 then hw (take 64 c) (k - addr b) else flash b k)"
    unfolding d(4) by (rule ext) (auto simp: hw_def)
  have ct: "unat (count b + 64) = unat (count b) + 64" using assms(5) by (simp add: unat_add_u32)
  show ?thesis
    using assms(1,4) d cs fl ct
    by (auto simp: write_data_def writeComplete_def same_session_def Let_def)
qed

lemma flash_chunks_ok:
  assumes "unlocked b" "\<forall>c \<in> set cs. 64 \<le> length c" "addr b + 32 * length cs \<le> FLASH_HWS"
    and "bsize b \<noteq> 0" "unat (count b) + 64 * length cs < 4294967296"
    and "\<forall>k. addr b \<le> k \<and> k < addr b + 32 * length cs \<longrightarrow> flash b k = 0xFFFF"
  shows "\<exists>b'. flash_chunks cs b = Inr b' \<and> unat (count b') = unat (count b) + 64 * length cs \<and>
    bsize b' = bsize b \<and> checksum b' = checksum b + word_sum (boot_image cs) \<and>
    flash b' = (\<lambda>k. if addr b \<le> k \<and> k < addr b + 32 * length cs
                     then hw (boot_image cs) (k - addr b) else flash b k) \<and>
    (cs \<noteq> [] \<longrightarrow> flashComplete b' = (flashComplete b \<or> bsize b \<le> count b'))"
  using assms
proof (induction cs arbitrary: b)
  case Nil
  have "flash b = (\<lambda>k. if addr b \<le> k \<and> k < addr b + 0 then hw (boot_image []) (k - addr b) else flash b k)"
    by (rule ext) auto
  then show ?case by (simp add: boot_image_def)
next
  case (Cons c cs)
  obtain d where d: "write_data c b = Inr (WR_OK, c, d)" "unlocked d" "bsize d = bsize b"
    "addr d = addr b + 32" "unat (count d) = unat (count b) + 64"
    "checksum d = checksum b + word_sum (take 64 c)"
    "flash d = (\<lambda>k. if addr b \<le> k \<and> k < addr b + 32 then hw (take 64 c) (k - addr b) else flash b k)"
    "flashComplete d = (flashComplete b \<or> bsize b \<le> count d)"
    using write_data_ok [of b c] Cons.prems by auto
  obtain b' where b': "flash_chunks cs d = Inr b'" "unat (count b') = unat (count d) + 64 * length cs"
    "bsize b' = bsize d" "checksum b' = checksum d + word_sum (boot_image cs)"
    "flash b' = (\<lambda>k. if addr d \<le> k \<and> k < addr d + 32 * length cs
        then hw (boot_image cs) (k - addr d) else flash d k)"
    "cs \<noteq> [] \<longrightarrow> flashComplete b' = (flashComplete d \<or> bsize d \<le> count b')"
    using Cons.IH [of d] Cons.prems d by auto
  have len: "length (take 64 c) = 64" using Cons.prems(2) by simp
  have fl: "flash b' = (\<lambda>k. if addr b \<le> k \<and> k < addr b + 32 * length (c # cs)
      then hw (boot_image (c # cs)) (k - addr b) else flash b k)"
    unfolding b'(5) d(4,7) by (rule ext) (auto simp: boot_image_def hw_append [OF len])
  have ws: "word_sum (boot_image (c # cs)) = word_sum (take 64 c) + word_sum (boot_image cs)"
    using len by (simp add: boot_image_def word_sum_append)
  have fc: "flashComplete b' = (flashComplete b \<or> bsize b \<le> count b')"
  proof (cases "cs = []")
    case True
    with b'(1) d(8) show ?thesis by simp
  next
    case False
    have "count d \<le> count b'" using b'(2) by (simp add: word_le_nat_alt)
    with b'(6) False d(3,8) show ?thesis by auto
  qed
  show ?case using d b' fl ws fc by (auto simp: add.assoc)
qed

lemma pages_cover:
  assumes "n = (z + 63) div 64" "k < 32 * n"
  shows "pages APP_START_PAGE (z div 1024 + (if z mod 1024 \<noteq> 0 then 1 else 0)) (APP_START_HW + k)"
proof -
  define q where "q = z div 1024 + (if z mod 1024 \<noteq> 0 then 1 else 0)"
  have "z \<le> 1024 * q" unfolding q_def using mult_div_mod_eq [of 1024 z] by auto
  then have "z + 63 < (16 * q + 1) * 64" by simp
  then have "n < 16 * q + 1" unfolding assms(1) by (rule less_mult_imp_div_less)
  then show ?thesis
    using assms(2) unfolding q_def [symmetric] pages_def APP_START_PAGE_def APP_START_HW_def by simp
qed

lemma write_header_ok:
  assumes "take 8 hdr = le32 sz @ le32 ERASE_FLASH_KEY" "unat sz \<le> 27 * 1024"
  shows "write_header hdr b = Inr (WR_OK, hdr,
    writeInit sz (b\<lparr>bsize := sz, checksum := 0, flashComplete := False\<rparr>))"
proof -
  have len: "8 \<le> length hdr"
    using arg_cong [OF assms(1), of length] by (simp add: le32_def)
  have "\<not> sz > APP_MAX_SIZE" using assms(2) by (simp add: APP_MAX_SIZE_def word_less_nat_alt)
  with len show ?thesis
    unfolding write_header_def by (simp add: assms(1) le32_def)
qed

section \<open>Properties\<close>

text \<open>
  C8. A whole flashing session of a freshly started submodule bootloader works: a header with the
  key and a size of at most 27 KiB is accepted, then for the chunks of the image (as many as the size
  needs) the application area of the flash holds exactly the image, the bootloader's own flash is
  untouched, the checksum is the sum of the little-endian words of the image, and the checksum
  message starts the application exactly when the host's sum agrees.
\<close>

theorem slave_flash_session:
  assumes "take 8 hdr = le32 sz @ le32 ERASE_FLASH_KEY" and "0 < unat sz" "unat sz \<le> 27 * 1024"
    and "\<forall>c \<in> set cs. 64 \<le> length c" and "length cs = (unat sz + 63) div 64"
  shows "\<exists>b1 b2. write_header hdr (sboot_start f) = Inr (WR_OK, hdr, b1) \<and>
    flash_chunks cs b1 = Inr b2 \<and> flashComplete b2 \<and> checksum b2 = word_sum (boot_image cs) \<and>
    (\<forall>k < 32 * length cs. flash b2 (APP_START_HW + k) = hw (boot_image cs) k) \<and>
    (\<forall>k < APP_START_HW. flash b2 k = f k) \<and>
    (\<forall>d. 4 \<le> length d \<longrightarrow> run_checksum d b2 =
       (if of_le32 (d ! 0) (d ! 1) (d ! 2) (d ! 3) = word_sum (boot_image cs)
        then Inl (JumpToApp APP_START_ADDR b2) else Inr (WR_ERR, d, b2)))"
proof -
  define b1 where "b1 = writeInit sz ((sboot_start f)\<lparr>bsize := sz, checksum := 0, flashComplete := False\<rparr>)"
  have hd: "write_header hdr (sboot_start f) = Inr (WR_OK, hdr, b1)"
    unfolding b1_def by (rule write_header_ok [OF assms(1,3)])
  have b1: "unlocked b1" "addr b1 = APP_START_HW" "bsize b1 = sz" "count b1 = 0" "checksum b1 = 0"
    "flash b1 = (\<lambda>h. if pages APP_START_PAGE (numPages sz) h then 0xFFFF else f h)"
    "\<not> flashComplete b1"
    by (simp_all add: b1_def writeInit_eq sboot_start_def cong: if_cong)
  have n: "64 * length cs < unat sz + 64" "unat sz \<le> 64 * length cs" unfolding assms(5) by linarith+
  have room: "APP_START_HW + 32 * length cs \<le> FLASH_HWS"
    using n assms(3) by (simp add: APP_START_HW_def FLASH_HWS_def)
  have erased: "\<forall>k. addr b1 \<le> k \<and> k < addr b1 + 32 * length cs \<longrightarrow> flash b1 k = 0xFFFF"
  proof (intro allI impI)
    fix k assume k: "addr b1 \<le> k \<and> k < addr b1 + 32 * length cs"
    then have "pages APP_START_PAGE (numPages sz) (APP_START_HW + (k - APP_START_HW))"
      unfolding numPages_def b1(2) by (intro pages_cover [OF assms(5)]) linarith
    with k show "flash b1 k = 0xFFFF" by (simp add: b1)
  qed
  obtain b2 where b2: "flash_chunks cs b1 = Inr b2" "unat (count b2) = unat (count b1) + 64 * length cs"
    "checksum b2 = checksum b1 + word_sum (boot_image cs)"
    "flash b2 = (\<lambda>k. if addr b1 \<le> k \<and> k < addr b1 + 32 * length cs
        then hw (boot_image cs) (k - addr b1) else flash b1 k)"
    "cs \<noteq> [] \<longrightarrow> flashComplete b2 = (flashComplete b1 \<or> bsize b1 \<le> count b2)"
  proof -
    have "addr b1 + 32 * length cs \<le> FLASH_HWS" "bsize b1 \<noteq> 0"
      "unat (count b1) + 64 * length cs < 4294967296"
      using room assms(2,3) n b1(2,3,4) by auto
    from flash_chunks_ok [OF b1(1) assms(4) this erased] that show ?thesis by blast
  qed
  have "cs \<noteq> []" using n(2) assms(2) by auto
  moreover have "sz \<le> count b2" using b2(2) n(2) b1(4) by (simp add: word_le_nat_alt)
  ultimately have fc: "flashComplete b2" using b2(5) b1(3) by simp
  have cs: "checksum b2 = word_sum (boot_image cs)" using b2(3) b1(5) by simp
  have "\<forall>k < 32 * length cs. flash b2 (APP_START_HW + k) = hw (boot_image cs) k"
    by (simp add: b2(4) b1(2))
  moreover have "\<forall>k < APP_START_HW. flash b2 k = f k"
    by (simp add: b2(4) b1(2,6) pages_def APP_START_PAGE_def APP_START_HW_def)
  moreover have "\<forall>d. 4 \<le> length d \<longrightarrow> run_checksum d b2 =
      (if of_le32 (d ! 0) (d ! 1) (d ! 2) (d ! 3) = word_sum (boot_image cs)
       then Inl (JumpToApp APP_START_ADDR b2) else Inr (WR_ERR, d, b2))"
    using fc cs by (simp add: run_checksum_def)
  ultimately show ?thesis using hd b2(1) fc cs by blast
qed

theorem slave_flash_session_witness:
  "\<exists>b1 b2. write_header (le32 100 @ le32 ERASE_FLASH_KEY) (sboot_start (\<lambda>k. 7)) =
       Inr (WR_OK, le32 100 @ le32 ERASE_FLASH_KEY, b1) \<and>
     flash_chunks [replicate 64 1, replicate 64 2] b1 = Inr b2 \<and> flashComplete b2 \<and> flash b2 3 = 7"
  using slave_flash_session [of "le32 100 @ le32 ERASE_FLASH_KEY" 100 "[replicate 64 1, replicate 64 2]" "\<lambda>k. 7"]
  by (fastforce simp: le32_def APP_START_HW_def)

text \<open>
  The bootloader cannot be told to reset: message 10, with which the master puts a submodule
  into its bootloader, has no callback there, so the bootloader returns to the start state without
  an answer, and a master that asks it to reboot again gets none.
\<close>

theorem slave_boot_ignores_reboot:
  assumes "state s = START_BYTE"
  shows "foldE boot_fsm [COMMS_START_BYTE, BOOT_MSG] s =
    Inr (s\<lparr>port := clearSPIInt (port s), msgType := BOOT_MSG, dataSize := 0, state := START_BYTE\<rparr>)"
  using assms
  by (cases s) (simp add: boot_fsm_def runCommsFSM_def fsm_msg_type_def boot_msgResp_def BOOT_MSG_def
      NUM_MSGS_def COMMS_START_BYTE_def)

theorem slave_boot_ignores_reboot_witness:
  "\<exists>s'. foldE boot_fsm [COMMS_START_BYTE, BOOT_MSG] (slave_start [] (sboot_start (\<lambda>k. 0))) = Inr s' \<and>
     miso (port s') = []"
  using slave_boot_ignores_reboot [of "slave_start [] (sboot_start (\<lambda>k. 0))"]
  by (simp add: slave_start_def clearSPIInt_def)

end
