(* ===== verification/SubmoduleComms.thy ===== *)
theory SubmoduleComms
  imports SlaveComms
begin

text \<open>
  The master's side of the submodule bus, \<^verbatim>\<open>master_lib/drivers/submoduleComms.c\<close>. The record holds the
  chip-select lines, the traffic on the bus, and what the environment will show: the level of the
  interrupt pin at each read, the value of \<^verbatim>\<open>HAL_GetTick\<close> at each call, and the bytes the selected
  submodule puts on the line (an idle line reads as 0). When the environment has no further
  observation the code is still waiting.
\<close>

section \<open>State\<close>

datatype module_t = APOLLO | HEPHAESTUS | HERMES | JANUS | ZEUS | OLYMPUS | NONE

fun module_code :: "module_t \<Rightarrow> nat" where
  "module_code APOLLO = 0"
| "module_code HEPHAESTUS = 1"
| "module_code HERMES = 2"
| "module_code JANUS = 3"
| "module_code ZEUS = 4"
| "module_code OLYMPUS = 5"
| "module_code NONE = 255"

type_synonym commsStatus_t = u8

definition COMMS_ERR_TIMEOUT :: commsStatus_t where "COMMS_ERR_TIMEOUT = 0x05"
definition COMMS_OK :: commsStatus_t where "COMMS_OK = 0xAA"
definition COMMS_ERR_NOT_IMPL :: commsStatus_t where "COMMS_ERR_NOT_IMPL = 0xAB"
definition SUBMODULE_START_BYTE :: u8 where "SUBMODULE_START_BYTE = 0xEA"

record mspi =
  cs :: "bool list"              \<comment> \<open>level of each chip select; low selects\<close>
  traffic :: "(nat \<times> u8 list) list"   \<comment> \<open>bytes sent, with the module they were sent to\<close>
  ints :: "bool list"
  ticks :: "u32 list"
  line :: "u8 list"

section \<open>Operations\<close>

definition selectModule :: "module_t \<Rightarrow> mspi \<Rightarrow> mspi cres" where
  "selectModule m b = bindE (wr (cs b) (module_code m) False) (\<lambda>l. Inr (b\<lparr>cs := l\<rparr>))"

definition deselectModule :: "module_t \<Rightarrow> mspi \<Rightarrow> mspi cres" where
  "deselectModule m b = bindE (wr (cs b) (module_code m) True) (\<lambda>l. Inr (b\<lparr>cs := l\<rparr>))"

definition HAL_GetTick :: "mspi \<Rightarrow> mspi stop + (u32 \<times> mspi)" where
  "HAL_GetTick b = (case ticks b of [] \<Rightarrow> Inl (Waits b) | t # ts \<Rightarrow> Inr (t, b\<lparr>ticks := ts\<rparr>))"

definition HAL_SPI_Send :: "module_t \<Rightarrow> u8 list \<Rightarrow> mspi \<Rightarrow> mspi" where
  "HAL_SPI_Send m bs b = b\<lparr>traffic := traffic b @ [(module_code m, bs)]\<rparr>"

definition HAL_SPI_Receive :: "nat \<Rightarrow> mspi \<Rightarrow> u8 list \<times> mspi" where
  "HAL_SPI_Receive n b = (take n (line b @ replicate n 0), b\<lparr>line := drop n (line b)\<rparr>)"

text \<open>\<^verbatim>\<open>while (pin != want && HAL_GetTick() < timeUp);\<close>\<close>

fun wait_int :: "bool \<Rightarrow> u32 \<Rightarrow> bool list \<Rightarrow> mspi \<Rightarrow> mspi stop + mspi" where
  "wait_int want timeUp [] b = Inl (Waits (b\<lparr>ints := []\<rparr>))"
| "wait_int want timeUp (p # ps) b =
     (if p = want then Inr (b\<lparr>ints := ps\<rparr>)
      else bindE (HAL_GetTick b) (\<lambda>(t, b).
           if t < timeUp then wait_int want timeUp ps b else Inr (b\<lparr>ints := ps\<rparr>)))"

definition messageSubmodule ::
    "module_t \<Rightarrow> u8 \<Rightarrow> u8 list \<Rightarrow> u8 \<Rightarrow> u8 \<Rightarrow> u32 \<Rightarrow> mspi \<Rightarrow> mspi stop + (commsStatus_t \<times> u8 list \<times> mspi)" where
  "messageSubmodule m msg_type buf tx_size rx_size timeout b =
     bindE (ckd (selectModule m b)) (\<lambda>b.
     let b = HAL_SPI_Send m [SUBMODULE_START_BYTE, msg_type] b in
     bindE (if tx_size \<noteq> 0
            then bindE (ckd (rd_range buf 0 (unat tx_size))) (\<lambda>bs. Inr (HAL_SPI_Send m bs b))
            else Inr b) (\<lambda>b.
     bindE (HAL_GetTick b) (\<lambda>(t, b).
     let timeUp = t + timeout in
     bindE (wait_int True timeUp (ints b) b) (\<lambda>b.
     bindE (HAL_GetTick b) (\<lambda>(t, b).
     if t \<ge> timeUp then
       bindE (ckd (deselectModule m b)) (\<lambda>b. Inr (COMMS_ERR_TIMEOUT, buf, b))
     else
       (case HAL_SPI_Receive 1 b of (st, b) \<Rightarrow>
        bindE (if rx_size \<noteq> 0
               then (case HAL_SPI_Receive (unat rx_size) b of (d, b) \<Rightarrow>
                       bindE (ckd (wr_range buf 0 d)) (\<lambda>buf. Inr (buf, b)))
               else Inr (buf, b)) (\<lambda>(buf, b).
        bindE (HAL_GetTick b) (\<lambda>(t, b).
        let timeUp = t + timeout in
        bindE (wait_int False timeUp (ints b) b) (\<lambda>b.
        bindE (ckd (deselectModule m b)) (\<lambda>b. Inr (st ! 0, buf, b)))))))))))"

section \<open>Lemmas\<close>

definition mspi_wf :: "mspi \<Rightarrow> bool" where
  "mspi_wf b \<longleftrightarrow> length (cs b) = 5"

text \<open>The transfers of one message, in order.\<close>

definition frames :: "module_t \<Rightarrow> u8 \<Rightarrow> u8 list \<Rightarrow> (nat \<times> u8 list) list" where
  "frames m mt ds =
     (module_code m, [SUBMODULE_START_BYTE, mt]) # (if ds = [] then [] else [(module_code m, ds)])"

lemma wait_int_ok:
  assumes "\<forall>t \<in> set ts. t < timeUp" "ticks b = ts @ rest"
  shows "wait_int want timeUp (replicate (length ts) (\<not> want) @ want # ps) b =
    Inr (b\<lparr>ints := ps, ticks := rest\<rparr>)"
  using assms
proof (induction ts arbitrary: b)
  case Nil
  then show ?case by simp
next
  case (Cons t ts)
  then show ?case by (simp add: HAL_GetTick_def)
qed

text \<open>
  No message to one of the five submodules leaves defined behaviour, whatever the submodule does,
  provided the buffer is as long as the message says.
\<close>

lemma wait_int_no_fault:
  "no_fault (wait_int want timeUp ps b)"
  "wait_int want timeUp ps b = Inr b' \<Longrightarrow> cs b' = cs b \<and> traffic b' = traffic b"
  by (induction ps arbitrary: b)
    (auto simp: HAL_GetTick_def split: list.splits if_splits)

text \<open>
  \<open>answered timeout st ds b b'\<close>: in the environment of \<open>b\<close> the selected submodule raises its pin
  before the time is up, puts the status \<open>st\<close> and the data \<open>ds\<close> on the line, and lowers the pin
  again in time; \<open>b'\<close> is \<open>b\<close> with these observations consumed.
\<close>

definition answered :: "u32 \<Rightarrow> u8 \<Rightarrow> u8 list \<Rightarrow> mspi \<Rightarrow> mspi \<Rightarrow> bool" where
  "answered timeout st ds b b' \<longleftrightarrow> (\<exists>t0 ts1 t1 t2 ts2 rest ps more.
     ticks b = t0 # ts1 @ t1 # t2 # ts2 @ rest \<and>
     (\<forall>t \<in> set ts1. t < t0 + timeout) \<and> t1 < t0 + timeout \<and> (\<forall>t \<in> set ts2. t < t2 + timeout) \<and>
     ints b = replicate (length ts1) False @ True # replicate (length ts2) True @ False # ps \<and>
     line b = st # ds @ more \<and>
     b' = b\<lparr>ticks := rest, ints := ps, line := more\<rparr>)"

text \<open>The quickest answer: the pin is up at the first look and down again at the next.\<close>

lemma answered_at_once:
  assumes "ticks b = t # t # t # rest" "t < t + timeout" "ints b = True # False # ps" "line b = st # ds @ ln"
  shows "answered timeout st ds b (b\<lparr>ticks := rest, ints := ps, line := ln\<rparr>)"
  unfolding answered_def
  by (rule exI [of _ t], rule exI [of _ "[]"], rule exI [of _ t], rule exI [of _ t],
      rule exI [of _ "[]"], rule exI [of _ rest], rule exI [of _ ps], rule exI [of _ ln])
    (simp add: assms)

text \<open>\<open>silent timeout b b'\<close>: the pin stays low until the time is up.\<close>

definition silent :: "u32 \<Rightarrow> mspi \<Rightarrow> mspi \<Rightarrow> bool" where
  "silent timeout b b' \<longleftrightarrow> (\<exists>t0 ts1 t1 t2 rest ps.
     ticks b = t0 # ts1 @ t1 # t2 # rest \<and>
     (\<forall>t \<in> set ts1. t < t0 + timeout) \<and> t1 \<ge> t0 + timeout \<and> t2 \<ge> t0 + timeout \<and>
     ints b = replicate (length ts1) False @ False # ps \<and>
     b' = b\<lparr>ticks := rest, ints := ps\<rparr>)"

lemma silent_at_once:
  assumes "ticks b = t # u # u # rest" "t + timeout \<le> u" "ints b = False # ps"
  shows "silent timeout b (b\<lparr>ticks := rest, ints := ps\<rparr>)"
  unfolding silent_def
  by (rule exI [of _ t], rule exI [of _ "[]"], rule exI [of _ u], rule exI [of _ u],
      rule exI [of _ rest], rule exI [of _ ps])
    (simp add: assms)

lemma answered_wf: "answered timeout st ds b b' \<Longrightarrow> mspi_wf b' = mspi_wf b"
  by (auto simp: answered_def mspi_wf_def)

lemma silent_wf: "silent timeout b b' \<Longrightarrow> mspi_wf b' = mspi_wf b"
  by (auto simp: silent_def mspi_wf_def)

definition after_message :: "module_t \<Rightarrow> u8 \<Rightarrow> u8 list \<Rightarrow> mspi \<Rightarrow> mspi" where
  "after_message m mt ds b =
     b\<lparr>cs := (cs b)[module_code m := True], traffic := traffic b @ frames m mt ds\<rparr>"

lemma mspi_wf_after [simp]: "mspi_wf (after_message m mt ds b) = mspi_wf b"
  by (simp add: mspi_wf_def after_message_def)

lemma wait_int_timeout:
  assumes "\<forall>t \<in> set ts. t < timeUp" "ticks b = ts @ t1 # rest" "t1 \<ge> timeUp"
  shows "wait_int True timeUp (replicate (length ts) False @ False # ps) b =
    Inr (b\<lparr>ints := ps, ticks := rest\<rparr>)"
  using assms
proof (induction ts arbitrary: b)
  case Nil
  then have "\<not> t1 < timeUp" by auto
  with Nil show ?case by (simp add: HAL_GetTick_def)
next
  case (Cons t ts)
  then show ?case by (simp add: HAL_GetTick_def)
qed

lemma message_sent:
  assumes "mspi_wf b" "module_code m < 5" "unat tx \<le> length buf"
  shows "messageSubmodule m mt buf tx rx timeout b =
    (let b = b\<lparr>cs := (cs b)[module_code m := False], traffic := traffic b @ frames m mt (take (unat tx) buf)\<rparr>
     in bindE (HAL_GetTick b) (\<lambda>(t, b).
     let timeUp = t + timeout in
     bindE (wait_int True timeUp (ints b) b) (\<lambda>b.
     bindE (HAL_GetTick b) (\<lambda>(t, b).
     if t \<ge> timeUp then
       bindE (ckd (deselectModule m b)) (\<lambda>b. Inr (COMMS_ERR_TIMEOUT, buf, b))
     else
       (case HAL_SPI_Receive 1 b of (st, b) \<Rightarrow>
        bindE (if rx \<noteq> 0
               then (case HAL_SPI_Receive (unat rx) b of (d, b) \<Rightarrow>
                       bindE (ckd (wr_range buf 0 d)) (\<lambda>buf. Inr (buf, b)))
               else Inr (buf, b)) (\<lambda>(buf, b).
        bindE (HAL_GetTick b) (\<lambda>(t, b).
        let timeUp = t + timeout in
        bindE (wait_int False timeUp (ints b) b) (\<lambda>b.
        bindE (ckd (deselectModule m b)) (\<lambda>b. Inr (st ! 0, buf, b))))))))))"
proof (cases "tx = 0")
  case True
  with assms show ?thesis
    unfolding messageSubmodule_def
    by (simp add: selectModule_def mspi_wf_def HAL_SPI_Send_def frames_def)
next
  case False
  then have "0 < unat tx" by (simp add: unat_gt_0)
  with False assms(3) have "take (unat tx) buf \<noteq> []" by (auto simp: take_eq_Nil)
  with False assms show ?thesis
    unfolding messageSubmodule_def
    by (simp add: selectModule_def mspi_wf_def HAL_SPI_Send_def frames_def)
qed

lemma message_answered_ok:
  assumes "mspi_wf b" "module_code m < 5" "unat tx \<le> length buf"
    and "answered timeout st ds b b'" "unat rx = length ds" "length ds \<le> length buf"
  shows "messageSubmodule m mt buf tx rx timeout b =
    Inr (st, ds @ drop (length ds) buf, after_message m mt (take (unat tx) buf) b')"
proof -
  obtain t0 ts1 t1 t2 ts2 rest ps more where
    tk: "ticks b = t0 # ts1 @ t1 # t2 # ts2 @ rest" and
    lt: "\<forall>t \<in> set ts1. t < t0 + timeout" "t1 < t0 + timeout" "\<forall>t \<in> set ts2. t < t2 + timeout" and
    ip: "ints b = replicate (length ts1) False @ True # replicate (length ts2) True @ False # ps" and
    ln: "line b = st # ds @ more" and b': "b' = b\<lparr>ticks := rest, ints := ps, line := more\<rparr>"
    using assms(4) unfolding answered_def by blast
  have w1: "wait_int True (t0 + timeout) (replicate (length ts1) False @ True # qs) c =
      Inr (c\<lparr>ints := qs, ticks := t1 # t2 # ts2 @ rest\<rparr>)"
    if "ticks c = ts1 @ t1 # t2 # ts2 @ rest" for qs c
    using wait_int_ok [OF lt(1) that, of True] by simp
  have w2: "wait_int False (t2 + timeout) (replicate (length ts2) True @ False # ps) c =
      Inr (c\<lparr>ints := ps, ticks := rest\<rparr>)" if "ticks c = ts2 @ rest" for c
    using wait_int_ok [OF lt(3) that, of False] by simp
  have rx: "rx = 0 \<longleftrightarrow> ds = []" using assms(5) by (metis length_0_conv unat_eq_zero)
  show ?thesis
    unfolding message_sent [OF assms(1-3)] b'
    using assms(1,2,5,6) lt(2) rx
    by (cases "rx = 0")
      (simp_all add: HAL_GetTick_def tk ip ln w1 w2 HAL_SPI_Receive_def deselectModule_def mspi_wf_def
        after_message_def not_le [symmetric] Let_def)
qed

lemma message_silent:
  assumes "mspi_wf b" "module_code m < 5" "unat tx \<le> length buf" "silent timeout b b'"
  shows "messageSubmodule m mt buf tx rx timeout b =
    Inr (COMMS_ERR_TIMEOUT, buf, after_message m mt (take (unat tx) buf) b')"
proof -
  obtain t0 ts1 t1 t2 rest ps where
    tk: "ticks b = t0 # ts1 @ t1 # t2 # rest" and
    lt: "\<forall>t \<in> set ts1. t < t0 + timeout" "t1 \<ge> t0 + timeout" "t2 \<ge> t0 + timeout" and
    ip: "ints b = replicate (length ts1) False @ False # ps" and b': "b' = b\<lparr>ticks := rest, ints := ps\<rparr>"
    using assms(4) unfolding silent_def by blast
  have w: "wait_int True (t0 + timeout) (replicate (length ts1) False @ False # ps) c =
      Inr (c\<lparr>ints := ps, ticks := t2 # rest\<rparr>)" if "ticks c = ts1 @ t1 # t2 # rest" for c
    by (rule wait_int_timeout [OF lt(1) that lt(2)])
  show ?thesis
    unfolding message_sent [OF assms(1-3)] b'
    using assms(1,2) lt(3)
    by (simp add: HAL_GetTick_def tk ip w deselectModule_def mspi_wf_def after_message_def Let_def)
qed

section \<open>Properties\<close>

text \<open>
  C22. A message to a submodule that answers in time: the frame with its data goes out on the bus,
  \<^verbatim>\<open>messageSubmodule\<close> returns the submodule's status byte, the received data is at the start of the
  buffer, and the submodule is deselected at the end.
\<close>

theorem master_message_answered:
  assumes "length (cs b) = 5" and "module_code m < 5" and "unat tx \<le> length buf"
    and "answered timeout st ds b b'" and "unat rx = length ds" and "length ds \<le> length buf"
  shows "\<exists>c. messageSubmodule m mt buf tx rx timeout b = Inr (st, ds @ drop (length ds) buf, c) \<and>
    traffic c = traffic b @ frames m mt (take (unat tx) buf) \<and> cs c ! module_code m"
proof -
  have "cs b' = cs b" "traffic b' = traffic b" using assms(4) by (auto simp: answered_def)
  with assms message_answered_ok [of b m tx buf timeout st ds b' rx mt] show ?thesis
    by (simp add: mspi_wf_def after_message_def)
qed

definition mspi_idle :: "u32 list \<Rightarrow> bool list \<Rightarrow> u8 list \<Rightarrow> mspi" where
  "mspi_idle ts ps ln = \<lparr>cs = replicate 5 True, traffic = [], ints = ps, ticks = ts, line = ln\<rparr>"

theorem master_message_answered_witness:
  "\<exists>c. messageSubmodule JANUS 1 [9, 9, 9] 0 1 5 (mspi_idle [100, 101, 102, 102] [False, True, False] [0xAA, 2]) =
      Inr (0xAA, [2, 9, 9], c) \<and> traffic c = [(3, [0xEA, 1])] \<and> cs c ! 3"
proof -
  have "answered 5 0xAA [2] (mspi_idle [100, 101, 102, 102] [False, True, False] [0xAA, 2])
      ((mspi_idle [100, 101, 102, 102] [False, True, False] [0xAA, 2])\<lparr>ticks := [], ints := [], line := []\<rparr>)"
    unfolding answered_def
    by (rule exI [of _ 100], rule exI [of _ "[101]"], rule exI [of _ 102], rule exI [of _ 102],
        rule exI [of _ "[]"], rule exI [of _ "[]"], rule exI [of _ "[]"], rule exI [of _ "[]"])
      (simp add: mspi_idle_def)
  from master_message_answered [OF _ _ _ this, of JANUS 0 "[9, 9, 9]" 1 1] show ?thesis
    by (auto simp: mspi_idle_def frames_def SUBMODULE_START_BYTE_def)
qed

text \<open>
  The tick counter wraps: if \<^verbatim>\<open>HAL_GetTick() + timeout\<close> overflows when a message starts, then a
  submodule that answers at once is reported as timed out, because the wrapped limit is below the
  current tick.
\<close>

theorem master_message_fails_at_tick_wrap:
  assumes "length (cs b) = 5" and "module_code m < 5" and "unat tx \<le> length buf"
    and "ticks b = t0 # t1 # rest" and "ints b = True # ps" and "t0 \<le> t1" and "t0 + timeout < t0"
  shows "\<exists>c. messageSubmodule m mt buf tx rx timeout b = Inr (COMMS_ERR_TIMEOUT, buf, c)"
proof -
  have "t1 \<ge> t0 + timeout" using assms(6,7) by simp
  with assms message_sent [of b m tx buf mt rx timeout] show ?thesis
    by (simp add: mspi_wf_def HAL_GetTick_def deselectModule_def Let_def)
qed

theorem master_message_fails_at_tick_wrap_witness:
  "\<exists>c. messageSubmodule HERMES 0 [] 0 0 5 (mspi_idle [0xFFFFFFFE, 0xFFFFFFFE] [True] [0xAA]) =
     Inr (COMMS_ERR_TIMEOUT, [], c)"
  using master_message_fails_at_tick_wrap [of "mspi_idle [0xFFFFFFFE, 0xFFFFFFFE] [True] [0xAA]" HERMES 0 "[]"
      "0xFFFFFFFE" "0xFFFFFFFE" "[]" "[]" 5 0 0]
  by (simp add: mspi_idle_def)

end
