(* ===== verification/MasterBoot.thy ===== *)
theory MasterBoot
  imports SubmoduleComms DoubleBuffer
begin

text \<open>
  The bootloader of the Olympus board: \<^verbatim>\<open>master_boot/drivers/boot.c\<close>, \<^verbatim>\<open>master_boot/drivers/flash.c\<close> and
  the loop of \<^verbatim>\<open>master_boot/main.c\<close>. It programs the flash of Olympus itself or hands an image on to a
  submodule's bootloader. Flash memory is 1 MiB of words counted from \<^verbatim>\<open>0x08000000\<close>; as the reference
  manual says, programming can only clear bits, erasing a sector sets them, and a store outside is a
  bus fault.
\<close>

section \<open>State\<close>

definition CHUNK_SIZE :: u32 where "CHUNK_SIZE = 64"
definition ERASE_FLASH_KEY :: u32 where "ERASE_FLASH_KEY = 0x666C6170"
definition OLYMPUS_KEY :: u32 where "OLYMPUS_KEY = 0x4F4C594D"
definition APOLLO_KEY :: u32 where "APOLLO_KEY = 0x41504F4C"
definition HEPHAESTUS_KEY :: u32 where "HEPHAESTUS_KEY = 0x48455048"
definition HERMES_KEY :: u32 where "HERMES_KEY = 0x4845524D"
definition JANUS_KEY :: u32 where "JANUS_KEY = 0x4A414E55"
definition ZEUS_KEY :: u32 where "ZEUS_KEY = 0x5A455553"

definition NO_ERR :: u8 where "NO_ERR = 0"
definition ERR_DATA_WRITE :: u8 where "ERR_DATA_WRITE = 1"
definition ERR_CHECKSUM :: u8 where "ERR_CHECKSUM = 2"
definition ERR_INVALID_HEADER :: u8 where "ERR_INVALID_HEADER = 3"
definition ERR_FLASH_ERASE :: u8 where "ERR_FLASH_ERASE = 4"
definition ERR_REBOOT_FAIL :: u8 where "ERR_REBOOT_FAIL = 5"
definition ERR_REBOOT_START :: u8 where "ERR_REBOOT_START = 6"
definition ERR_REBOOT_STATUS :: u8 where "ERR_REBOOT_STATUS = 8"

text \<open>The values of \<^verbatim>\<open>msgType_t\<close>; the variable holds whatever word the host sent.\<close>

definition DATA :: u32 where "DATA = 0"
definition CHECKSUM :: u32 where "CHECKSUM = 1"
definition HEADER :: u32 where "HEADER = 2"
definition JUMP :: u32 where "JUMP = 3"
definition DMY :: u32 where "DMY = 65535"

lemmas msg_consts = DATA_def CHECKSUM_def HEADER_def JUMP_def DMY_def

definition BOOT_SUBMODULE_TIMEOUT :: u32 where "BOOT_SUBMODULE_TIMEOUT = 100"
definition BOOT_FLASH_TIMEOUT :: u32 where "BOOT_FLASH_TIMEOUT = 5000"

record bootHeader_t =
  dkey :: u32
  size :: u32
  fkey :: u32

record mboot =
  mflash :: "nat \<Rightarrow> u32"
  munlocked :: bool
  mPG :: bool
  dataAddr :: nat
  mmsg :: u32
  mcount :: u32
  mmodule :: module_t
  header :: bootHeader_t
  mchecksum :: u32
  submoduleCommsBuff :: "u8 list"
  bus :: mspi
  responses :: "u8 list"

definition FLASH_WORDS :: nat where "FLASH_WORDS = 262144"
definition USER_APP_BASE :: nat where "USER_APP_BASE = 32768"
definition USER_APP_BASE_PTR :: u32 where "USER_APP_BASE_PTR = 0x08020000"

section \<open>Flash\<close>

text \<open>First word of each of the twelve sectors, and the end.\<close>

definition sector_start :: "nat list" where
  "sector_start = [0, 4096, 8192, 12288, 16384, 32768, 65536, 98304, 131072, 163840, 196608, 229376, 262144]"

text \<open>\<^verbatim>\<open>eraseSector\<close> puts the low four bits of its argument into the sector field.\<close>

definition eraseSector :: "u8 \<Rightarrow> mboot \<Rightarrow> mboot" where
  "eraseSector sector b =
     (let s = unat (sector AND 15) in
      if munlocked b \<and> s < 12
      then b\<lparr>mflash := (\<lambda>w. if sector_start ! s \<le> w \<and> w < sector_start ! (s + 1)
                             then 0xFFFFFFFF else mflash b w), mPG := False\<rparr>
      else b\<lparr>mPG := False\<rparr>)"

definition writeInit :: "u32 \<Rightarrow> mboot \<Rightarrow> mboot" where
  "writeInit progsize b =
     (let numSectors = unat progsize div 131072 + (if unat progsize mod 131072 \<noteq> 0 then 1 else 0)
      in (fold (\<lambda>sector. eraseSector (of_nat (5 + sector))) [0..<numSectors] (b\<lparr>munlocked := True\<rparr>))
           \<lparr>mPG := True\<rparr>)"

definition writeFlash :: "nat \<Rightarrow> u32 \<Rightarrow> mboot \<Rightarrow> mboot cres" where
  "writeFlash loc data b =
     (if loc < FLASH_WORDS
      then Inr (if munlocked b \<and> mPG b then b\<lparr>mflash := (mflash b)(loc := mflash b loc AND data)\<rparr> else b)
      else Inl OutOfBounds)"

definition completeWrite :: "mboot \<Rightarrow> mboot" where
  "completeWrite b = b\<lparr>mPG := False\<rparr>"

section \<open>The state machine\<close>

definition writeResponse :: "u8 \<Rightarrow> mboot \<Rightarrow> mboot" where
  "writeResponse r b = b\<lparr>responses := responses b @ [r]\<rparr>"

definition jumpToApp :: "u32 \<Rightarrow> mboot \<Rightarrow> mboot stop + mboot" where
  "jumpToApp address b = Inl (JumpToApp address b)"

definition in_bus :: "mboot \<Rightarrow> mspi stop + 'b \<Rightarrow> mboot stop + 'b" where
  "in_bus b r = (case r of Inl e \<Rightarrow> Inl (map_stop (\<lambda>m. b\<lparr>bus := m\<rparr>) e) | Inr x \<Rightarrow> Inr x)"

lemma in_bus_simps [simp]: "in_bus b (Inr x) = Inr x"
  "in_bus b (Inl e) = Inl (map_stop (\<lambda>m. b\<lparr>bus := m\<rparr>) e)"
  by (simp_all add: in_bus_def)

text \<open>
  \<open>ask mt tx timeout err k b\<close>: one message to the submodule from the shared buffer; on any answer but
  \<^verbatim>\<open>COMMS_OK\<close> the error goes to the host and the machine waits for a message type again, otherwise \<open>k\<close>
  goes on.
\<close>

definition ask :: "u8 \<Rightarrow> u8 \<Rightarrow> u32 \<Rightarrow> u8 \<Rightarrow> (mboot \<Rightarrow> mboot stop + mboot) \<Rightarrow> mboot \<Rightarrow> mboot stop + mboot" where
  "ask mt tx timeout err k b =
     bindE (in_bus b (messageSubmodule (mmodule b) mt (submoduleCommsBuff b) tx 0 timeout (bus b)))
       (\<lambda>(st, buf, m).
     let b = b\<lparr>submoduleCommsBuff := buf, bus := m\<rparr> in
     if st \<noteq> COMMS_OK then Inr ((writeResponse err b)\<lparr>mmsg := DMY\<rparr>) else k b)"

definition data_done :: "mboot \<Rightarrow> mboot stop + mboot" where
  "data_done b =
     (let b = (if mcount b mod CHUNK_SIZE = 0 \<or> mcount b = size (header b)
               then writeResponse NO_ERR b else b)
      in if mcount b = size (header b)
         then Inr ((if mmodule b = OLYMPUS then completeWrite b else b)\<lparr>mcount := 0, mmsg := DMY\<rparr>)
         else Inr b)"

definition fsm_data :: "u32 \<Rightarrow> mboot \<Rightarrow> mboot stop + mboot" where
  "fsm_data data b =
     (if mmodule b = OLYMPUS then
        bindE (ckd (writeFlash (dataAddr b) data b)) (\<lambda>b.
        data_done (b\<lparr>dataAddr := dataAddr b + 1, mcount := mcount b + 4,
                     mchecksum := mchecksum b + data\<rparr>))
      else
        bindE (ckd (wr_range (submoduleCommsBuff b) (unat (mcount b mod CHUNK_SIZE)) (le32 data))) (\<lambda>buf.
        let b = b\<lparr>submoduleCommsBuff := buf, mcount := mcount b + 4\<rparr> in
        if mcount b mod CHUNK_SIZE = 0 \<or> mcount b = size (header b) then
          bindE (if mcount b = size (header b) \<and> mcount b mod CHUNK_SIZE \<noteq> 0
                 then ckd (wr_range (submoduleCommsBuff b) (unat (mcount b mod CHUNK_SIZE))
                             (replicate (unat (CHUNK_SIZE - mcount b mod CHUNK_SIZE)) 0))
                 else Inr (submoduleCommsBuff b)) (\<lambda>buf.
          ask 0x02 64 BOOT_SUBMODULE_TIMEOUT ERR_DATA_WRITE data_done (b\<lparr>submoduleCommsBuff := buf\<rparr>))
        else data_done b))"

definition fsm_checksum :: "u32 \<Rightarrow> mboot \<Rightarrow> mboot stop + mboot" where
  "fsm_checksum data b =
     (if mmodule b = OLYMPUS then
        Inr ((writeResponse (if data = mchecksum b then NO_ERR else ERR_CHECKSUM) b)\<lparr>mmsg := DMY\<rparr>)
      else
        bindE (ckd (wr_range (submoduleCommsBuff b) 0 (le32 data))) (\<lambda>buf.
        ask 0x03 4 BOOT_SUBMODULE_TIMEOUT ERR_CHECKSUM
          (\<lambda>b. Inr ((writeResponse NO_ERR b)\<lparr>mmsg := DMY\<rparr>)) (b\<lparr>submoduleCommsBuff := buf\<rparr>)))"

definition module_of_key :: "u32 \<Rightarrow> module_t" where
  "module_of_key k =
     (if k = OLYMPUS_KEY then OLYMPUS else if k = APOLLO_KEY then APOLLO
      else if k = HEPHAESTUS_KEY then HEPHAESTUS else if k = HERMES_KEY then HERMES
      else if k = JANUS_KEY then JANUS else if k = ZEUS_KEY then ZEUS else NONE)"

definition reboot_submodule :: "mboot \<Rightarrow> mboot stop + mboot" where
  "reboot_submodule b =
     ask 0x00 0 BOOT_SUBMODULE_TIMEOUT ERR_REBOOT_FAIL
     (ask 0x0A 0 BOOT_SUBMODULE_TIMEOUT ERR_REBOOT_START
     (ask 0x00 0 BOOT_SUBMODULE_TIMEOUT ERR_REBOOT_STATUS
     (\<lambda>b. bindE (ckd (wr_range (submoduleCommsBuff b) 0 (le32 (size (header b)) @ le32 (fkey (header b))))) (\<lambda>buf.
       ask 0x01 8 BOOT_FLASH_TIMEOUT ERR_FLASH_ERASE
         (\<lambda>b. Inr ((writeResponse NO_ERR b)\<lparr>mmsg := DMY\<rparr>)) (b\<lparr>submoduleCommsBuff := buf\<rparr>))))) b"

definition fsm_header :: "u32 \<Rightarrow> mboot \<Rightarrow> mboot stop + mboot" where
  "fsm_header data b =
     (if mcount b = 0 then Inr (b\<lparr>header := (header b)\<lparr>dkey := data\<rparr>, mcount := mcount b + 1\<rparr>)
      else if mcount b = 1 then Inr (b\<lparr>header := (header b)\<lparr>size := data\<rparr>, mcount := mcount b + 1\<rparr>)
      else
        let b = b\<lparr>header := (header b)\<lparr>fkey := data\<rparr>, mcount := 0\<rparr>;
            b = b\<lparr>mmodule := module_of_key (dkey (header b))\<rparr>
        in if fkey (header b) \<noteq> ERASE_FLASH_KEY \<or> mmodule b = NONE
           then Inr ((writeResponse ERR_INVALID_HEADER b)\<lparr>mmsg := DMY\<rparr>)
           else if mmodule b = OLYMPUS
           then Inr ((writeResponse NO_ERR (writeInit (size (header b)) (b\<lparr>mchecksum := 0\<rparr>)))\<lparr>mmsg := DMY\<rparr>)
           else reboot_submodule b)"

definition runBootFSM :: "u32 \<Rightarrow> mboot \<Rightarrow> mboot stop + mboot" where
  "runBootFSM data b =
     (if mmsg b = DATA then fsm_data data b
      else if mmsg b = CHECKSUM then fsm_checksum data b
      else if mmsg b = HEADER then fsm_header data b
      else if mmsg b = DMY then
        let b = (if data = DATA then writeResponse NO_ERR b else b) in
        bindE (if data = JUMP then jumpToApp USER_APP_BASE_PTR (writeResponse NO_ERR b) else Inr b) (\<lambda>b.
        Inr (b\<lparr>mmsg := data\<rparr>))
      else Inr (b\<lparr>mmsg := DMY\<rparr>))"

definition mboot_start :: "(nat \<Rightarrow> u32) \<Rightarrow> mspi \<Rightarrow> mboot" where
  "mboot_start f m = \<lparr>mflash = f, munlocked = False, mPG = False, dataAddr = USER_APP_BASE,
     mmsg = DMY, mcount = 0, mmodule = NONE, header = \<lparr>dkey = 0, size = 0, fkey = 0\<rparr>,
     mchecksum = 0, submoduleCommsBuff = replicate 256 0, bus = m, responses = []\<rparr>"

section \<open>The main loop\<close>

text \<open>
  \<^verbatim>\<open>main\<close> collects four bytes from the USB buffer and passes them as a little-endian word. The record
  has the buffer, the bytes of the union read so far (\<open>length got = offset\<close>) and the state machine.
\<close>

record mmain =
  usbReceiveBuffer :: DoubleBuffer_t
  got :: "u8 list"
  boot :: mboot

definition boot_main_start :: "bool \<Rightarrow> mmain \<Rightarrow> mboot stop + mmain" where
  "boot_main_start SFTRSTF s =
     (if \<not> SFTRSTF then bindE (jumpToApp USER_APP_BASE_PTR (boot s)) (\<lambda>b. Inr (s\<lparr>boot := b\<rparr>)) else Inr s)"

definition boot_main_round :: "mmain \<Rightarrow> mboot stop + mmain" where
  "boot_main_round s =
     bindE (ckd (doubleBuffer_read (usbReceiveBuffer s) (of_nat (4 - length (got s))))) (\<lambda>(bytes, d).
     let g = got s @ bytes in
     if length g = 4
     then bindE (runBootFSM (of_le32 (g ! 0) (g ! 1) (g ! 2) (g ! 3)) (boot s)) (\<lambda>b.
          Inr (s\<lparr>usbReceiveBuffer := d, got := [], boot := b\<rparr>))
     else Inr (s\<lparr>usbReceiveBuffer := d, got := g\<rparr>))"

section \<open>Erasing and programming Olympus\<close>

lemma sector_start_app:
  assumes "s \<le> 7"
  shows "sector_start ! (5 + s) = 32768 * (s + 1)"
proof -
  have "s = 0 \<or> s = 1 \<or> s = 2 \<or> s = 3 \<or> s = 4 \<or> s = 5 \<or> s = 6 \<or> s = 7" using assms by auto
  then show ?thesis by (elim disjE) (simp_all add: sector_start_def)
qed

lemma app_sector:
  assumes "s < 7"
  shows "unat (of_nat (5 + s) AND 15 :: u8) = 5 + s"
proof -
  have "s = 0 \<or> s = 1 \<or> s = 2 \<or> s = 3 \<or> s = 4 \<or> s = 5 \<or> s = 6" using assms by auto
  then show ?thesis by (elim disjE) simp_all
qed

definition app_words :: "nat \<Rightarrow> nat \<Rightarrow> bool" where
  "app_words n w \<longleftrightarrow> 32768 \<le> w \<and> w < 32768 * (n + 1)"

lemma fold_erase_app:
  assumes "munlocked b" "n \<le> 7" "0 < n"
  shows "fold (\<lambda>sector. eraseSector (of_nat (5 + sector))) [0..<n] b =
    b\<lparr>mflash := (\<lambda>w. if app_words n w then 0xFFFFFFFF else mflash b w), mPG := False\<rparr>"
  using assms(2,3)
proof (induction n)
  case 0
  then show ?case by simp
next
  case (Suc n)
  have s: "sector_start ! (5 + n) = 32768 * (n + 1)" "sector_start ! (5 + n + 1) = 32768 * (n + 2)"
    using sector_start_app [of n] sector_start_app [of "n + 1"] Suc.prems by (simp_all add: add.assoc)
  have one: "eraseSector (of_nat (5 + n)) c =
      c\<lparr>mflash := (\<lambda>w. if 32768 * (n + 1) \<le> w \<and> w < 32768 * (n + 2) then 0xFFFFFFFF else mflash c w),
        mPG := False\<rparr>" if "munlocked c" for c
    unfolding eraseSector_def Let_def app_sector [of n, OF Suc_le_lessD [OF Suc.prems(1)]] s
    using that Suc.prems by simp
  show ?case
  proof (cases "n = 0")
    case True
    with one [OF assms(1)] show ?thesis by (simp add: app_words_def cong: if_cong)
  next
    case False
    define c where "c = b\<lparr>mflash := (\<lambda>w. if app_words n w then 0xFFFFFFFF else mflash b w), mPG := False\<rparr>"
    have "fold (\<lambda>sector. eraseSector (of_nat (5 + sector))) [0..<Suc n] b = eraseSector (of_nat (5 + n)) c"
      using Suc.IH Suc.prems False by (simp add: c_def)
    also have "\<dots> = c\<lparr>mflash := (\<lambda>w. if 32768 * (n + 1) \<le> w \<and> w < 32768 * (n + 2)
        then 0xFFFFFFFF else mflash c w), mPG := False\<rparr>"
      by (rule one) (simp add: c_def assms(1))
    also have "(\<lambda>w. if 32768 * (n + 1) \<le> w \<and> w < 32768 * (n + 2) then 0xFFFFFFFF else mflash c w) =
        (\<lambda>w. if app_words (Suc n) w then 0xFFFFFFFF else mflash b w)"
      by (rule ext) (auto simp: c_def app_words_def)
    finally show ?thesis by (simp add: c_def)
  qed
qed

definition sectors :: "nat \<Rightarrow> nat" where
  "sectors z = z div 131072 + (if z mod 131072 \<noteq> 0 then 1 else 0)"

lemma sectors_bounds:
  assumes "0 < z" "z \<le> 917504"
  shows "sectors z \<le> 7" "0 < sectors z"
proof -
  show "sectors z \<le> 7"
  proof (cases "z = 917504")
    case False
    with assms have "z < 7 * 131072" by simp
    then have "z div 131072 < 7" by (rule less_mult_imp_div_less)
    then show ?thesis by (simp add: sectors_def)
  qed (simp add: sectors_def)
  have "z = 131072 * (z div 131072) + z mod 131072" by simp
  with assms(1) show "0 < sectors z" unfolding sectors_def by (cases "z div 131072 = 0") auto
qed

lemma writeInit_app:
  assumes "0 < unat sz" "unat sz \<le> 917504"
  shows "writeInit sz b = b\<lparr>munlocked := True,
    mflash := (\<lambda>w. if app_words (sectors (unat sz)) w then 0xFFFFFFFF else mflash b w), mPG := True\<rparr>"
proof -
  have "sectors (unat sz) \<le> 7" "0 < sectors (unat sz)" using sectors_bounds assms by blast+
  then show ?thesis
    unfolding writeInit_def sectors_def [symmetric] Let_def
    by (subst fold_erase_app) (simp_all cong: if_cong)
qed

lemma of_nat_count_eq:
  assumes "i \<le> 1000000" "j \<le> 1000000"
  shows "(of_nat (4 * i) :: u32) = of_nat (4 * j) \<longleftrightarrow> i = j"
proof -
  have "unat (of_nat (4 * i) :: u32) = 4 * i" "unat (of_nat (4 * j) :: u32) = 4 * j"
    using assms by (simp_all only: unat_of_nat_u32)
  then show ?thesis by (metis mult_left_cancel numeral_neq_zero)
qed

definition word_step :: "u32 \<Rightarrow> mboot \<Rightarrow> mboot" where
  "word_step d b = b\<lparr>mflash := (mflash b)(dataAddr b := mflash b (dataAddr b) AND d),
     dataAddr := dataAddr b + 1, mcount := mcount b + 4, mchecksum := mchecksum b + d\<rparr>"

lemma fsm_data_olympus:
  assumes "mmsg b = DATA" "mmodule b = OLYMPUS" "munlocked b" "mPG b" "dataAddr b < FLASH_WORDS"
  shows "runBootFSM d b = data_done (word_step d b)"
  using assms by (simp add: runBootFSM_def fsm_data_def writeFlash_def word_step_def)

lemma data_words:
  assumes "mmsg b = DATA" "mmodule b = OLYMPUS" "mcount b = of_nat (4 * k)"
    and "size (header b) = of_nat (4 * (k + length ws))" "ws \<noteq> []" "k + length ws \<le> 229376"
    and "munlocked b" "mPG b" "dataAddr b + length ws \<le> FLASH_WORDS"
  shows "\<exists>rs b'. foldE runBootFSM ws b = Inr b' \<and> mmsg b' = DMY \<and> mcount b' = 0 \<and>
    mmodule b' = OLYMPUS \<and> mchecksum b' = mchecksum b + sum_list ws \<and>
    mflash b' = (\<lambda>w. if dataAddr b \<le> w \<and> w < dataAddr b + length ws
                      then mflash b w AND ws ! (w - dataAddr b) else mflash b w) \<and>
    responses b' = responses b @ rs \<and> set rs \<subseteq> {NO_ERR}"
  using assms
proof (induction ws arbitrary: b k)
  case Nil
  then show ?case by simp
next
  case (Cons d ws)
  define c where "c = word_step d b"
  have step: "runBootFSM d b = data_done c"
    unfolding c_def by (rule fsm_data_olympus) (use Cons.prems in auto)
  have ct: "mcount c = of_nat (4 * (k + 1))"
    using Cons.prems(3) by (simp add: c_def word_step_def)
  have hd: "header c = header b" "responses c = responses b" "mmsg c = mmsg b" "mmodule c = mmodule b"
    "munlocked c = munlocked b" "mPG c = mPG b" "dataAddr c = dataAddr b + 1"
    "mchecksum c = mchecksum b + d"
    "mflash c = (mflash b)(dataAddr b := mflash b (dataAddr b) AND d)"
    by (simp_all add: c_def word_step_def)
  show ?case
  proof (cases "ws = []")
    case True
    then have eq: "mcount c = size (header c)" using ct Cons.prems(4) hd by simp
    have fl: "mflash c = (\<lambda>w. if dataAddr b \<le> w \<and> w < dataAddr b + length (d # ws)
        then mflash b w AND (d # ws) ! (w - dataAddr b) else mflash b w)"
      unfolding hd(9) using True by (auto simp: fun_eq_iff)
    have "foldE runBootFSM (d # ws) b =
        Inr ((completeWrite (writeResponse NO_ERR c))\<lparr>mcount := 0, mmsg := DMY\<rparr>)"
      using True step eq Cons.prems(2) hd by (simp add: data_done_def Let_def writeResponse_def)
    with fl hd Cons.prems True show ?thesis
      by (intro exI [of _ "[NO_ERR]"] exI conjI) (assumption, simp_all add: completeWrite_def writeResponse_def)
  next
    case False
    have ne: "mcount c \<noteq> size (header c)"
      unfolding ct hd(1) Cons.prems(4) using False Cons.prems(6) by (subst of_nat_count_eq) auto
    define e where "e = (if mcount c mod CHUNK_SIZE = 0 then writeResponse NO_ERR c else c)"
    have run: "runBootFSM d b = Inr e"
      using step ne by (simp add: data_done_def e_def Let_def writeResponse_def)
    have e: "mmsg e = DATA" "mmodule e = OLYMPUS" "mcount e = of_nat (4 * (k + 1))"
      "size (header e) = of_nat (4 * (k + 1 + length ws))" "munlocked e" "mPG e"
      "dataAddr e = dataAddr b + 1" "mchecksum e = mchecksum b + d" "mflash e = mflash c"
      using ct Cons.prems hd by (simp_all add: e_def writeResponse_def)
    obtain rs b' where b': "foldE runBootFSM ws e = Inr b'" "mmsg b' = DMY" "mcount b' = 0"
      "mmodule b' = OLYMPUS" "mchecksum b' = mchecksum e + sum_list ws"
      "mflash b' = (\<lambda>w. if dataAddr e \<le> w \<and> w < dataAddr e + length ws
         then mflash e w AND ws ! (w - dataAddr e) else mflash e w)"
      "responses b' = responses e @ rs" "set rs \<subseteq> {NO_ERR}"
      using Cons.IH [OF e(1-4) False _ e(5,6)] Cons.prems e(7) by auto
    have fl: "mflash b' = (\<lambda>w. if dataAddr b \<le> w \<and> w < dataAddr b + length (d # ws)
        then mflash b w AND (d # ws) ! (w - dataAddr b) else mflash b w)"
      unfolding b'(6) e(7,9) hd(9) by (rule ext) (auto simp: nth_Cons' Suc_le_eq)
    have rs: "responses b' = responses b @ (if mcount c mod CHUNK_SIZE = 0 then [NO_ERR] else []) @ rs"
      using b'(7) hd(2) by (simp add: e_def writeResponse_def)
    show ?thesis
      by (rule exI [of _ "(if mcount c mod CHUNK_SIZE = 0 then [NO_ERR] else []) @ rs"], rule exI [of _ b'])
        (use run b' e(8) fl rs in \<open>auto simp: add.assoc\<close>)
  qed
qed

section \<open>Sessions\<close>

lemma module_of_olympus [simp]: "module_of_key OLYMPUS_KEY = OLYMPUS"
  by (simp add: module_of_key_def)

lemma header_session:
  assumes "0 < unat sz" "unat sz \<le> 917504"
  shows "\<exists>b. foldE runBootFSM [HEADER, OLYMPUS_KEY, sz, ERASE_FLASH_KEY, DATA] (mboot_start f m) = Inr b \<and>
    mmsg b = DATA \<and> mmodule b = OLYMPUS \<and> mcount b = 0 \<and> size (header b) = sz \<and> munlocked b \<and>
    mPG b \<and> dataAddr b = USER_APP_BASE \<and> mchecksum b = 0 \<and> responses b = [NO_ERR, NO_ERR] \<and>
    mflash b = (\<lambda>w. if app_words (sectors (unat sz)) w then 0xFFFFFFFF else f w)"
  by (simp add: mboot_start_def runBootFSM_def msg_consts fsm_header_def Let_def writeInit_app [OF assms]
      writeResponse_def cong: if_cong)

lemma checksum_session:
  assumes "mmsg b = DMY" "mmodule b = OLYMPUS"
  shows "foldE runBootFSM [CHECKSUM, c] b =
    Inr (b\<lparr>responses := responses b @ [if c = mchecksum b then NO_ERR else ERR_CHECKSUM], mmsg := DMY\<rparr>)"
  using assms by (simp add: runBootFSM_def msg_consts fsm_checksum_def writeResponse_def)

lemma all_ones_and: "(4294967295 :: u32) AND x = x"
proof -
  have "(4294967295 :: u32) = mask 32" by (simp add: mask_eq_exp_minus_1)
  moreover have "x AND mask 32 = x" by (rule bit_word_eqI) (auto simp: bit_simps)
  ultimately show ?thesis by (simp only: and.commute)
qed

lemma app_words_cover:
  assumes "k < n" "n \<le> 229376"
  shows "app_words (sectors (4 * n)) (32768 + k)"
proof -
  have "4 * n \<le> 131072 * sectors (4 * n)"
    unfolding sectors_def using mult_div_mod_eq [of 131072 "4 * n"] by auto
  then show ?thesis using assms(1) by (simp add: app_words_def)
qed



section \<open>Submodules\<close>

definition mboot_wf :: "mboot \<Rightarrow> bool" where
  "mboot_wf b \<longleftrightarrow> mspi_wf (bus b) \<and> module_code (mmodule b) < 5 \<and> length (submoduleCommsBuff b) = 256"

definition on_bus :: "u8 \<Rightarrow> u8 \<Rightarrow> mspi \<Rightarrow> mboot \<Rightarrow> mboot" where
  "on_bus mt tx m b = b\<lparr>bus := after_message (mmodule b) mt (take (unat tx) (submoduleCommsBuff b)) m\<rparr>"

lemma mboot_wf_on_bus: "mboot_wf b \<Longrightarrow> mspi_wf m \<Longrightarrow> mboot_wf (on_bus mt tx m b)"
  by (simp add: mboot_wf_def on_bus_def)

lemma on_bus_simps [simp]:
  "bus (on_bus mt tx m b) = after_message (mmodule b) mt (take (unat tx) (submoduleCommsBuff b)) m"
  "mmodule (on_bus mt tx m b) = mmodule b" "responses (on_bus mt tx m b) = responses b"
  "header (on_bus mt tx m b) = header b" "submoduleCommsBuff (on_bus mt tx m b) = submoduleCommsBuff b"
  by (simp_all add: on_bus_def)

lemma ask_ok:
  assumes "mboot_wf b" "answered timeout COMMS_OK [] (bus b) m"
  shows "ask mt tx timeout err k b = k (on_bus mt tx m b)"
proof -
  have "unat tx \<le> length (submoduleCommsBuff b)"
    using assms(1) less_imp_le [OF u8_less_256 [of tx]] by (simp add: mboot_wf_def)
  with message_answered_ok [of "bus b" "mmodule b" tx "submoduleCommsBuff b" timeout COMMS_OK "[]" m 0 mt] assms
  show ?thesis by (simp add: ask_def mboot_wf_def on_bus_def)
qed

lemma ask_silent:
  assumes "mboot_wf b" "silent timeout (bus b) m"
  shows "ask mt tx timeout err k b = Inr ((writeResponse err (on_bus mt tx m b))\<lparr>mmsg := DMY\<rparr>)"
proof -
  have "unat tx \<le> length (submoduleCommsBuff b)"
    using assms(1) less_imp_le [OF u8_less_256 [of tx]] by (simp add: mboot_wf_def)
  with message_silent [of "bus b" "mmodule b" tx "submoduleCommsBuff b" timeout m mt 0] assms
  show ?thesis
    by (simp add: ask_def mboot_wf_def on_bus_def COMMS_OK_def COMMS_ERR_TIMEOUT_def)
qed

text \<open>
  The hand-over to a submodule's bootloader: when the submodule answers every message, the master
  asks for its status, orders the reboot, asks for the status again and sends the size and the erase
  key, in this order and with nothing else on the bus, and tells the host \<^verbatim>\<open>NO_ERR\<close>.
\<close>

theorem master_reboots_submodule:
  assumes "mboot_wf b" and "m = mmodule b"
    and "answered BOOT_SUBMODULE_TIMEOUT COMMS_OK [] (bus b) m1"
    and "answered BOOT_SUBMODULE_TIMEOUT COMMS_OK [] (after_message m 0x00 [] m1) m2"
    and "answered BOOT_SUBMODULE_TIMEOUT COMMS_OK [] (after_message m 0x0A [] m2) m3"
    and "answered BOOT_FLASH_TIMEOUT COMMS_OK [] (after_message m 0x00 [] m3) m4"
  shows "\<exists>b'. reboot_submodule b = Inr b' \<and> mmsg b' = DMY \<and> responses b' = responses b @ [NO_ERR] \<and>
    traffic (bus b') = traffic (bus b) @ frames m 0x00 [] @ frames m 0x0A [] @ frames m 0x00 [] @
      frames m 0x01 (le32 (size (header b)) @ le32 (fkey (header b)))"
proof -
  define b1 where "b1 = on_bus 0x00 0 m1 b"
  define b2 where "b2 = on_bus 0x0A 0 m2 b1"
  define b3 where "b3 = on_bus 0x00 0 m3 b2"
  define buf where "buf = (le32 (size (header b)) @ le32 (fkey (header b))) @ drop 8 (submoduleCommsBuff b)"
  define b4 where "b4 = b3\<lparr>submoduleCommsBuff := buf\<rparr>"
  have wf1: "mspi_wf m1" using assms(1,3) answered_wf by (auto simp: mboot_wf_def)
  then have b1: "mboot_wf b1" "bus b1 = after_message m 0x00 [] m1" "mmodule b1 = m"
    using mboot_wf_on_bus [OF assms(1) wf1] assms(2) by (simp_all add: b1_def)
  have wf2: "mspi_wf m2" using answered_wf [OF assms(4)] wf1 by simp
  then have b2: "mboot_wf b2" "bus b2 = after_message m 0x0A [] m2" "mmodule b2 = m"
    using mboot_wf_on_bus [OF b1(1) wf2] b1(3) by (simp_all add: b2_def)
  have wf3: "mspi_wf m3" using answered_wf [OF assms(5)] wf2 by simp
  then have b3: "mboot_wf b3" "bus b3 = after_message m 0x00 [] m3" "mmodule b3 = m"
    using mboot_wf_on_bus [OF b2(1) wf3] b2(3) by (simp_all add: b3_def)
  have b4: "mboot_wf b4" "bus b4 = bus b3" "mmodule b4 = m" "responses b4 = responses b"
    "submoduleCommsBuff b4 = buf"
    using b3 by (simp_all add: b4_def mboot_wf_def buf_def b3_def b2_def b1_def)
  have same: "header b3 = header b" "submoduleCommsBuff b3 = submoduleCommsBuff b"
    by (simp_all add: b3_def b2_def b1_def)
  have run: "reboot_submodule b = Inr ((writeResponse NO_ERR (on_bus 0x01 8 m4 b4))\<lparr>mmsg := DMY\<rparr>)"
    unfolding reboot_submodule_def ask_ok [OF assms(1,3)] b1_def [symmetric]
      ask_ok [OF b1(1) assms(4) [folded b1(2)]] b2_def [symmetric]
      ask_ok [OF b2(1) assms(5) [folded b2(2)]] b3_def [symmetric]
    using ask_ok [OF b4(1), of BOOT_FLASH_TIMEOUT m4] assms(6) b4(2) b3 same
    by (simp add: mboot_wf_def b4_def buf_def)
  have tr: "traffic m1 = traffic (bus b)" "traffic m2 = traffic (after_message m 0x00 [] m1)"
    "traffic m3 = traffic (after_message m 0x0A [] m2)" "traffic m4 = traffic (after_message m 0x00 [] m3)"
    using assms(3-6) by (auto simp: answered_def)
  have "take 8 buf = le32 (size (header b)) @ le32 (fkey (header b))" by (simp add: buf_def)
  with tr b4 show ?thesis
    by (simp add: run writeResponse_def after_message_def)
qed

definition janus_session :: "mspi \<Rightarrow> mboot" where
  "janus_session m = (mboot_start (\<lambda>w. 0) m)\<lparr>mmodule := JANUS\<rparr>"

lemma janus_session_wf: "mspi_wf m \<Longrightarrow> mboot_wf (janus_session m)"
  by (simp add: janus_session_def mboot_wf_def mboot_start_def)

theorem master_reboots_submodule_witness:
  "\<exists>b'. reboot_submodule (janus_session (mspi_idle [1, 1, 1, 1, 1, 1, 1, 1, 1, 1, 1, 1] [True, False, True, False, True, False, True, False]
      [COMMS_OK, COMMS_OK, COMMS_OK, COMMS_OK])) = Inr b' \<and> responses b' = [NO_ERR]"
proof -
  define e1 where "e1 = mspi_idle [1, 1, 1, 1, 1, 1, 1, 1, 1, 1, 1, 1] [True, False, True, False, True, False, True, False]
      [COMMS_OK, COMMS_OK, COMMS_OK, COMMS_OK]"
  define m1 where "m1 = e1\<lparr>ticks := [1, 1, 1, 1, 1, 1, 1, 1, 1], ints := [True, False, True, False, True, False],
      line := [COMMS_OK, COMMS_OK, COMMS_OK]\<rparr>"
  define e2 where "e2 = after_message JANUS 0x00 [] m1"
  define m2 where "m2 = e2\<lparr>ticks := [1, 1, 1, 1, 1, 1], ints := [True, False, True, False],
      line := [COMMS_OK, COMMS_OK]\<rparr>"
  define e3 where "e3 = after_message JANUS 0x0A [] m2"
  define m3 where "m3 = e3\<lparr>ticks := [1, 1, 1], ints := [True, False], line := [COMMS_OK]\<rparr>"
  define e4 where "e4 = after_message JANUS 0x00 [] m3"
  define m4 where "m4 = e4\<lparr>ticks := [], ints := [], line := []\<rparr>"
  note envs = e1_def m1_def e2_def m2_def e3_def m3_def e4_def m4_def
  have "answered BOOT_SUBMODULE_TIMEOUT COMMS_OK [] e1 m1"
    unfolding m1_def by (rule answered_at_once [of _ 1]) (simp_all add: BOOT_SUBMODULE_TIMEOUT_def BOOT_FLASH_TIMEOUT_def envs mspi_idle_def)
  moreover have "answered BOOT_SUBMODULE_TIMEOUT COMMS_OK [] e2 m2"
    unfolding m2_def
    by (rule answered_at_once [of _ 1]) (simp_all add: BOOT_SUBMODULE_TIMEOUT_def BOOT_FLASH_TIMEOUT_def envs mspi_idle_def after_message_def)
  moreover have "answered BOOT_SUBMODULE_TIMEOUT COMMS_OK [] e3 m3"
    unfolding m3_def
    by (rule answered_at_once [of _ 1]) (simp_all add: BOOT_SUBMODULE_TIMEOUT_def BOOT_FLASH_TIMEOUT_def envs mspi_idle_def after_message_def)
  moreover have "answered BOOT_FLASH_TIMEOUT COMMS_OK [] e4 m4"
    unfolding m4_def
    by (rule answered_at_once [of _ 1]) (simp_all add: BOOT_SUBMODULE_TIMEOUT_def BOOT_FLASH_TIMEOUT_def envs mspi_idle_def after_message_def)
  moreover have "mspi_wf e1" by (simp add: e1_def mspi_wf_def mspi_idle_def)
  ultimately have "\<exists>b'. reboot_submodule (janus_session e1) = Inr b' \<and>
      responses b' = responses (janus_session e1) @ [NO_ERR]"
    using master_reboots_submodule [of "janus_session e1" JANUS m1 m2 m3 m4] janus_session_wf [of e1]
    unfolding e2_def [symmetric] e3_def [symmetric] e4_def [symmetric]
    by (auto simp: janus_session_def mboot_start_def)
  then show ?thesis by (simp add: e1_def janus_session_def mboot_start_def)
qed

text \<open>
  A submodule that is already in its bootloader cannot be flashed again: it answers the status
  request but not the reboot message, and the master gives up with \<^verbatim>\<open>ERR_REBOOT_START\<close> without sending
  a header.
\<close>

theorem master_reboot_unanswered:
  assumes "mboot_wf b" and "m = mmodule b"
    and "answered BOOT_SUBMODULE_TIMEOUT COMMS_OK [] (bus b) m1"
    and "silent BOOT_SUBMODULE_TIMEOUT (after_message m 0x00 [] m1) m2"
  shows "\<exists>b'. reboot_submodule b = Inr b' \<and> mmsg b' = DMY \<and> responses b' = responses b @ [ERR_REBOOT_START] \<and>
    traffic (bus b') = traffic (bus b) @ frames m 0x00 [] @ frames m 0x0A []"
proof -
  define b1 where "b1 = on_bus 0x00 0 m1 b"
  have wf1: "mspi_wf m1" using assms(1,3) answered_wf by (auto simp: mboot_wf_def)
  then have b1: "mboot_wf b1" "bus b1 = after_message m 0x00 [] m1" "mmodule b1 = m" "responses b1 = responses b"
    using mboot_wf_on_bus [OF assms(1) wf1] assms(2) by (simp_all add: b1_def)
  have "reboot_submodule b = Inr ((writeResponse ERR_REBOOT_START (on_bus 0x0A 0 m2 b1))\<lparr>mmsg := DMY\<rparr>)"
    unfolding reboot_submodule_def ask_ok [OF assms(1,3)] b1_def [symmetric]
      ask_silent [OF b1(1) assms(4) [folded b1(2)]] ..
  moreover have "traffic m1 = traffic (bus b)" "traffic m2 = traffic (after_message m 0x00 [] m1)"
    using assms(3,4) by (auto simp: answered_def silent_def)
  ultimately show ?thesis using b1 by (simp add: writeResponse_def after_message_def)
qed

theorem master_reboot_unanswered_witness:
  "\<exists>b'. reboot_submodule (janus_session (mspi_idle [1, 1, 1, 1, 0xFFFFFFF0, 0xFFFFFFF0] [True, False, False]
      [COMMS_OK])) = Inr b' \<and> responses b' = [ERR_REBOOT_START]"
proof -
  define e1 where "e1 = mspi_idle [1, 1, 1, 1, 0xFFFFFFF0, 0xFFFFFFF0] [True, False, False] [COMMS_OK]"
  define m1 where "m1 = e1\<lparr>ticks := [1, 0xFFFFFFF0, 0xFFFFFFF0], ints := [False], line := []\<rparr>"
  define e2 where "e2 = after_message JANUS 0x00 [] m1"
  define m2 where "m2 = e2\<lparr>ticks := [], ints := []\<rparr>"
  have "answered BOOT_SUBMODULE_TIMEOUT COMMS_OK [] e1 m1"
    unfolding m1_def
    by (rule answered_at_once [of _ 1]) (simp_all add: e1_def mspi_idle_def BOOT_SUBMODULE_TIMEOUT_def)
  moreover have "silent BOOT_SUBMODULE_TIMEOUT e2 m2"
    unfolding m2_def
    by (rule silent_at_once [of _ 1 "0xFFFFFFF0"])
      (simp_all add: e2_def m1_def after_message_def BOOT_SUBMODULE_TIMEOUT_def)
  moreover have "mspi_wf e1" by (simp add: e1_def mspi_wf_def mspi_idle_def)
  ultimately have "\<exists>b'. reboot_submodule (janus_session e1) = Inr b' \<and>
      responses b' = responses (janus_session e1) @ [ERR_REBOOT_START]"
    using master_reboot_unanswered [of "janus_session e1" JANUS m1 m2] janus_session_wf [of e1]
    unfolding e2_def [symmetric] by (auto simp: janus_session_def mboot_start_def)
  then show ?thesis by (simp add: e1_def janus_session_def mboot_start_def)
qed

end
