(* ===== verification/TimerCallback.thy ===== *)
theory TimerCallback
  imports SlaveSpi Mmio
begin

text \<open>
  The callback timers of Olympus, \<^verbatim>\<open>olympus/utils/timerCallback.c\<close>: a table of 32 slots that the main
  loop counts down once per millisecond interrupt. A slot names its callback; what the callbacks do
  is a parameter \<open>run\<close> of the service function, because they live in the drivers that use the timers.
  A callback may itself add timers, so the table it leaves behind is the table the loop goes on with.

  The locale \<open>timer_client\<close> says what the callbacks owe the table: they return and do not touch
  occupied slots. The locale \<open>periodic_timer\<close> adds a callback whose effect can be observed, and gives
  the exact number of times it has run after any number of milliseconds.
\<close>

section \<open>State\<close>

datatype Timer_Return = DISABLE_TIMER | CONTINUE_TIMER

record 'c CallbackTimer =
  currentValue :: u32
  resetValue :: u32
  callback :: "'c option"
  parameters :: nat

record 'c timers =
  timerList :: "'c CallbackTimer list"
  shouldServiceCallbackTimer :: bool
  oregs :: regs

definition MAX_NUM_CALLBACK_TIMERS :: nat where "MAX_NUM_CALLBACK_TIMERS = 32"
definition APB2_TMR_CLK_FREQ :: u32 where "APB2_TMR_CLK_FREQ = 120000000"
definition TIMER_FREQUENCY :: u32 where "TIMER_FREQUENCY = 100000"
definition CALLBACK_FREQUENCY :: u32 where "CALLBACK_FREQUENCY = 1000"

section \<open>Operations\<close>

definition initIGVCCallbackTimer :: "('c, 'z) timers_scheme \<Rightarrow> ('c, 'z) timers_scheme" where
  "initIGVCCallbackTimer s =
     s\<lparr>oregs := (oregs s)(Tim TIM9 DIER := 1,
         Tim TIM9 PSC := APB2_TMR_CLK_FREQ div TIMER_FREQUENCY - 1,
         Tim TIM9 ARR := TIMER_FREQUENCY div CALLBACK_FREQUENCY - 1,
         Tim TIM9 CR1 := 0x81),
       timerList := map (\<lambda>t. t\<lparr>resetValue := 0\<rparr>) (timerList s)\<rparr>"

text \<open>The index of the first free slot, or the length of the table.\<close>

fun free_slot :: "'c CallbackTimer list \<Rightarrow> nat" where
  "free_slot [] = 0"
| "free_slot (t # ts) = (if resetValue t = 0 then 0 else Suc (free_slot ts))"

definition addCallbackTimer ::
    "u32 \<Rightarrow> 'c option \<Rightarrow> nat \<Rightarrow> ('c, 'z) timers_scheme \<Rightarrow> int \<times> ('c, 'z) timers_scheme" where
  "addCallbackTimer count cb params s =
     (if count = 0 \<or> cb = None then (-1, s)
      else
        let ndx = free_slot (timerList s) in
        if ndx = MAX_NUM_CALLBACK_TIMERS then (-1, s)
        else (0, s\<lparr>timerList := (timerList s)[ndx :=
               \<lparr>currentValue = count, resetValue = count, callback = cb, parameters = params\<rparr>]\<rparr>))"

definition service_slot ::
    "('c \<Rightarrow> nat \<Rightarrow> ('c, 'z) timers_scheme \<Rightarrow> ('c, 'z) timers_scheme stop + (Timer_Return \<times> ('c, 'z) timers_scheme))
      \<Rightarrow> nat \<Rightarrow> ('c, 'z) timers_scheme \<Rightarrow> ('c, 'z) timers_scheme stop + ('c, 'z) timers_scheme" where
  "service_slot run ndx s =
     bindE (ckd (rd (timerList s) ndx)) (\<lambda>t.
     if resetValue t \<noteq> 0 then
       let t = t\<lparr>currentValue := currentValue t - 1\<rparr>;
           s = s\<lparr>timerList := (timerList s)[ndx := t]\<rparr>
       in if currentValue t = 0 then
            (case callback t of
               None \<Rightarrow> Inl (Faulted NullDeref)
             | Some cb \<Rightarrow>
                 bindE (run cb (parameters t) s) (\<lambda>(r, s).
                 bindE (ckd (rd (timerList s) ndx)) (\<lambda>t.
                 let t = (if r = DISABLE_TIMER then t\<lparr>resetValue := 0\<rparr> else t);
                     t = t\<lparr>currentValue := resetValue t\<rparr>
                 in Inr (s\<lparr>timerList := (timerList s)[ndx := t]\<rparr>))))
          else Inr s
     else Inr s)"

definition serviceCallbackTimer ::
    "('c \<Rightarrow> nat \<Rightarrow> ('c, 'z) timers_scheme \<Rightarrow> ('c, 'z) timers_scheme stop + (Timer_Return \<times> ('c, 'z) timers_scheme))
      \<Rightarrow> ('c, 'z) timers_scheme \<Rightarrow> ('c, 'z) timers_scheme stop + ('c, 'z) timers_scheme" where
  "serviceCallbackTimer run s =
     (if shouldServiceCallbackTimer s
      then bindE (foldE (service_slot run) [0..<MAX_NUM_CALLBACK_TIMERS] s)
             (\<lambda>s. Inr (s\<lparr>shouldServiceCallbackTimer := False\<rparr>))
      else Inr s)"

definition CALLBACK_TIMER_ISR :: "('c, 'z) timers_scheme \<Rightarrow> ('c, 'z) timers_scheme" where
  "CALLBACK_TIMER_ISR s =
     s\<lparr>shouldServiceCallbackTimer := True, oregs := clear_bits (Tim TIM9 SR) 1 (oregs s)\<rparr>"

text \<open>A millisecond: the interrupt, then the service call of the main loop; and a run of them.\<close>

definition millisecond where
  "millisecond run s = serviceCallbackTimer run (CALLBACK_TIMER_ISR s)"

fun milliseconds where
  "milliseconds run 0 s = Inr s"
| "milliseconds run (Suc n) s = bindE (milliseconds run n s) (millisecond run)"

section \<open>The table\<close>

definition timers_ok :: "('c, 'z) timers_scheme \<Rightarrow> bool" where
  "timers_ok s \<longleftrightarrow> length (timerList s) = MAX_NUM_CALLBACK_TIMERS \<and>
     (\<forall>t \<in> set (timerList s). resetValue t \<noteq> 0 \<longrightarrow> callback t \<noteq> None)"

text \<open>\<open>keeps s s'\<close>: no slot that is occupied in \<open>s\<close> differs in \<open>s'\<close>.\<close>

definition keeps :: "('c, 'z) timers_scheme \<Rightarrow> ('c, 'z) timers_scheme \<Rightarrow> bool" where
  "keeps s s' \<longleftrightarrow> (\<forall>k < MAX_NUM_CALLBACK_TIMERS.
     resetValue (timerList s ! k) \<noteq> 0 \<longrightarrow> timerList s' ! k = timerList s ! k)"

lemma keeps_refl [simp]: "keeps s s"
  by (simp add: keeps_def)

lemma free_slot_le: "free_slot ts \<le> length ts"
  by (induction ts) auto

lemma free_slot_free: "free_slot ts < length ts \<Longrightarrow> resetValue (ts ! free_slot ts) = 0"
  by (induction ts) (auto split: if_splits)

lemma free_slot_first: "k < free_slot ts \<Longrightarrow> resetValue (ts ! k) \<noteq> 0"
  by (induction ts arbitrary: k) (auto simp: nth_Cons split: if_splits nat.splits)

lemma free_slot_eq_length: "free_slot ts = length ts \<longleftrightarrow> (\<forall>t \<in> set ts. resetValue t \<noteq> 0)"
  by (induction ts) auto

lemma timers_ok_update:
  assumes "timers_ok s" "resetValue t \<noteq> 0 \<longrightarrow> callback t \<noteq> None"
  shows "timers_ok (s\<lparr>timerList := (timerList s)[k := t]\<rparr>)"
  using assms by (auto simp: timers_ok_def dest: set_update_subset_insert [THEN subsetD])

lemma add_ok:
  assumes "timers_ok s" "addCallbackTimer count cb params s = (r, s')"
  shows "timers_ok s' \<and> keeps s s'"
proof -
  let ?n = "free_slot (timerList s)"
  have "resetValue (timerList s ! ?n) = 0" if "?n \<noteq> MAX_NUM_CALLBACK_TIMERS"
    using that assms(1) free_slot_le [of "timerList s"] free_slot_free [of "timerList s"]
    by (auto simp: timers_ok_def)
  then have "keeps s (s\<lparr>timerList := (timerList s)[?n := t]\<rparr>)" if "?n \<noteq> MAX_NUM_CALLBACK_TIMERS" for t
    using that by (auto simp: keeps_def) (metis nth_list_update_neq)
  with assms show ?thesis
    by (auto simp: addCallbackTimer_def Let_def split: if_splits intro!: timers_ok_update)
qed

lemma add_other_fields:
  "addCallbackTimer count cb params s = (r, s') \<Longrightarrow>
     shouldServiceCallbackTimer s' = shouldServiceCallbackTimer s \<and> oregs s' = oregs s"
  by (auto simp: addCallbackTimer_def Let_def split: if_splits)

section \<open>What callbacks owe the table\<close>

locale timer_client =
  fixes run :: "'c \<Rightarrow> nat \<Rightarrow> ('c, 'z) timers_scheme \<Rightarrow>
      ('c, 'z) timers_scheme stop + (Timer_Return \<times> ('c, 'z) timers_scheme)"
  assumes run_returns: "timers_ok s \<Longrightarrow> \<exists>r s'. run cb p s = Inr (r, s')"
    and run_keeps: "timers_ok s \<Longrightarrow> run cb p s = Inr (r, s') \<Longrightarrow> timers_ok s' \<and> keeps s s'"
begin

text \<open>One slot: the loop body returns, and every other occupied slot is as before.\<close>

lemma slot_cases:
  assumes "timers_ok s" "ndx < MAX_NUM_CALLBACK_TIMERS" "t = timerList s ! ndx"
  obtains (Free) "resetValue t = 0" "service_slot run ndx s = Inr s"
  | (Counts) "resetValue t \<noteq> 0" "currentValue t \<noteq> 1"
      "service_slot run ndx s = Inr (s\<lparr>timerList := (timerList s)[ndx := t\<lparr>currentValue := currentValue t - 1\<rparr>]\<rparr>)"
  | (Fires) s0 cb r s1 u where "resetValue t \<noteq> 0" "currentValue t = 1" "callback t = Some cb"
      "s0 = s\<lparr>timerList := (timerList s)[ndx := t\<lparr>currentValue := 0\<rparr>]\<rparr>"
      "run cb (parameters t) s0 = Inr (r, s1)" "timers_ok s0" "timers_ok s1" "keeps s0 s1"
      "u = t\<lparr>resetValue := if r = DISABLE_TIMER then 0 else resetValue t,
             currentValue := if r = DISABLE_TIMER then 0 else resetValue t\<rparr>"
      "service_slot run ndx s = Inr (s1\<lparr>timerList := (timerList s1)[ndx := u]\<rparr>)"
proof (cases "resetValue t = 0")
  case True
  with assms Free show ?thesis by (simp add: service_slot_def timers_ok_def)
next
  case active: False
  have len: "ndx < length (timerList s)" using assms by (simp add: timers_ok_def)
  show ?thesis
  proof (cases "currentValue t = 1")
    case False
    with assms active len Counts show ?thesis by (simp add: service_slot_def Let_def)
  next
    case True
    from assms(1,3) active len obtain cb where cb: "callback t = Some cb"
      by (auto simp: timers_ok_def)
    define s0 where "s0 = s\<lparr>timerList := (timerList s)[ndx := t\<lparr>currentValue := 0\<rparr>]\<rparr>"
    have ok0: "timers_ok s0" unfolding s0_def using assms(1) cb by (intro timers_ok_update) auto
    obtain r s1 where run: "run cb (parameters t) s0 = Inr (r, s1)" using run_returns [OF ok0] by blast
    then have s1: "timers_ok s1" "keeps s0 s1" using run_keeps [OF ok0] by auto
    then have "ndx < length (timerList s1)" "timerList s1 ! ndx = t\<lparr>currentValue := 0\<rparr>"
      using assms(2) active len by (auto simp: keeps_def s0_def timers_ok_def)
    then show ?thesis
      using assms(3) active True len cb run s1 ok0
      by (intro Fires [OF active True cb s0_def run ok0 s1 refl], cases r)
        (simp_all add: service_slot_def Let_def s0_def)
  qed
qed

text \<open>One call of the service routine returns, and the table stays well formed.\<close>

lemma slot_returns:
  assumes "timers_ok s" and "ndx < MAX_NUM_CALLBACK_TIMERS"
  shows "\<exists>s'. service_slot run ndx s = Inr s' \<and> timers_ok s'"
  using assms refl
proof (cases rule: slot_cases)
  case Free
  with assms(1) show ?thesis by blast
next
  case Counts
  have "resetValue (timerList s ! ndx) \<noteq> 0 \<longrightarrow> callback (timerList s ! ndx) \<noteq> None"
    using assms by (simp add: timers_ok_def)
  with Counts show ?thesis using assms(1) by (auto intro!: timers_ok_update)
next
  case (Fires s0 cb r s1 u)
  then show ?thesis by (auto intro!: timers_ok_update)
qed

lemma slots_return:
  assumes "timers_ok s" and "set js \<subseteq> {..<MAX_NUM_CALLBACK_TIMERS}"
  shows "\<exists>s'. foldE (service_slot run) js s = Inr s' \<and> timers_ok s'"
  using assms
proof (induction js arbitrary: s)
  case (Cons j js)
  then obtain s' where "service_slot run j s = Inr s'" "timers_ok s'" using slot_returns [of s j] by auto
  with Cons show ?case by auto
qed auto

lemma service_returns:
  assumes "timers_ok s"
  shows "\<exists>s'. serviceCallbackTimer run s = Inr s' \<and> timers_ok s' \<and> \<not> shouldServiceCallbackTimer s'"
proof (cases "shouldServiceCallbackTimer s")
  case True
  obtain s' where "foldE (service_slot run) [0..<MAX_NUM_CALLBACK_TIMERS] s = Inr s'" "timers_ok s'"
    using slots_return [OF assms, of "[0..<MAX_NUM_CALLBACK_TIMERS]"] by (auto simp: subset_eq)
  with True show ?thesis by (auto simp: serviceCallbackTimer_def timers_ok_def)
qed (use assms in \<open>simp add: serviceCallbackTimer_def\<close>)

end

text \<open>
  A callback \<open>mine\<close> that always asks to be called again, with an observation that it alone changes.
\<close>

locale periodic_timer = timer_client run
  for run :: "'c \<Rightarrow> nat \<Rightarrow> ('c, 'z) timers_scheme \<Rightarrow>
      ('c, 'z) timers_scheme stop + (Timer_Return \<times> ('c, 'z) timers_scheme)" +
  fixes mine :: 'c and obs :: "('c, 'z) timers_scheme \<Rightarrow> 'o" and change :: "'o \<Rightarrow> 'o"
  assumes mine_changes: "run mine p s = Inr (r, s') \<Longrightarrow> r = CONTINUE_TIMER \<and> obs s' = change (obs s)"
    and others_keep: "cb \<noteq> mine \<Longrightarrow> run cb p s = Inr (r, s') \<Longrightarrow> obs s' = obs s"
    and never_added: "run cb p s = Inr (r, s') \<Longrightarrow> k < MAX_NUM_CALLBACK_TIMERS \<Longrightarrow>
        timerList s' ! k \<noteq> timerList s ! k \<Longrightarrow> callback (timerList s' ! k) \<noteq> Some mine"
    and obs_table: "obs (s\<lparr>timerList := l\<rparr>) = obs s"
    and obs_flag: "obs (s\<lparr>shouldServiceCallbackTimer := f\<rparr>) = obs s"
    and obs_isr: "obs (CALLBACK_TIMER_ISR s) = obs s"
begin

text \<open>Slot \<open>k\<close> holds \<open>t\<close>, which is the only timer with callback \<open>mine\<close>, and the observation is \<open>v\<close>.\<close>

definition at :: "nat \<Rightarrow> 'c CallbackTimer \<Rightarrow> 'o \<Rightarrow> ('c, 'z) timers_scheme \<Rightarrow> bool" where
  "at k t v s \<longleftrightarrow> timers_ok s \<and> timerList s ! k = t \<and> obs s = v \<and>
     (\<forall>j < MAX_NUM_CALLBACK_TIMERS. j \<noteq> k \<longrightarrow> callback (timerList s ! j) \<noteq> Some mine)"

lemma other_slot:
  assumes "at k t v s" "resetValue t \<noteq> 0" "j < MAX_NUM_CALLBACK_TIMERS" "j \<noteq> k" "k < MAX_NUM_CALLBACK_TIMERS"
  shows "\<exists>s'. service_slot run j s = Inr s' \<and> at k t v s'"
proof -
  have ok: "timers_ok s" and others: "\<And>i. i < MAX_NUM_CALLBACK_TIMERS \<Longrightarrow> i \<noteq> k \<Longrightarrow>
      callback (timerList s ! i) \<noteq> Some mine"
    using assms(1) by (auto simp: at_def)
  have len: "j < length (timerList s)" using ok assms(3) by (simp add: timers_ok_def)
  from ok assms(3) refl show ?thesis
  proof (cases rule: slot_cases)
    case Free
    with assms(1) show ?thesis by blast
  next
    case Counts
    have "timers_ok (s\<lparr>timerList := (timerList s)[j := (timerList s ! j)\<lparr>currentValue := currentValue (timerList s ! j) - 1\<rparr>]\<rparr>)"
      using ok len by (intro timers_ok_update) (auto simp: timers_ok_def)
    with Counts assms(1,4) len show ?thesis
      by (auto simp: at_def obs_table nth_list_update)
  next
    case (Fires s0 cb r s1 u)
    have mine: "cb \<noteq> mine" using others [OF assms(3,4)] Fires(3) by auto
    have k0: "timerList s0 ! k = t" using assms(1,4) by (simp add: Fires(4) at_def)
    then have k1: "timerList s1 ! k = t" using Fires(8) assms(2,5) by (simp add: keeps_def)
    have "callback (timerList s0 ! i) \<noteq> Some mine" if "i < MAX_NUM_CALLBACK_TIMERS" "i \<noteq> k" for i
      using others [OF that] len by (cases "i = j") (auto simp: Fires(4))
    then have "callback (timerList s1 ! i) \<noteq> Some mine" if "i < MAX_NUM_CALLBACK_TIMERS" "i \<noteq> k" for i
      using that never_added [OF Fires(5) that(1)] by (cases "timerList s1 ! i = timerList s0 ! i") auto
    moreover have "callback u \<noteq> Some mine" using mine Fires(3,9) by simp
    ultimately have "callback ((timerList s1)[j := u] ! i) \<noteq> Some mine"
      if "i < MAX_NUM_CALLBACK_TIMERS" "i \<noteq> k" for i
      using that Fires(7) assms(3) by (cases "i = j") (auto simp: timers_ok_def)
    moreover have "timers_ok (s1\<lparr>timerList := (timerList s1)[j := u]\<rparr>)"
      using Fires(3,7,9) by (intro timers_ok_update) auto
    moreover have "obs s1 = v"
      using others_keep [OF mine Fires(5)] assms(1) by (simp add: Fires(4) obs_table at_def)
    ultimately show ?thesis
      using Fires(10) k1 assms(4) by (auto simp: at_def obs_table)
  qed
qed

lemma other_slots:
  assumes "at k t v s" "resetValue t \<noteq> 0" "k < MAX_NUM_CALLBACK_TIMERS" "k \<notin> set js"
    "set js \<subseteq> {..<MAX_NUM_CALLBACK_TIMERS}"
  shows "\<exists>s'. foldE (service_slot run) js s = Inr s' \<and> at k t v s'"
  using assms
proof (induction js arbitrary: s)
  case (Cons j js)
  then obtain s' where "service_slot run j s = Inr s'" "at k t v s'"
    using other_slot [of k t v s j] by auto
  with Cons show ?case by auto
qed auto

definition next_timer :: "'c CallbackTimer \<Rightarrow> 'c CallbackTimer" where
  "next_timer t = t\<lparr>currentValue := if currentValue t = 1 then resetValue t else currentValue t - 1\<rparr>"

lemma own_slot:
  assumes "at k t v s" "resetValue t \<noteq> 0" "callback t = Some mine" "k < MAX_NUM_CALLBACK_TIMERS"
  shows "\<exists>s'. service_slot run k s = Inr s' \<and>
    at k (next_timer t) (if currentValue t = 1 then change v else v) s'"
proof -
  have ok: "timers_ok s" and t: "t = timerList s ! k" using assms(1) by (auto simp: at_def)
  have len: "k < length (timerList s)" using ok assms(4) by (simp add: timers_ok_def)
  from ok assms(4) t show ?thesis
  proof (cases rule: slot_cases)
    case Free
    with assms(2) show ?thesis by blast
  next
    case Counts
    have "timers_ok (s\<lparr>timerList := (timerList s)[k := t\<lparr>currentValue := currentValue t - 1\<rparr>]\<rparr>)"
      using ok assms(3) by (intro timers_ok_update) auto
    with Counts assms(1) len show ?thesis
      by (auto simp: at_def obs_table next_timer_def)
  next
    case (Fires s0 cb r s1 u)
    have cb: "cb = mine" using Fires(3) assms(3) by simp
    have r: "r = CONTINUE_TIMER" "obs s1 = change v"
      using mine_changes [OF Fires(5) [unfolded cb]] assms(1) by (auto simp: Fires(4) obs_table at_def)
    have "callback (timerList s1 ! i) \<noteq> Some mine" if "i < MAX_NUM_CALLBACK_TIMERS" "i \<noteq> k" for i
      using that assms(1) never_added [OF Fires(5) that(1)]
      by (cases "timerList s1 ! i = timerList s0 ! i") (auto simp: at_def Fires(4))
    moreover have "timers_ok (s1\<lparr>timerList := (timerList s1)[k := u]\<rparr>)"
      using Fires(3,7,9) by (intro timers_ok_update) auto
    moreover have "u = next_timer t" using Fires(2,9) r(1) by (simp add: next_timer_def)
    moreover have "k < length (timerList s1)" using Fires(7) assms(4) by (simp add: timers_ok_def)
    ultimately show ?thesis
      using Fires(2,10) r(2) by (auto simp: at_def obs_table)
  qed
qed

lemma slots_split: "k < n \<Longrightarrow> [0..<n] = [0..<k] @ k # [Suc k..<n]"
  by (metis append_Cons append_Nil le_add1 less_imp_add_positive upt_add_eq_append upt_conv_Cons
      add_0 less_imp_le_nat le0)

lemma tick_at:
  assumes "at k t v s" "resetValue t \<noteq> 0" "callback t = Some mine" "k < MAX_NUM_CALLBACK_TIMERS"
  shows "\<exists>s'. millisecond run s = Inr s' \<and> at k (next_timer t) (if currentValue t = 1 then change v else v) s'"
proof -
  let ?v = "if currentValue t = 1 then change v else v"
  have 0: "at k t v (CALLBACK_TIMER_ISR s)"
    using assms(1) obs_isr [of s] by (simp add: at_def timers_ok_def) (simp add: CALLBACK_TIMER_ISR_def)
  obtain s1 where 1: "foldE (service_slot run) [0..<k] (CALLBACK_TIMER_ISR s) = Inr s1" "at k t v s1"
    using other_slots [OF 0 assms(2,4), of "[0..<k]"] assms(4) by (fastforce simp: subset_eq)
  obtain s2 where 2: "service_slot run k s1 = Inr s2" "at k (next_timer t) ?v s2"
    using own_slot [OF 1(2) assms(2-4)] by blast
  obtain s3 where 3: "foldE (service_slot run) [Suc k..<MAX_NUM_CALLBACK_TIMERS] s2 = Inr s3"
    "at k (next_timer t) ?v s3"
    using other_slots [OF 2(2) _ assms(4), of "[Suc k..<MAX_NUM_CALLBACK_TIMERS]"] assms(2)
    by (fastforce simp: next_timer_def subset_eq)
  have "millisecond run s = Inr (s3\<lparr>shouldServiceCallbackTimer := False\<rparr>)"
    unfolding millisecond_def serviceCallbackTimer_def slots_split [OF assms(4)] foldE_append 1(1)
    using 2(1) 3(1) by (simp add: CALLBACK_TIMER_ISR_def)
  moreover have "at k (next_timer t) ?v (s3\<lparr>shouldServiceCallbackTimer := False\<rparr>)"
    using 3(2) by (simp add: at_def timers_ok_def obs_flag)
  ultimately show ?thesis by blast
qed

text \<open>
  After any number of milliseconds: the callback has run once for every full period, and the
  counter shows what is left of the current one.
\<close>

lemma ticks_at:
  assumes "at k t v s" "resetValue t \<noteq> 0" "callback t = Some mine" "k < MAX_NUM_CALLBACK_TIMERS"
    "currentValue t = resetValue t"
  shows "\<exists>s'. milliseconds run n s = Inr s' \<and>
    at k (t\<lparr>currentValue := resetValue t - of_nat (n mod unat (resetValue t))\<rparr>)
      ((change ^^ (n div unat (resetValue t))) v) s'"
proof (induction n)
  case 0
  have "t\<lparr>currentValue := resetValue t\<rparr> = t" using assms(5) by (cases t) simp
  then show ?case using assms(1) by simp
next
  case (Suc n)
  define R m where "R = unat (resetValue t)" and "m = n mod R"
  define u where "u = t\<lparr>currentValue := resetValue t - of_nat m\<rparr>"
  have R: "0 < R" "R < 4294967296" "resetValue t = of_nat R"
    using assms(2) by (auto simp: R_def unat_gt_0)
  have m: "m < R" by (simp add: m_def R)
  have cv: "currentValue u = of_nat (R - m)"
    using m by (simp add: u_def R(3) of_nat_diff)
  have "unat (of_nat (R - m) :: u32) = R - m"
    using R(2) by (intro unat_of_nat_u32) simp
  then have one: "currentValue u = 1 \<longleftrightarrow> Suc m = R"
    using m unfolding cv by (cases "R - m = 1") (auto dest: arg_cong [of _ _ unat])
  from Suc obtain s' where s': "milliseconds run n s = Inr s'" "at k u ((change ^^ (n div R)) v) s'"
    by (auto simp: R_def [symmetric] m_def [symmetric] u_def)
  have "resetValue u \<noteq> 0" "callback u = Some mine" using assms(2,3) by (simp_all add: u_def)
  from tick_at [OF s'(2) this assms(4)] obtain s'' where s'': "millisecond run s' = Inr s''"
    "at k (next_timer u) (if currentValue u = 1 then change ((change ^^ (n div R)) v) else (change ^^ (n div R)) v) s''"
    by blast
  have "next_timer u = t\<lparr>currentValue := resetValue t - of_nat (Suc n mod R)\<rparr>"
    using one by (auto simp: next_timer_def u_def mod_Suc m_def [symmetric] algebra_simps)
  moreover have "(if currentValue u = 1 then change ((change ^^ (n div R)) v) else (change ^^ (n div R)) v) =
      (change ^^ (Suc n div R)) v"
    using one by (simp add: div_Suc mod_Suc m_def)
  ultimately show ?case using s'(1) s'' by (simp add: R_def [symmetric])
qed

end

section \<open>Properties\<close>

text \<open>
  \<^verbatim>\<open>addCallbackTimer\<close> succeeds exactly when the count is not 0, there is a callback and a slot is
  free. Then it fills the first free slot with the full count and leaves the other slots alone;
  otherwise it returns -1 and changes nothing.
\<close>

theorem addCallbackTimer_outcome:
  assumes "timers_ok s"
  shows "if count \<noteq> 0 \<and> cb \<noteq> None \<and> (\<exists>t \<in> set (timerList s). resetValue t = 0)
    then \<exists>k < MAX_NUM_CALLBACK_TIMERS. resetValue (timerList s ! k) = 0 \<and>
           (\<forall>j < k. resetValue (timerList s ! j) \<noteq> 0) \<and>
           addCallbackTimer count cb p s = (0, s\<lparr>timerList := (timerList s)[k :=
             \<lparr>currentValue = count, resetValue = count, callback = cb, parameters = p\<rparr>]\<rparr>)
    else addCallbackTimer count cb p s = (-1, s)"
proof -
  let ?k = "free_slot (timerList s)"
  have "?k \<noteq> MAX_NUM_CALLBACK_TIMERS \<longleftrightarrow> (\<exists>t \<in> set (timerList s). resetValue t = 0)"
    using assms free_slot_eq_length [of "timerList s"] by (auto simp: timers_ok_def)
  moreover have "?k < MAX_NUM_CALLBACK_TIMERS \<and> resetValue (timerList s ! ?k) = 0"
    if "?k \<noteq> MAX_NUM_CALLBACK_TIMERS"
    using that assms free_slot_le [of "timerList s"] free_slot_free [of "timerList s"]
    by (auto simp: timers_ok_def)
  ultimately show ?thesis
    using free_slot_first [of _ "timerList s"] by (auto simp: addCallbackTimer_def Let_def)
qed

definition empty_timers :: "nat timers" where
  "empty_timers = \<lparr>timerList = replicate 32 \<lparr>currentValue = 0, resetValue = 0, callback = None, parameters = 0\<rparr>,
     shouldServiceCallbackTimer = False, oregs = (\<lambda>_. 0)\<rparr>"

theorem addCallbackTimer_outcome_witness:
  "(\<exists>k < 32. addCallbackTimer 5 (Some (7::nat)) 0 empty_timers = (0, empty_timers\<lparr>timerList :=
      (timerList empty_timers)[k := \<lparr>currentValue = 5, resetValue = 5, callback = Some 7, parameters = 0\<rparr>]\<rparr>)) \<and>
   addCallbackTimer 0 (Some 7) 0 empty_timers = (-1, empty_timers)"
proof -
  have "timers_ok empty_timers"
    by (simp add: timers_ok_def empty_timers_def MAX_NUM_CALLBACK_TIMERS_def)
  from addCallbackTimer_outcome [OF this, of 5 "Some 7" 0] addCallbackTimer_outcome [OF this, of 0 "Some 7" 0]
  show ?thesis by (auto simp: empty_timers_def MAX_NUM_CALLBACK_TIMERS_def)
qed

end
