(* ===== verification/MasterGpio.thy ===== *)
theory MasterGpio
  imports Mmio
begin

text \<open>
  The pins of the master board: the vendor library's \<^verbatim>\<open>HAL_GPIO_Init\<close> for the STM32F2, which differs
  in its text from the one of the slaves, and the two functions of \<^verbatim>\<open>master_lib/peripherals\<close> that
  configure pins with it, \<^verbatim>\<open>MX_GPIO_Init\<close> and \<^verbatim>\<open>HAL_SPI_MspInit\<close>. The two library functions are
  proved equal for every mode without external interrupt.
\<close>

section \<open>The library function\<close>

text \<open>\<^verbatim>\<open>reg &= ~m; reg |= v;\<close>\<close>

definition put_field :: "reg \<Rightarrow> u32 \<Rightarrow> u32 \<Rightarrow> regs \<Rightarrow> regs" where
  "put_field r m v f = set_bits r v (clear_bits r m f)"

lemma put_field_set_field: "put_field r m v f = set_field r m v f"
  by (simp add: put_field_def fun_eq_iff)

fun HAL_GET_GPIO_SOURCE :: "gport \<Rightarrow> u32" where
  "HAL_GET_GPIO_SOURCE GPIOA = 0"
| "HAL_GET_GPIO_SOURCE GPIOB = 1"
| "HAL_GET_GPIO_SOURCE GPIOC = 2"
| "HAL_GET_GPIO_SOURCE GPIOD = 3"
| "HAL_GET_GPIO_SOURCE GPIOE = 4"
| "HAL_GET_GPIO_SOURCE GPIOF = 5"

definition F2_gpio_exti :: "gport \<Rightarrow> GPIO_InitTypeDef \<Rightarrow> nat \<Rightarrow> regs \<Rightarrow> regs" where
  "F2_gpio_exti port ini position f =
     (let iocurrent = Pin ini AND push_bit position 1;
          f = set_bits (Rcc APB2ENR) 0x4000 f;
          f = put_field (Exticr (position div 4)) (push_bit (4 * (position mod 4)) 0xF)
                (push_bit (4 * (position mod 4)) (HAL_GET_GPIO_SOURCE port)) f;
          f = clear_bits (Exti EMR) iocurrent (clear_bits (Exti IMR) iocurrent f);
          f = (if Mode ini AND 0x00010000 = 0x00010000 then set_bits (Exti IMR) iocurrent f else f);
          f = (if Mode ini AND 0x00020000 = 0x00020000 then set_bits (Exti EMR) iocurrent f else f);
          f = clear_bits (Exti FTSR) iocurrent (clear_bits (Exti RTSR) iocurrent f);
          f = (if Mode ini AND 0x00100000 = 0x00100000 then set_bits (Exti RTSR) iocurrent f else f)
      in if Mode ini AND 0x00200000 = 0x00200000 then set_bits (Exti FTSR) iocurrent f else f)"

definition F2_gpio_pin :: "gport \<Rightarrow> GPIO_InitTypeDef \<Rightarrow> nat \<Rightarrow> regs \<Rightarrow> regs" where
  "F2_gpio_pin port ini position f =
     (let f = (if Mode ini = GPIO_MODE_AF_PP \<or> Mode ini = GPIO_MODE_AF_OD
               then put_field (Gpio port (if position < 8 then AFRL else AFRH))
                      (push_bit (position mod 8 * 4) 0xF)
                      (push_bit (position mod 8 * 4) (Alternate ini)) f
               else f);
          f = put_field (Gpio port MODER) (push_bit (position * 2) 3)
                (push_bit (position * 2) (Mode ini AND 3)) f;
          f = (if Mode ini = GPIO_MODE_OUTPUT_PP \<or> Mode ini = GPIO_MODE_AF_PP \<or>
                  Mode ini = GPIO_MODE_OUTPUT_OD \<or> Mode ini = GPIO_MODE_AF_OD
               then put_field (Gpio port OTYPER) (push_bit position 1)
                      (push_bit position (drop_bit 4 (Mode ini AND 0x10)))
                      (put_field (Gpio port OSPEEDR) (push_bit (position * 2) 3)
                         (push_bit (position * 2) (Speed ini)) f)
               else f);
          f = put_field (Gpio port PUPDR) (push_bit (position * 2) 3)
                (push_bit (position * 2) (Pull ini)) f
      in if Mode ini AND 0x10000000 = 0x10000000 then F2_gpio_exti port ini position f else f)"

definition F2_HAL_GPIO_Init :: "gport \<Rightarrow> GPIO_InitTypeDef \<Rightarrow> regs \<Rightarrow> regs" where
  "F2_HAL_GPIO_Init port ini f =
     fold (\<lambda>position f.
         let ioposition = push_bit position 1; iocurrent = Pin ini AND ioposition in
         if iocurrent = ioposition then F2_gpio_pin port ini position f else f) [0..<16] f"

section \<open>Pins of the board\<close>

definition out_pp :: "u32 \<Rightarrow> u32 \<Rightarrow> GPIO_InitTypeDef" where
  "out_pp pins speed = \<lparr>Pin = pins, Mode = GPIO_MODE_OUTPUT_PP, Pull = 0, Speed = speed, Alternate = 0\<rparr>"

definition input :: "u32 \<Rightarrow> u32 \<Rightarrow> GPIO_InitTypeDef" where
  "input pins speed = \<lparr>Pin = pins, Mode = GPIO_MODE_INPUT, Pull = 0, Speed = speed, Alternate = 0\<rparr>"

definition GPIO_SPEED_LOW :: u32 where "GPIO_SPEED_LOW = 0"
definition GPIO_SPEED_HIGH :: u32 where "GPIO_SPEED_HIGH = 3"
definition GPIO_AF6_SPI3 :: u32 where "GPIO_AF6_SPI3 = 6"

definition led_pins :: "(gport \<times> u32) list" where
  "led_pins = [(GPIOB, GPIO_PIN 0), (GPIOB, GPIO_PIN 1), (GPIOA, GPIO_PIN 3), (GPIOA, GPIO_PIN 4),
     (GPIOA, GPIO_PIN 5), (GPIOA, GPIO_PIN 6)]"

definition MX_GPIO_Init :: "regs \<Rightarrow> regs" where
  "MX_GPIO_Init f =
     (let f = set_bits (Rcc AHB1ENR) 2 (set_bits (Rcc AHB1ENR) 1 f);
          f = fold (\<lambda>(prt, pin) f. F2_HAL_GPIO_Init prt (out_pp pin GPIO_SPEED_LOW)
                      (HAL_GPIO_WritePin prt pin False f)) led_pins f;
          f = set_bits (Rcc AHB1ENR) 4 f
      in F2_HAL_GPIO_Init GPIOC (input (GPIO_PIN 0) GPIO_SPEED_LOW) f)"

text \<open>The interrupt and select pins in the order of the submodules.\<close>

definition it_pins :: "(gport \<times> u32) list" where
  "it_pins = [(GPIOC, GPIO_PIN 15), (GPIOB, GPIO_PIN 14), (GPIOB, GPIO_PIN 7), (GPIOC, GPIO_PIN 14),
     (GPIOA, GPIO_PIN 9)]"

definition ss_pins :: "(gport \<times> u32) list" where
  "ss_pins = [(GPIOB, GPIO_PIN 9), (GPIOC, GPIO_PIN 8), (GPIOB, GPIO_PIN 6), (GPIOC, GPIO_PIN 13),
     (GPIOA, GPIO_PIN 8)]"

definition HAL_SPI_MspInit :: "bool \<Rightarrow> regs \<Rightarrow> regs" where
  "HAL_SPI_MspInit is_SPI3 f =
     (if is_SPI3 then
        let f = set_bits (Rcc AHB1ENR) 4 (set_bits (Rcc AHB1ENR) 2 (set_bits (Rcc AHB1ENR) 1
                  (set_bits (Rcc APB1ENR) 0x8000 f)));
            f = F2_HAL_GPIO_Init GPIOB
                  \<lparr>Pin = GPIO_PIN 3 OR GPIO_PIN 4 OR GPIO_PIN 5, Mode = GPIO_MODE_AF_PP, Pull = 0,
                   Speed = GPIO_SPEED_HIGH, Alternate = GPIO_AF6_SPI3\<rparr> f;
            f = fold (\<lambda>(prt, pin). F2_HAL_GPIO_Init prt (input pin GPIO_SPEED_HIGH)) it_pins f
        in fold (\<lambda>(prt, pin) f. F2_HAL_GPIO_Init prt (out_pp pin GPIO_SPEED_HIGH)
                   (HAL_GPIO_WritePin prt pin True f)) ss_pins f
      else f)"

section \<open>The two library functions agree\<close>

lemma F2_gpio_pin_eq: "Mode ini AND 0x10000000 = 0 \<Longrightarrow> F2_gpio_pin port ini pos f = gpio_one port ini pos f"
  by (simp add: F2_gpio_pin_def gpio_one_def put_field_set_field Let_def)

lemma and_ioposition:
  assumes pos: "pos < 32"
  shows "(p :: u32) AND push_bit pos 1 = push_bit pos 1 \<longleftrightarrow> bit p pos"
proof
  assume eq: "p AND push_bit pos 1 = push_bit pos 1"
  from arg_cong [OF eq, of "\<lambda>x. bit x pos"] pos show "bit p pos" by (simp add: bit_simps)
next
  assume "bit p pos"
  then show "p AND push_bit pos 1 = push_bit pos 1"
    by (intro bit_word_eqI) (auto simp: bit_simps)
qed

definition F2_body :: "gport \<Rightarrow> GPIO_InitTypeDef \<Rightarrow> nat \<Rightarrow> regs \<Rightarrow> regs" where
  "F2_body port ini pos f = (if bit (Pin ini) pos then F2_gpio_pin port ini pos f else f)"

lemma F2_HAL_GPIO_Init_body: "F2_HAL_GPIO_Init port ini f = fold (F2_body port ini) [0..<16] f"
  unfolding F2_HAL_GPIO_Init_def
proof (rule fold_cong [OF refl refl])
  fix x :: nat
  assume "x \<in> set [0..<16]"
  then have "x < 32" by simp
  show "(\<lambda>f. let ioposition = push_bit x 1; iocurrent = Pin ini AND ioposition in
      if iocurrent = ioposition then F2_gpio_pin port ini x f else f) = F2_body port ini x"
    unfolding Let_def and_ioposition [OF \<open>x < 32\<close>] F2_body_def ..
qed

lemma fold_nothing: "(\<And>x f. x \<in> set xs \<Longrightarrow> g x f = f) \<Longrightarrow> fold g xs f = f"
  by (induction xs arbitrary: f) auto

lemma loop_is_fold:
  assumes "Mode ini AND 0x10000000 = 0" "drop_bit 16 (Pin ini) = 0" "pos \<le> 16"
  shows "gpio_loop port ini pos f = fold (F2_body port ini) [pos..<16] f"
  using assms(3)
proof (induction "16 - pos" arbitrary: pos f)
  case 0
  then have "pos = 16" by simp
  then show ?case using assms(2) by (subst gpio_loop.simps) simp
next
  case (Suc n)
  then have pos: "pos < 16" "n = 16 - Suc pos" by auto
  show ?case
  proof (cases "drop_bit pos (Pin ini) = 0")
    case True
    have "F2_body port ini p g = g" if "pos \<le> p" for p g
      using that arg_cong [OF True, of "\<lambda>x. bit x (p - pos)"]
      by (simp add: F2_body_def bit_drop_bit_eq)
    then have "fold (F2_body port ini) [pos..<16] f = f" by (intro fold_nothing) simp
    with True show ?thesis by (subst gpio_loop.simps) simp
  next
    case False
    have "gpio_loop port ini pos f = gpio_loop port ini (Suc pos) (F2_body port ini pos f)"
      using False by (subst gpio_loop.simps)
        (simp only: F2_body_def F2_gpio_pin_eq [OF assms(1)] and_push_bit_1 if_True not_False_eq_True
          Suc_eq_plus1)
    also have "\<dots> = fold (F2_body port ini) [Suc pos..<16] (F2_body port ini pos f)"
      using Suc.hyps(1) [OF pos(2)] pos(1) by simp
    finally show ?thesis using pos(1) by (simp add: upt_conv_Cons)
  qed
qed

text \<open>
  C36. The STM32F2 library's \<^verbatim>\<open>HAL_GPIO_Init\<close> (a loop over all 16 positions that clears and sets the
  registers in place) and the STM32F0 library's (a loop while selected pins remain, over a copy of
  each register) have the same effect for pins 0 to 15 and every mode without external interrupt.
\<close>

theorem F2_HAL_GPIO_Init_eq_F0:
  assumes "Mode ini AND 0x10000000 = 0" and "drop_bit 16 (Pin ini) = 0"
  shows "F2_HAL_GPIO_Init port ini f = HAL_GPIO_Init port ini f"
  by (simp add: F2_HAL_GPIO_Init_body HAL_GPIO_Init_def loop_is_fold [OF assms])

theorem F2_HAL_GPIO_Init_eq_F0_witness:
  "F2_HAL_GPIO_Init GPIOB (out_pp 0x200 3) (\<lambda>r. 0) = HAL_GPIO_Init GPIOB (out_pp 0x200 3) (\<lambda>r. 0)"
  by (rule F2_HAL_GPIO_Init_eq_F0) (simp_all add: out_pp_def GPIO_MODE_OUTPUT_PP_def)

section \<open>The pins after initialisation\<close>

definition plain :: "GPIO_InitTypeDef \<Rightarrow> bool" where
  "plain ini \<longleftrightarrow> Mode ini AND 0x10000000 = 0 \<and> drop_bit 16 (Pin ini) = 0"

lemma F2_other_register: "plain ini \<Longrightarrow> g \<in> {ODR, IDR} \<Longrightarrow> F2_HAL_GPIO_Init p ini f (Gpio q g) = f (Gpio q g)"
  by (auto simp: plain_def F2_HAL_GPIO_Init_body HAL_GPIO_Init_def [symmetric] loop_is_fold [symmetric] pin_config_def)

lemma F2_MODER:
  assumes "plain ini" "n < 32"
  shows "bit (F2_HAL_GPIO_Init p ini f (Gpio q MODER)) n =
    (if p = q \<and> bit (Pin ini) (n div 2) then bit (Mode ini) (n mod 2) else bit (f (Gpio q MODER)) n)"
proof (cases "p = q")
  case True
  have "bit (gpio_loop p ini 0 f (Gpio p MODER)) (2 * (n div 2) + n mod 2) =
      (if bit (Pin ini) (n div 2) then bit (Mode ini) (n mod 2)
       else bit (f (Gpio p MODER)) (2 * (n div 2) + n mod 2))"
    using gpio_loop_MODER [of "n div 2" "n mod 2" p ini 0 f] assms(2) by simp
  with True assms(1) show ?thesis
    by (simp add: plain_def F2_HAL_GPIO_Init_body loop_is_fold [symmetric])
next
  case False
  with assms(1) show ?thesis
    by (simp add: plain_def F2_HAL_GPIO_Init_body loop_is_fold [symmetric] gpio_loop_frame pin_config_def)
qed

lemma bit_pin: "bit (push_bit k (1 :: u32)) n \<longleftrightarrow> n = k \<and> n < 32"
  by (auto simp: bit_simps)

lemma drop_pin: "k < 16 \<Longrightarrow> drop_bit 16 (GPIO_PIN k) = 0"
  by (intro bit_word_eqI) (auto simp: bit_simps bit_GPIO_PIN)

lemma plain_pins [simp]: "k < 16 \<Longrightarrow> plain (out_pp (GPIO_PIN k) sp)" "k < 16 \<Longrightarrow> plain (input (GPIO_PIN k) sp)"
  by (simp_all add: plain_def out_pp_def input_def drop_pin GPIO_MODE_OUTPUT_PP_def GPIO_MODE_INPUT_def)

lemma mode_bits [simp]:
  "bit (Mode (out_pp pins sp)) n \<longleftrightarrow> n = 0" "\<not> bit (Mode (input pins sp)) n"
  "Pin (out_pp pins sp) = pins" "Pin (input pins sp) = pins"
  by (auto simp: out_pp_def input_def GPIO_MODE_OUTPUT_PP_def GPIO_MODE_INPUT_def bit_simps)

definition drives_high :: "gport \<Rightarrow> nat \<Rightarrow> regs \<Rightarrow> bool" where
  "drives_high p k f \<longleftrightarrow> bit (f (Gpio p ODR)) k \<and> bit (f (Gpio p MODER)) (2 * k) \<and> \<not> bit (f (Gpio p MODER)) (2 * k + 1)"

definition reads :: "gport \<Rightarrow> nat \<Rightarrow> regs \<Rightarrow> bool" where
  "reads p k f \<longleftrightarrow> \<not> bit (f (Gpio p MODER)) (2 * k) \<and> \<not> bit (f (Gpio p MODER)) (2 * k + 1)"

lemma select_pin:
  assumes "k < 16" "n < 16"
  shows "drives_high q n (F2_HAL_GPIO_Init p (out_pp (GPIO_PIN k) sp) (HAL_GPIO_WritePin p (GPIO_PIN k) True f)) \<longleftrightarrow>
      p = q \<and> n = k \<or> drives_high q n f"
    and "reads q n (F2_HAL_GPIO_Init p (out_pp (GPIO_PIN k) sp) (HAL_GPIO_WritePin p (GPIO_PIN k) True f)) \<longleftrightarrow>
      \<not> (p = q \<and> n = k) \<and> reads q n f"
  using assms
  by (auto simp: drives_high_def reads_def F2_other_register F2_MODER bit_GPIO_PIN HAL_GPIO_WritePin_def
      bit_simps split: if_splits)

lemma read_pin:
  assumes "k < 16" "n < 16"
  shows "reads q n (F2_HAL_GPIO_Init p (input (GPIO_PIN k) sp) f) \<longleftrightarrow> p = q \<and> n = k \<or> reads q n f"
  using assms by (auto simp: reads_def F2_MODER bit_GPIO_PIN split: if_splits)

text \<open>
  After \<^verbatim>\<open>HAL_SPI_MspInit\<close> no submodule is selected: the five select pins are outputs driven high
  (each is raised before it becomes an output), and the five interrupt pins are inputs.
\<close>

theorem spi_msp_init_deselects_all:
  "drives_high GPIOB 9 (HAL_SPI_MspInit True f) \<and> drives_high GPIOC 8 (HAL_SPI_MspInit True f) \<and>
   drives_high GPIOB 6 (HAL_SPI_MspInit True f) \<and> drives_high GPIOC 13 (HAL_SPI_MspInit True f) \<and>
   drives_high GPIOA 8 (HAL_SPI_MspInit True f) \<and>
   reads GPIOC 15 (HAL_SPI_MspInit True f) \<and> reads GPIOB 14 (HAL_SPI_MspInit True f) \<and>
   reads GPIOB 7 (HAL_SPI_MspInit True f) \<and> reads GPIOC 14 (HAL_SPI_MspInit True f) \<and>
   reads GPIOA 9 (HAL_SPI_MspInit True f)"
  by (simp add: HAL_SPI_MspInit_def ss_pins_def it_pins_def Let_def select_pin read_pin)

end
