(* ===== verification/OlympusBoard.thy ===== *)
theory OlympusBoard
  imports TimerCallback SubmoduleComms MasterGpio
begin

text \<open>
  The drivers of the Olympus board under \<^verbatim>\<open>olympus/drivers\<close>: LEDs, seven-segment display, sounds,
  error reports, the speed DAC, the power readings, and the messages to the five submodules. Their
  global variables are the fields of one record, which extends the timer table because drivers
  register callbacks there. \<open>printed\<close> collects what \<^verbatim>\<open>printf\<close> writes.
\<close>

section \<open>State\<close>

datatype timer_cb = Heartbeat | SpeedDACCallback | Startup | Failure

record olympus = "timer_cb timers" +
  idx :: u8
  targetSpeed :: u16
  currentSpeed :: u16
  enableSpeedOutput :: u8
  hermesSpeed :: "u8 list"
  hermesAman :: u8
  janusFnr :: u8
  steerPot :: "u8 list"
  steerSpeed :: "u8 list"
  brakePot :: "u8 list"
  power :: "u8 list"
  pwradcValues :: "u8 list"
  submoduleCommsBuff :: "u8 list"
  bus :: mspi
  printed :: "string list"

definition crlf :: string where "crlf = [CHR 0x0D, CHR 0x0A]"

definition printf :: "string \<Rightarrow> 'z olympus_scheme \<Rightarrow> 'z olympus_scheme" where
  "printf str s = s\<lparr>printed := printed s @ [str @ crlf]\<rparr>"

text \<open>The text of \<^verbatim>\<open>%u\<close> and of \<^verbatim>\<open>%d\<close> for a number that is not negative.\<close>

fun decimal :: "nat \<Rightarrow> string" where
  "decimal n = (if n < 10 then [char_of (48 + n)] else decimal (n div 10) @ [char_of (48 + n mod 10)])"

declare decimal.simps [simp del]

section \<open>LEDs\<close>

datatype LEDState = LED_OFF | LED_ON

text \<open>The entry 0 of the table is empty; its port is \<^verbatim>\<open>NULL\<close>.\<close>

definition LEDtable :: "(gport option \<times> u32) list" where
  "LEDtable = [(None, 0), (Some GPIOB, GPIO_PIN 0), (Some GPIOB, GPIO_PIN 1), (Some GPIOA, GPIO_PIN 3),
     (Some GPIOA, GPIO_PIN 4), (Some GPIOA, GPIO_PIN 5), (Some GPIOA, GPIO_PIN 6)]"

definition heartbeat :: "'z olympus_scheme \<Rightarrow> Timer_Return \<times> 'z olympus_scheme" where
  "heartbeat s = (CONTINUE_TIMER, s\<lparr>oregs := HAL_GPIO_TogglePin GPIOB (GPIO_PIN 0) (oregs s)\<rparr>)"

definition writeLED :: "u8 \<Rightarrow> LEDState \<Rightarrow> 'z olympus_scheme \<Rightarrow> 'z olympus_scheme cres" where
  "writeLED ledNum st s =
     (if (st = LED_ON \<or> st = LED_OFF) \<and> ledNum > 0 \<and> unat ledNum \<le> length LEDtable
      then bindE (rd LEDtable (unat ledNum)) (\<lambda>(prt, pin).
           case prt of
             None \<Rightarrow> Inl NullDeref
           | Some p \<Rightarrow> Inr (s\<lparr>oregs := HAL_GPIO_WritePin p pin (st = LED_ON) (oregs s)\<rparr>))
      else Inr s)"

definition led_of_bit :: "u8 \<Rightarrow> nat \<Rightarrow> LEDState" where
  "led_of_bit b i = (if drop_bit i b AND 1 = 1 then LED_ON else LED_OFF)"

definition commsSetLeds :: "u8 list \<Rightarrow> 'z olympus_scheme \<Rightarrow> 'z olympus_scheme cres" where
  "commsSetLeds data s =
     bindE (rd data 1) (\<lambda>byte0. bindE (rd data 0) (\<lambda>byte1.
     bindE (foldE (\<lambda>i. writeLED (of_nat (i + 1)) (led_of_bit byte0 i)) [0..<8] s) (\<lambda>s.
     foldE (\<lambda>i. writeLED (of_nat (i + 9)) (led_of_bit byte1 i)) [0..<4] s)))"

section \<open>Seven-segment display\<close>

definition charToSevenSeg :: "char \<Rightarrow> u8" where
  "charToSevenSeg c =
     (if c = CHR ''0'' then 0x3F else if c = CHR ''1'' then 0x06 else if c = CHR ''2'' then 0x5B
      else if c = CHR ''3'' then 0x4F else if c = CHR ''4'' then 0x66 else if c = CHR ''5'' then 0x6D
      else if c = CHR ''6'' then 0x7D else if c = CHR ''7'' then 0x07 else if c = CHR ''8'' then 0x7F
      else if c = CHR ''9'' then 0x67 else if c = CHR ''A'' then 0x77 else if c = CHR ''B'' then 0x7C
      else if c = CHR ''C'' then 0x39 else if c = CHR ''D'' then 0x5E else if c = CHR ''E'' then 0x79
      else if c = CHR ''F'' then 0x71 else 0xFF)"

text \<open>The complement is taken after promotion to \<^verbatim>\<open>int\<close> and cut to the 16 bits of the pin argument.\<close>

definition show_digit :: "gport \<Rightarrow> char \<Rightarrow> regs \<Rightarrow> regs" where
  "show_digit prt c f =
     (let seg = charToSevenSeg c in
      HAL_GPIO_WritePin prt (ucast seg) False
        (HAL_GPIO_WritePin prt (ucast (NOT (ucast seg :: u16))) True f))"

definition setSevenSeg :: "string \<Rightarrow> 'z olympus_scheme \<Rightarrow> 'z olympus_scheme cres" where
  "setSevenSeg mess s =
     bindE (rd mess 0) (\<lambda>c0. bindE (rd mess 1) (\<lambda>c1.
     Inr (s\<lparr>oregs := show_digit GPIOD c1 (show_digit GPIOE c0 (oregs s))\<rparr>)))"

definition initSevenSeg :: "'z olympus_scheme \<Rightarrow> 'z olympus_scheme" where
  "initSevenSeg s =
     (let f = set_bits (Rcc AHB1ENR) 0x10 (set_bits (Rcc AHB1ENR) 8 (oregs s));
          ini = out_pp 0x7F GPIO_SPEED_LOW
      in s\<lparr>oregs := F2_HAL_GPIO_Init GPIOE ini (F2_HAL_GPIO_Init GPIOD ini f)\<rparr>)"

section \<open>Sounds\<close>

text \<open>A note is the timer count of its frequency and its length in sixteenths.\<close>

definition windows :: "(u16 \<times> nat) list" where
  "windows = [(1199, 3), (2399, 1), (1601, 4), (1797, 5), (1199, 3), (1601, 8)]"

definition shutdown :: "(u16 \<times> nat) list" where
  "shutdown = [(899, 3), (1199, 3), (1797, 3), (1601, 4)]"

definition noteslen :: "u32 list" where
  "noteslen = [0, 107, 214, 321, 428, 535, 642, 750, 857, 964, 1071, 1178, 1285]"

definition playNote :: "u16 \<Rightarrow> 'z olympus_scheme \<Rightarrow> 'z olympus_scheme" where
  "playNote fre s = s\<lparr>oregs := (oregs s)(Tim TIM4 ARR := ucast fre * 2, Tim TIM4 CCR3 := ucast fre)\<rparr>"

text \<open>\<^verbatim>\<open>startup\<close> and \<^verbatim>\<open>failure\<close> have the same body over their own table and name.\<close>

definition song :: "(u16 \<times> nat) list \<Rightarrow> timer_cb \<Rightarrow> 'z olympus_scheme \<Rightarrow> (Timer_Return \<times> 'z olympus_scheme) cres" where
  "song notes self s =
     (if unat (idx s) < length notes then
        bindE (rd notes (unat (idx s))) (\<lambda>(freq, numnotes).
        bindE (rd noteslen numnotes) (\<lambda>len.
        Inr (DISABLE_TIMER, (snd (addCallbackTimer len (Some self) 0 (playNote freq s)))\<lparr>idx := idx s + 1\<rparr>)))
      else if unat (idx s) = length notes then Inr (DISABLE_TIMER, playNote 0 s)
      else Inr (DISABLE_TIMER, s))"

definition startup :: "'z olympus_scheme \<Rightarrow> (Timer_Return \<times> 'z olympus_scheme) cres" where
  "startup = song windows Startup"

definition failure :: "'z olympus_scheme \<Rightarrow> (Timer_Return \<times> 'z olympus_scheme) cres" where
  "failure = song shutdown Failure"

definition Tim_Init :: "'z olympus_scheme \<Rightarrow> 'z olympus_scheme" where
  "Tim_Init s =
     (let f = set_bits (Rcc APB1ENR) 4 (set_bits (Rcc AHB1ENR) 2 (oregs s));
          f = f(Tim TIM4 PSC := 19, Tim TIM4 CCMR2 := 0x70, Tim TIM4 CCER := 0x100, Tim TIM4 CR1 := 1,
                Tim TIM4 ARR := 24000, Tim TIM4 CCR3 := 24000)
      in s\<lparr>oregs := F2_HAL_GPIO_Init GPIOB
           \<lparr>Pin = GPIO_PIN 8, Mode = GPIO_MODE_AF_PP, Pull = 0, Speed = GPIO_SPEED_LOW, Alternate = 2\<rparr> f\<rparr>)"

definition runStartupSong :: "'z olympus_scheme \<Rightarrow> 'z olympus_scheme" where
  "runStartupSong s = snd (addCallbackTimer 1 (Some Startup) 0 (Tim_Init s))"

definition runErrorSong :: "'z olympus_scheme \<Rightarrow> 'z olympus_scheme" where
  "runErrorSong s = snd (addCallbackTimer 1 (Some Failure) 0 s)"

section \<open>Kill, reset and error reports\<close>

definition RESET_KEY :: u32 where "RESET_KEY = 0x464C4150"

definition resetBoard :: "u8 list \<Rightarrow> 'z olympus_scheme \<Rightarrow> 'z olympus_scheme stop + 'z olympus_scheme" where
  "resetBoard data s =
     bindE (ckd (rd_range data 0 4)) (\<lambda>w.
     if of_le32 (w ! 0) (w ! 1) (w ! 2) (w ! 3) = RESET_KEY
     then Inl (SystemReset (s\<lparr>oregs := set_bits (Rcc CSR) 0x01000000 (oregs s)\<rparr>))
     else Inr s)"

definition killBoard :: "'z olympus_scheme \<Rightarrow> 'z olympus_scheme stop + 'z olympus_scheme" where
  "killBoard s = Inl (Waits s)"

datatype THREATLevel = KILL | ALERT | NOTIFY

definition ErrorHandler :: "string \<Rightarrow> THREATLevel \<Rightarrow> 'z olympus_scheme \<Rightarrow> 'z olympus_scheme stop + 'z olympus_scheme" where
  "ErrorHandler type severity s =
     bindE (ckd (setSevenSeg type s)) (\<lambda>s.
     if severity = KILL then killBoard s
     else if severity = ALERT then Inr (printf (''ALERT: '' @ type) (runErrorSong s))
     else if severity = NOTIFY then Inr (printf (''NOTIFY: '' @ type) s)
     else Inr s)"

section \<open>Speed DAC\<close>

text \<open>
  \<^verbatim>\<open>writeDataMAX517\<close> has an empty body, so the values computed for the chip go nowhere;
  \<^verbatim>\<open>isPedalDown\<close> always answers 1.
\<close>

definition SPEED_DAC_INCR :: u16 where "SPEED_DAC_INCR = 10"
definition SPEED_DAC_INCR_PERIOD :: u32 where "SPEED_DAC_INCR_PERIOD = 20"

definition writeDataMAX517 :: "u16 \<Rightarrow> 'z olympus_scheme \<Rightarrow> 'z olympus_scheme" where
  "writeDataMAX517 dacData s = s"

definition setSpeedDAC :: "u16 \<Rightarrow> 'z olympus_scheme \<Rightarrow> 'z olympus_scheme" where
  "setSpeedDAC v s = writeDataMAX517 (0x4000 OR (push_bit 2 v AND 0x3FFC)) s"

definition isPedalDown :: u8 where "isPedalDown = 1"

definition speedDACCallback :: "'z olympus_scheme \<Rightarrow> Timer_Return \<times> 'z olympus_scheme" where
  "speedDACCallback s =
     (CONTINUE_TIMER,
      if enableSpeedOutput s \<noteq> 0 then
        if isPedalDown \<noteq> 0 then
          if currentSpeed s < targetSpeed s then
            let s = s\<lparr>currentSpeed := currentSpeed s + SPEED_DAC_INCR\<rparr>;
                s = (if currentSpeed s > targetSpeed s then s\<lparr>currentSpeed := targetSpeed s\<rparr> else s)
            in setSpeedDAC (currentSpeed s) s
          else if currentSpeed s > targetSpeed s then
            let s = s\<lparr>currentSpeed := targetSpeed s\<rparr> in setSpeedDAC (currentSpeed s) s
          else s
        else setSpeedDAC 0 (s\<lparr>currentSpeed := 0\<rparr>)
      else s)"

definition enableSpeedDAC :: "'z olympus_scheme \<Rightarrow> 'z olympus_scheme" where
  "enableSpeedDAC s = (writeDataMAX517 0xE800 s)\<lparr>enableSpeedOutput := 1\<rparr>"

definition resetSpeedDAC :: "'z olympus_scheme \<Rightarrow> 'z olympus_scheme" where
  "resetSpeedDAC s = (let s = s\<lparr>targetSpeed := 0, currentSpeed := 0\<rparr> in setSpeedDAC (currentSpeed s) s)"

definition disableSpeedDAC :: "'z olympus_scheme \<Rightarrow> 'z olympus_scheme" where
  "disableSpeedDAC s = resetSpeedDAC ((writeDataMAX517 0xE000 s)\<lparr>enableSpeedOutput := 0\<rparr>)"

definition writeSpeedDAC :: "u16 \<Rightarrow> 'z olympus_scheme \<Rightarrow> 'z olympus_scheme" where
  "writeSpeedDAC v s = s\<lparr>targetSpeed := v\<rparr>"

definition getSpeedDAC :: "'z olympus_scheme \<Rightarrow> u16" where
  "getSpeedDAC s = targetSpeed s"

definition initSpeedDAC :: "'z olympus_scheme \<Rightarrow> 'z olympus_scheme" where
  "initSpeedDAC s = snd (addCallbackTimer SPEED_DAC_INCR_PERIOD (Some SpeedDACCallback) 0
     (enableSpeedDAC (setSpeedDAC 0 s)))"

text \<open>The two packet callbacks get the data bytes of the packet.\<close>

definition commsSetThrottleCallback :: "u8 list \<Rightarrow> 'z olympus_scheme \<Rightarrow> 'z olympus_scheme cres" where
  "commsSetThrottleCallback data s =
     bindE (rd data 0) (\<lambda>d0. bindE (rd data 1) (\<lambda>d1.
     Inr (writeSpeedDAC (push_bit 8 (ucast d0) OR (ucast d1 AND 0xFF)) s)))"

definition commsSetThrottleEnableCallback :: "u8 list \<Rightarrow> 'z olympus_scheme \<Rightarrow> 'z olympus_scheme cres" where
  "commsSetThrottleEnableCallback data s =
     bindE (rd data 0) (\<lambda>d0. Inr (if d0 \<noteq> 0 then enableSpeedDAC s else disableSpeedDAC s))"

section \<open>Power readings\<close>

text \<open>The inputs of the converter, numbered as the header numbers them.\<close>

datatype adc_periph = fv_i | thr_v | twlv_i | twlv_v | batt_v | fv_v | thr_i | batt_i

fun adc_periph_code :: "adc_periph \<Rightarrow> nat" where
  "adc_periph_code fv_i = 0"
| "adc_periph_code thr_v = 1"
| "adc_periph_code twlv_i = 2"
| "adc_periph_code twlv_v = 3"
| "adc_periph_code batt_v = 4"
| "adc_periph_code fv_v = 5"
| "adc_periph_code thr_i = 6"
| "adc_periph_code batt_i = 7"

definition commsOrder :: "adc_periph list" where
  "commsOrder = [batt_v, batt_i, twlv_v, twlv_i, fv_v, fv_i, thr_v, thr_i]"

definition muls :: "u32 list" where "muls = [3821, 3270, 3024, 5956, 9200, 4953, 551, 1401]"
definition divs :: "u32 list" where "divs = [7800, 2393, 6025, 1447, 669, 2915, 1040, 4120]"

definition adc_conv :: "adc_periph \<Rightarrow> 'z olympus_scheme \<Rightarrow> u16 cres" where
  "adc_conv periph s =
     (let p = adc_periph_code periph in
      bindE (rd (pwradcValues s) (p * 2)) (\<lambda>hi. bindE (rd (pwradcValues s) (p * 2 + 1)) (\<lambda>lo.
      bindE (rd muls p) (\<lambda>m. bindE (rd divs p) (\<lambda>d.
      let adcVal = (push_bit 8 (ucast hi) OR ucast lo :: u16) in
      Inr (ucast ((ucast adcVal * m) div d)))))))"

definition store_power :: "nat \<Rightarrow> 'z olympus_scheme \<Rightarrow> 'z olympus_scheme cres" where
  "store_power i s =
     bindE (rd commsOrder i) (\<lambda>per. bindE (adc_conv per s) (\<lambda>convVal.
     bindE (wr (power s) (i * 2 + 1) (ucast (drop_bit 8 convVal))) (\<lambda>pw.
     bindE (wr pw (i * 2) (ucast convVal)) (\<lambda>pw. Inr (s\<lparr>power := pw\<rparr>)))))"

definition commsPwradcCallback :: "'z olympus_scheme \<Rightarrow> 'z olympus_scheme cres" where
  "commsPwradcCallback s = foldE store_power [0..<8] s"

section \<open>Messages to the submodules\<close>

definition SPI_TIMEOUT :: u32 where "SPI_TIMEOUT = 5"

definition HERMES_STATUS :: u8 where "HERMES_STATUS = 0"
definition HERMES_GET_AMAN :: u8 where "HERMES_GET_AMAN = 1"
definition HERMES_GET_SPEED :: u8 where "HERMES_GET_SPEED = 2"
definition HERMES_SET_SPEED_TARGET :: u8 where "HERMES_SET_SPEED_TARGET = 5"
definition SPEED_LENGTH :: u8 where "SPEED_LENGTH = 2"
definition SPEED_TARGET_LENGTH :: u8 where "SPEED_TARGET_LENGTH = 2"
definition JANUS_STATUS :: u8 where "JANUS_STATUS = 0"
definition JANUS_GET_FNR :: u8 where "JANUS_GET_FNR = 1"
definition JANUS_SET_FNR :: u8 where "JANUS_SET_FNR = 2"
definition FNR_INVALID :: u8 where "FNR_INVALID = 3"
definition HEPH_STATUS :: u8 where "HEPH_STATUS = 0"
definition HEPH_SET_STEERING :: u8 where "HEPH_SET_STEERING = 1"
definition HEPH_GET_STPOT :: u8 where "HEPH_GET_STPOT = 2"
definition HEPH_GET_STSPD :: u8 where "HEPH_GET_STSPD = 3"
definition HEPH_GET_BRPOT :: u8 where "HEPH_GET_BRPOT = 5"
definition APOLLO_STATUS :: u8 where "APOLLO_STATUS = 0"
definition ZEUS_STATUS :: u8 where "ZEUS_STATUS = 0"

definition APOLLO_STATUS_FAIL :: string where "APOLLO_STATUS_FAIL = ''FD''"
definition HEPH_STATUS_FAIL :: string where "HEPH_STATUS_FAIL = ''FC''"
definition JANUS_STATUS_FAIL :: string where "JANUS_STATUS_FAIL = ''FA''"
definition HEPH_SET_STEER_FAIL :: string where "HEPH_SET_STEER_FAIL = ''F8''"
definition HERMES_STATUS_FAIL :: string where "HERMES_STATUS_FAIL = ''F4''"
definition HERMES_GET_SPEED_FAIL :: string where "HERMES_GET_SPEED_FAIL = ''F3''"
definition ZEUS_STATUS_FAIL :: string where "ZEUS_STATUS_FAIL = ''F1''"
definition HEPH_GET_STR_POT_FAIL :: string where "HEPH_GET_STR_POT_FAIL = ''F0''"
definition HEPH_GET_STR_SPEED_FAIL :: string where "HEPH_GET_STR_SPEED_FAIL = ''EF''"
definition HEPH_GET_BRK_POT_FAIL :: string where "HEPH_GET_BRK_POT_FAIL = ''EE''"
definition HERMES_SET_SPD_TAR_FAIL :: string where "HERMES_SET_SPD_TAR_FAIL = ''ED''"

text \<open>\<open>submodule\<close> is \<^verbatim>\<open>messageSubmodule\<close> on the bus of the board; \<^verbatim>\<open>NULL\<close> is the empty buffer.\<close>

definition submodule :: "module_t \<Rightarrow> u8 \<Rightarrow> u8 list \<Rightarrow> u8 \<Rightarrow> u8 \<Rightarrow> 'z olympus_scheme \<Rightarrow>
    'z olympus_scheme stop + (commsStatus_t \<times> u8 list \<times> 'z olympus_scheme)" where
  "submodule m mt buf tx rx s =
     (case messageSubmodule m mt buf tx rx SPI_TIMEOUT (bus s) of
        Inl e \<Rightarrow> Inl (map_stop (\<lambda>b. s\<lparr>bus := b\<rparr>) e)
      | Inr (st, buf, b) \<Rightarrow> Inr (st, buf, s\<lparr>bus := b\<rparr>))"

type_synonym 's status_call = "'s \<Rightarrow> 's stop + (commsStatus_t \<times> 's)"

definition status_request :: "module_t \<Rightarrow> u8 \<Rightarrow> 'z olympus_scheme status_call" where
  "status_request m mt s = bindE (submodule m mt [] 0 0 s) (\<lambda>(st, _, s). Inr (st, s))"

definition getApolloStatus :: "'z olympus_scheme status_call" where
  "getApolloStatus = status_request APOLLO APOLLO_STATUS"

definition getHephaestusStatus :: "'z olympus_scheme status_call" where
  "getHephaestusStatus = status_request HEPHAESTUS HEPH_STATUS"

definition getHermesStatus :: "'z olympus_scheme status_call" where
  "getHermesStatus = status_request HERMES HERMES_STATUS"

definition getJanusStatus :: "'z olympus_scheme status_call" where
  "getJanusStatus = status_request JANUS JANUS_STATUS"

definition getZeusStatus :: "'z olympus_scheme status_call" where
  "getZeusStatus = status_request ZEUS ZEUS_STATUS"

text \<open>The three calls to Apollo that are not implemented return a code without a message.\<close>

definition setTurnSignal :: "bool \<Rightarrow> bool \<Rightarrow> commsStatus_t" where
  "setTurnSignal leftSignal rightSignal = COMMS_ERR_NOT_IMPL"

definition setHeadlights :: "u8 \<Rightarrow> commsStatus_t" where
  "setHeadlights speed = COMMS_ERR_NOT_IMPL"

definition setMiscLights :: "u16 \<Rightarrow> u8 \<Rightarrow> commsStatus_t" where
  "setMiscLights lightMask speed = COMMS_ERR_NOT_IMPL"

text \<open>A request into the shared buffer, with the first \<open>n\<close> bytes of it on success.\<close>

definition request :: "module_t \<Rightarrow> u8 \<Rightarrow> u8 \<Rightarrow> 'z olympus_scheme \<Rightarrow>
    'z olympus_scheme stop + (commsStatus_t \<times> 'z olympus_scheme)" where
  "request m mt rx s =
     bindE (submodule m mt (submoduleCommsBuff s) 0 rx s) (\<lambda>(st, buf, s).
     Inr (st, s\<lparr>submoduleCommsBuff := buf\<rparr>))"

definition updateHermesAutoman :: "'z olympus_scheme status_call" where
  "updateHermesAutoman s =
     bindE (request HERMES HERMES_GET_AMAN 1 s) (\<lambda>(st, s).
     bindE (ckd (rd (submoduleCommsBuff s) 0)) (\<lambda>message.
     Inr (st, if st = COMMS_OK \<and> message \<le> 1 then s\<lparr>hermesAman := message\<rparr> else s)))"

definition updateHermesSpeed :: "'z olympus_scheme status_call" where
  "updateHermesSpeed s =
     bindE (request HERMES HERMES_GET_SPEED SPEED_LENGTH s) (\<lambda>(st, s).
     if st = COMMS_OK
     then bindE (ckd (rd_range (submoduleCommsBuff s) 0 2)) (\<lambda>v. Inr (st, s\<lparr>hermesSpeed := v\<rparr>))
     else bindE (ErrorHandler HERMES_GET_SPEED_FAIL NOTIFY s) (\<lambda>s. Inr (st, s)))"

definition updateHermesSetSpeedTarget :: "u16 \<Rightarrow> 'z olympus_scheme status_call" where
  "updateHermesSetSpeedTarget speedTargetMMs s =
     bindE (submodule HERMES HERMES_SET_SPEED_TARGET
              [ucast (drop_bit 8 speedTargetMMs), ucast speedTargetMMs] SPEED_TARGET_LENGTH 0 s) (\<lambda>(st, _, s).
     if st \<noteq> COMMS_OK then bindE (ErrorHandler HERMES_SET_SPD_TAR_FAIL NOTIFY s) (\<lambda>s. Inr (st, s))
     else Inr (st, s))"

definition commsSetSpeed :: "u8 list \<Rightarrow> 'z olympus_scheme \<Rightarrow> 'z olympus_scheme stop + 'z olympus_scheme" where
  "commsSetSpeed data s =
     bindE (ckd (rd data 1)) (\<lambda>d1. bindE (ckd (rd data 0)) (\<lambda>d0.
     let targetSpeed = (push_bit 8 (ucast d1) OR ucast d0 :: u16) in
     bindE (updateHermesSetSpeedTarget targetSpeed s) (\<lambda>(_, s). Inr s)))"

definition setFNR :: "u8 \<Rightarrow> 'z olympus_scheme status_call" where
  "setFNR st s = bindE (submodule JANUS JANUS_SET_FNR [st] 1 0 s) (\<lambda>(r, _, s). Inr (r, s))"

definition commsSetFNR :: "u8 list \<Rightarrow> 'z olympus_scheme \<Rightarrow> 'z olympus_scheme stop + 'z olympus_scheme" where
  "commsSetFNR data s = bindE (ckd (rd data 0)) (\<lambda>d. bindE (setFNR d s) (\<lambda>(_, s). Inr s))"

definition updateFNR :: "'z olympus_scheme status_call" where
  "updateFNR s =
     bindE (request JANUS JANUS_GET_FNR 1 s) (\<lambda>(st, s).
     bindE (ckd (rd (submoduleCommsBuff s) 0)) (\<lambda>message.
     Inr (st, s\<lparr>janusFnr := if st = COMMS_OK \<and> message \<le> 2 then message else FNR_INVALID\<rparr>)))"

definition updateJanus :: "'z olympus_scheme \<Rightarrow> 'z olympus_scheme stop + (Timer_Return \<times> 'z olympus_scheme)" where
  "updateJanus s = bindE (updateFNR s) (\<lambda>(_, s). Inr (CONTINUE_TIMER, s))"

definition setHephaestusSteering :: "u8 \<Rightarrow> 'z olympus_scheme status_call" where
  "setHephaestusSteering angle s =
     bindE (submodule HEPHAESTUS HEPH_SET_STEERING [angle] 1 0 s) (\<lambda>(st, _, s).
     if st \<noteq> COMMS_OK then bindE (ErrorHandler HEPH_SET_STEER_FAIL NOTIFY s) (\<lambda>s. Inr (st, s))
     else Inr (st, s))"

definition commsSetSteering :: "u8 list \<Rightarrow> 'z olympus_scheme \<Rightarrow> 'z olympus_scheme stop + 'z olympus_scheme" where
  "commsSetSteering data s = bindE (ckd (rd data 0)) (\<lambda>d. bindE (setHephaestusSteering d s) (\<lambda>(_, s). Inr s))"

definition getHephaestusSteerPot :: "'z olympus_scheme status_call" where
  "getHephaestusSteerPot s =
     bindE (request HEPHAESTUS HEPH_GET_STPOT 2 s) (\<lambda>(st, s).
     if st = COMMS_OK
     then bindE (ckd (rd_range (submoduleCommsBuff s) 0 2)) (\<lambda>v. Inr (st, s\<lparr>steerPot := v\<rparr>))
     else bindE (ErrorHandler HEPH_GET_STR_POT_FAIL NOTIFY s) (\<lambda>s. Inr (st, s)))"

definition getHephaestusSteerSpeed :: "'z olympus_scheme status_call" where
  "getHephaestusSteerSpeed s =
     bindE (request HEPHAESTUS HEPH_GET_STSPD 2 s) (\<lambda>(st, s).
     if st = COMMS_OK
     then bindE (ckd (rd_range (submoduleCommsBuff s) 0 2)) (\<lambda>v. Inr (st, s\<lparr>steerSpeed := v\<rparr>))
     else bindE (ErrorHandler HEPH_GET_STR_SPEED_FAIL NOTIFY s) (\<lambda>s. Inr (st, s)))"

definition getHephaestusBrakePot :: "'z olympus_scheme status_call" where
  "getHephaestusBrakePot s =
     bindE (request HEPHAESTUS HEPH_GET_BRPOT 2 s) (\<lambda>(st, s).
     if st = COMMS_OK
     then bindE (ckd (rd_range (submoduleCommsBuff s) 0 2)) (\<lambda>v. Inr (st, s\<lparr>brakePot := v\<rparr>))
     else bindE (ErrorHandler HEPH_GET_BRK_POT_FAIL NOTIFY s) (\<lambda>s. Inr (st, s)))"

definition setHephaestusBrake :: commsStatus_t where
  "setHephaestusBrake = COMMS_ERR_NOT_IMPL"

section \<open>Status check at start-up\<close>

definition checkSubmoduleStatus :: "module_t \<Rightarrow> 'z olympus_scheme \<Rightarrow> 'z olympus_scheme stop + (bool \<times> 'z olympus_scheme)" where
  "checkSubmoduleStatus m s =
     (case m of
        APOLLO \<Rightarrow> bindE (getApolloStatus s) (\<lambda>(st, s). Inr (st = COMMS_OK, s))
      | HEPHAESTUS \<Rightarrow> bindE (getHephaestusStatus s) (\<lambda>(st, s). Inr (st = COMMS_OK, s))
      | HERMES \<Rightarrow> bindE (getHermesStatus s) (\<lambda>(st, s). Inr (st = COMMS_OK, s))
      | JANUS \<Rightarrow> bindE (getJanusStatus s) (\<lambda>(st, s). Inr (st = COMMS_OK, s))
      | ZEUS \<Rightarrow> bindE (getZeusStatus s) (\<lambda>(st, s). Inr (st = COMMS_OK, s))
      | _ \<Rightarrow> Inr (False, s))"

definition check_report :: "module_t \<Rightarrow> string \<Rightarrow> string \<Rightarrow> 'z olympus_scheme \<Rightarrow> 'z olympus_scheme stop + 'z olympus_scheme" where
  "check_report m name code s =
     bindE (checkSubmoduleStatus m s) (\<lambda>(ok, s).
     if \<not> ok then ErrorHandler code NOTIFY (printf (''Status check failed for '' @ name) s) else Inr s)"

definition checkAllSubmodules :: "'z olympus_scheme \<Rightarrow> 'z olympus_scheme stop + 'z olympus_scheme" where
  "checkAllSubmodules s =
     bindE (check_report APOLLO ''Apollo'' APOLLO_STATUS_FAIL s) (\<lambda>s.
     bindE (check_report HEPHAESTUS ''Hephaestus'' HEPH_STATUS_FAIL s) (\<lambda>s.
     bindE (check_report HERMES ''Hermes'' HERMES_STATUS_FAIL s) (\<lambda>s.
     bindE (check_report JANUS ''Janus'' JANUS_STATUS_FAIL s)
       (check_report ZEUS ''Zeus'' ZEUS_STATUS_FAIL))))"

section \<open>Timer callbacks\<close>

definition run_timer :: "timer_cb \<Rightarrow> nat \<Rightarrow> 'z olympus_scheme \<Rightarrow> 'z olympus_scheme stop + (Timer_Return \<times> 'z olympus_scheme)" where
  "run_timer cb p s =
     (case cb of
        Heartbeat \<Rightarrow> Inr (heartbeat s)
      | SpeedDACCallback \<Rightarrow> Inr (speedDACCallback s)
      | Startup \<Rightarrow> ckd (startup s)
      | Failure \<Rightarrow> ckd (failure s))"

lemma timers_ok_cong: "timerList s' = timerList s \<Longrightarrow> timers_ok s' = timers_ok s"
  by (simp add: timers_ok_def)

lemma keeps_cong: "timerList s2 = timerList s1 \<Longrightarrow> timerList s2' = timerList s1' \<Longrightarrow> keeps s2 s2' = keeps s1 s1'"
  by (simp add: keeps_def)

text \<open>A song step is a note with a new timer, silence at the end of the song, or nothing beyond it.\<close>

lemma song_step:
  assumes "\<forall>n \<in> set notes. snd n < 13"
  obtains (Note) freq len where "unat (idx s) < length notes" "song notes self s = Inr (DISABLE_TIMER,
      (snd (addCallbackTimer len (Some self) 0 (playNote freq s)))\<lparr>idx := idx s + 1\<rparr>)"
  | (End) "unat (idx s) = length notes" "song notes self s = Inr (DISABLE_TIMER, playNote 0 s)"
  | (Beyond) "length notes < unat (idx s)" "song notes self s = Inr (DISABLE_TIMER, s)"
proof (cases "unat (idx s) < length notes")
  case True
  obtain freq k where n: "notes ! unat (idx s) = (freq, k)" by fastforce
  with True assms have "k < 13" by (metis nth_mem snd_conv)
  then have "rd noteslen k = Inr (noteslen ! k)" by (simp add: noteslen_def)
  with True n Note show ?thesis by (simp add: song_def)
next
  case False
  then show ?thesis using End Beyond by (cases "unat (idx s) = length notes") (auto simp: song_def)
qed

lemma playNote_simps [simp]: "timerList (playNote f s) = timerList s" "idx (playNote f s) = idx s"
  "oregs (playNote f s) (Gpio p g) = oregs s (Gpio p g)"
  by (simp_all add: playNote_def)

lemma add_frame [simp]:
  "oregs (snd (addCallbackTimer c cb p s)) = oregs s"
  "idx (snd (addCallbackTimer c cb p s)) = idx s"
  by (simp_all add: addCallbackTimer_def Let_def)

lemma add_changes:
  "timerList (snd (addCallbackTimer c cb p s)) ! k \<noteq> timerList s ! k \<Longrightarrow>
     CallbackTimer.callback (timerList (snd (addCallbackTimer c cb p s)) ! k) = cb"
  by (cases "k = free_slot (timerList s)"; cases "k < length (timerList s)")
    (auto simp: addCallbackTimer_def Let_def not_less list_update_beyond split: if_splits)

lemma song_laws:
  assumes "\<forall>n \<in> set notes. snd n < 13"
  shows "\<exists>s'. song notes self s = Inr (DISABLE_TIMER, s') \<and>
    (timers_ok s \<longrightarrow> timers_ok s' \<and> keeps s s') \<and> oregs s' (Gpio p g) = oregs s (Gpio p g) \<and>
    (\<forall>k. timerList s' ! k \<noteq> timerList s ! k \<longrightarrow> CallbackTimer.callback (timerList s' ! k) = Some self)"
  using assms
proof (cases rule: song_step [where s = s and self = self])
  case (Note freq len)
  define s1 where "s1 = snd (addCallbackTimer len (Some self) 0 (playNote freq s))"
  have "timers_ok s1 \<and> keeps (playNote freq s) s1" if "timers_ok s"
    using that add_ok [of "playNote freq s" len "Some self" 0 "fst (addCallbackTimer len (Some self) 0 (playNote freq s))" s1]
    by (simp add: s1_def timers_ok_cong [of "playNote freq s" s])
  moreover have "CallbackTimer.callback (timerList s1 ! k) = Some self" if "timerList s1 ! k \<noteq> timerList s ! k" for k
    using that add_changes [of len "Some self" 0 "playNote freq s" k] by (simp add: s1_def)
  moreover have "oregs s1 (Gpio p g) = oregs s (Gpio p g)" by (simp add: s1_def)
  ultimately show ?thesis
    unfolding Note(2) s1_def [symmetric]
    by (auto simp: timers_ok_cong [of "s1\<lparr>idx := idx s + 1\<rparr>" s1]
        keeps_cong [of s "playNote freq s" "s1\<lparr>idx := idx s + 1\<rparr>" s1])
next
  case End
  then show ?thesis by (simp add: timers_ok_cong [of "playNote 0 s" s] keeps_cong [of s s "playNote 0 s" s])
next
  case Beyond
  then show ?thesis by simp
qed

lemma songs_valid: "\<forall>n \<in> set windows. snd n < 13" "\<forall>n \<in> set shutdown. snd n < 13"
  by (simp_all add: windows_def shutdown_def)

lemma speedDAC_frame [simp]: "timerList (snd (speedDACCallback s)) = timerList s"
  "oregs (snd (speedDACCallback s)) = oregs s" "fst (speedDACCallback s) = CONTINUE_TIMER"
  by (simp_all add: speedDACCallback_def setSpeedDAC_def writeDataMAX517_def Let_def)

lemma heartbeat_frame [simp]: "timerList (snd (heartbeat s)) = timerList s" "fst (heartbeat s) = CONTINUE_TIMER"
  by (simp_all add: heartbeat_def)

lemma run_timer_laws:
  "\<exists>r s'. run_timer cb p s = Inr (r, s') \<and> (timers_ok s \<longrightarrow> timers_ok s' \<and> keeps s s') \<and>
    (cb \<noteq> Heartbeat \<longrightarrow> oregs s' (Gpio q g) = oregs s (Gpio q g)) \<and>
    (\<forall>k. timerList s' ! k \<noteq> timerList s ! k \<longrightarrow> CallbackTimer.callback (timerList s' ! k) = Some cb \<and> cb \<noteq> Heartbeat)"
proof (cases cb)
  case Heartbeat
  obtain s' where "heartbeat s = (CONTINUE_TIMER, s')" "timerList s' = timerList s" by (simp add: heartbeat_def)
  with Heartbeat show ?thesis by (simp add: run_timer_def timers_ok_def keeps_def)
next
  case SpeedDACCallback
  obtain s' where "speedDACCallback s = (CONTINUE_TIMER, s')" "timerList s' = timerList s" "oregs s' = oregs s"
    using speedDAC_frame [of s] by (metis prod.collapse)
  with SpeedDACCallback show ?thesis by (simp add: run_timer_def timers_ok_def keeps_def)
next
  case Startup
  from song_laws [OF songs_valid(1), of Startup s q g] show ?thesis
    by (auto simp: run_timer_def startup_def Startup)
next
  case Failure
  from song_laws [OF songs_valid(2), of Failure s q g] show ?thesis
    by (auto simp: run_timer_def failure_def Failure)
qed

interpretation hb: periodic_timer run_timer Heartbeat "\<lambda>s. bit (oregs s (Gpio GPIOB ODR)) 0" Not
proof
  fix s :: "'z olympus_scheme" and cb p
  assume "timers_ok s"
  then show "\<exists>r s'. run_timer cb p s = Inr (r, s')" using run_timer_laws [of cb p s] by blast
next
  fix s s' :: "'z olympus_scheme" and cb p r
  assume "timers_ok s" "run_timer cb p s = Inr (r, s')"
  then show "timers_ok s' \<and> keeps s s'" using run_timer_laws [of cb p s] by auto
next
  fix s s' :: "'z olympus_scheme" and p r
  assume "run_timer Heartbeat p s = Inr (r, s')"
  then show "r = CONTINUE_TIMER \<and> bit (oregs s' (Gpio GPIOB ODR)) 0 = (\<not> bit (oregs s (Gpio GPIOB ODR)) 0)"
    by (auto simp: run_timer_def heartbeat_def HAL_GPIO_TogglePin_def bit_simps bit_GPIO_PIN)
next
  fix s s' :: "'z olympus_scheme" and cb p r
  assume "cb \<noteq> Heartbeat" "run_timer cb p s = Inr (r, s')"
  then show "bit (oregs s' (Gpio GPIOB ODR)) 0 = bit (oregs s (Gpio GPIOB ODR)) 0"
    using run_timer_laws [of cb p s GPIOB ODR] by auto
next
  fix s s' :: "'z olympus_scheme" and cb p r k
  assume "run_timer cb p s = Inr (r, s')" "timerList s' ! k \<noteq> timerList s ! k"
  then show "CallbackTimer.callback (timerList s' ! k) \<noteq> Some Heartbeat"
    using run_timer_laws [of cb p s] by auto
qed (simp_all add: CALLBACK_TIMER_ISR_def)

lemma led7_out_of_bounds: "writeLED (of_nat (6 + 1)) st s = Inl OutOfBounds"
  by (cases st) (simp_all add: writeLED_def LEDtable_def rd_def)

lemma run_timer_idx:
  assumes "n < unat (idx s)" "run_timer cb p s = Inr (r, s')"
  shows "n < unat (idx s')"
proof (cases cb)
  case Startup
  with assms(2) have song: "run_timer Startup p s = Inr (r, s')" by simp
  from songs_valid(1) show ?thesis
  proof (cases rule: song_step [where s = s and self = Startup])
    case (Note freq len)
    then have "unat (idx s + 1) = unat (idx s) + 1" by (simp add: unat_simps windows_def)
    with Note song assms(1) show ?thesis by (auto simp: run_timer_def startup_def)
  qed (use song assms(1) in \<open>auto simp: run_timer_def startup_def\<close>)
next
  case Failure
  with assms(2) have song: "run_timer Failure p s = Inr (r, s')" by simp
  from songs_valid(2) show ?thesis
  proof (cases rule: song_step [where s = s and self = Failure])
    case (Note freq len)
    then have "unat (idx s + 1) = unat (idx s) + 1" by (simp add: unat_simps shutdown_def)
    with Note song assms(1) show ?thesis by (auto simp: run_timer_def failure_def)
  qed (use song assms(1) in \<open>auto simp: run_timer_def failure_def\<close>)
qed (use assms in \<open>auto simp: run_timer_def heartbeat_def speedDACCallback_def setSpeedDAC_def
    writeDataMAX517_def Let_def split: if_splits\<close>)

lemma ramp_step:
  assumes "enableSpeedOutput s \<noteq> 0" "targetSpeed s \<le> 65525"
    and "t = s\<lparr>currentSpeed := currentSpeed t\<rparr>"
  shows "snd (speedDACCallback t) = s\<lparr>currentSpeed := currentSpeed (snd (speedDACCallback t))\<rparr> \<and>
    unat (currentSpeed (snd (speedDACCallback t))) = min (unat (targetSpeed s)) (unat (currentSpeed t) + 10)"
proof -
  define c T where "c = currentSpeed t" and "T = targetSpeed s"
  have t: "t = s\<lparr>currentSpeed := c\<rparr>" using assms(3) by (simp add: c_def)
  have T: "unat T \<le> 65525" using assms(2) by (simp add: T_def word_le_nat_alt)
  have add: "unat (c + 10) = unat c + 10" if "c < T"
    using that T by (subst unat_add_no_wrap) (auto simp: word_less_nat_alt)
  have "snd (speedDACCallback t) = s\<lparr>currentSpeed := if c < T then if c + 10 > T then T else c + 10 else T\<rparr>"
    using assms(1) by (auto simp: t speedDACCallback_def isPedalDown_def SPEED_DAC_INCR_def setSpeedDAC_def
        writeDataMAX517_def T_def [symmetric] Let_def)
  with add T show ?thesis
    by (auto simp: c_def [symmetric] T_def [symmetric] word_less_nat_alt)
qed

lemma nat_cases_8:
  assumes "(p :: nat) < 8"
  obtains "p = 0" | "p = 1" | "p = 2" | "p = 3" | "p = 4" | "p = 5" | "p = 6" | "p = 7"
  using assms by linarith

section \<open>Properties\<close>

definition olympus_start :: "mspi \<Rightarrow> olympus" where
  "olympus_start m = \<lparr>timerList = replicate 32 \<lparr>currentValue = 0, resetValue = 0, callback = None, parameters = 0\<rparr>,
     shouldServiceCallbackTimer = False, oregs = (\<lambda>_. 0), idx = 0, targetSpeed = 0, currentSpeed = 0,
     enableSpeedOutput = 0, hermesSpeed = [0, 0], hermesAman = 0, janusFnr = 0, steerPot = [0, 0],
     steerSpeed = [0, 0], brakePot = [0, 0], power = replicate 16 0, pwradcValues = replicate 32 0,
     submoduleCommsBuff = replicate 256 0, bus = m, printed = []\<rparr>"

lemma heartbeat_ok:
  assumes "timers_ok s" and "k < MAX_NUM_CALLBACK_TIMERS"
    and "timerList s ! k = \<lparr>currentValue = c, resetValue = c, callback = Some Heartbeat, parameters = p\<rparr>"
    and "c \<noteq> 0"
    and "\<forall>j < MAX_NUM_CALLBACK_TIMERS. j \<noteq> k \<longrightarrow> CallbackTimer.callback (timerList s ! j) \<noteq> Some Heartbeat"
  shows "\<exists>s'. milliseconds run_timer n s = Inr s' \<and>
    bit (oregs s' (Gpio GPIOB ODR)) 0 =
      (if even (n div unat c) then bit (oregs s (Gpio GPIOB ODR)) 0 else \<not> bit (oregs s (Gpio GPIOB ODR)) 0)"
proof -
  have "hb.at k \<lparr>currentValue = c, resetValue = c, callback = Some Heartbeat, parameters = p\<rparr>
      (bit (oregs s (Gpio GPIOB ODR)) 0) s"
    using assms by (simp add: hb.at_def)
  from hb.ticks_at [OF this, of n] assms(2,4)
  obtain s' where "milliseconds run_timer n s = Inr s'"
    "bit (oregs s' (Gpio GPIOB ODR)) 0 = (Not ^^ (n div unat c)) (bit (oregs s (Gpio GPIOB ODR)) 0)"
    by (auto simp: hb.at_def)
  moreover have "(Not ^^ m) b = (if even m then b else \<not> b)" for m b by (induction m) auto
  ultimately show ?thesis by simp
qed

text \<open>
  The heartbeat: if slot \<open>k\<close> holds the heartbeat timer, freshly loaded with its count, and no other
  slot has this callback, then after any number \<open>n\<close> of milliseconds LED 1 has been toggled once per
  full period, whatever the other timers do in the meantime.
\<close>

theorem heartbeat_period:
  assumes "timers_ok s" and "k < MAX_NUM_CALLBACK_TIMERS"
    and "timerList s ! k = \<lparr>currentValue = c, resetValue = c, callback = Some Heartbeat, parameters = p\<rparr>"
    and "c \<noteq> 0"
    and "\<forall>j < MAX_NUM_CALLBACK_TIMERS. j \<noteq> k \<longrightarrow> CallbackTimer.callback (timerList s ! j) \<noteq> Some Heartbeat"
  shows "\<exists>s'. milliseconds run_timer n s = Inr s' \<and>
    bit (oregs s' (Gpio GPIOB ODR)) 0 =
      (if even (n div unat c) then bit (oregs s (Gpio GPIOB ODR)) 0 else \<not> bit (oregs s (Gpio GPIOB ODR)) 0)"
  using assms by (rule heartbeat_ok)

theorem heartbeat_period_witness:
  "\<exists>s'. milliseconds run_timer 1500 (snd (addCallbackTimer 1000 (Some Heartbeat) 0 (initSpeedDAC (olympus_start (mspi_idle [] [] []))))) = Inr s' \<and>
     bit (oregs s' (Gpio GPIOB ODR)) 0"
proof -
  define e where "e = \<lparr>currentValue = 0, resetValue = 0, callback = None :: timer_cb option, parameters = 0\<rparr>"
  define s where "s = snd (addCallbackTimer 1000 (Some Heartbeat) 0 (initSpeedDAC (olympus_start (mspi_idle [] [] []))))"
  have "replicate 32 e = e # e # replicate 30 e" by (simp add: numeral_eq_Suc)
  then have l: "timerList s = \<lparr>currentValue = 20, resetValue = 20, callback = Some SpeedDACCallback, parameters = 0\<rparr> #
      \<lparr>currentValue = 1000, resetValue = 1000, callback = Some Heartbeat, parameters = 0\<rparr> # replicate 30 e"
    by (simp add: s_def e_def initSpeedDAC_def addCallbackTimer_def olympus_start_def SPEED_DAC_INCR_PERIOD_def
        enableSpeedDAC_def setSpeedDAC_def writeDataMAX517_def MAX_NUM_CALLBACK_TIMERS_def)
  have "oregs s = (\<lambda>_. 0)"
    by (simp add: s_def initSpeedDAC_def olympus_start_def enableSpeedDAC_def setSpeedDAC_def writeDataMAX517_def)
  moreover have "timers_ok s"
    unfolding timers_ok_def l by (auto simp: e_def MAX_NUM_CALLBACK_TIMERS_def)
  moreover have "CallbackTimer.callback (timerList s ! j) \<noteq> Some Heartbeat" if "j < 32" "j \<noteq> 1" for j
    using that by (cases j; cases "j - 1") (auto simp: l e_def)
  ultimately show ?thesis
    using heartbeat_period [of s 1 1000 0 1500] unfolding s_def [symmetric]
    by (simp add: l MAX_NUM_CALLBACK_TIMERS_def)
qed

text \<open>
  No set-LEDs command survives: whatever its two bytes are, \<^verbatim>\<open>writeLED\<close> lets LED number 7 pass
  (the guard compares with the number of entries, which includes the empty entry 0) and the table
  is read one entry beyond its end.
\<close>

theorem set_leds_reads_beyond_table:
  assumes "2 \<le> length data"
  shows "commsSetLeds data s = Inl OutOfBounds"
proof -
  have "\<exists>s'. foldE (\<lambda>i. writeLED (of_nat (i + 1)) (led_of_bit b i)) [0, 1, 2, 3, 4, 5] s = Inr s'" for b
    by (simp add: writeLED_def LEDtable_def)
  then have "foldE (\<lambda>i. writeLED (of_nat (i + 1)) (led_of_bit b i)) ([0, 1, 2, 3, 4, 5] @ 6 # [7]) s = Inl OutOfBounds" for b
    unfolding foldE_append
    by (metis (mono_tags, lifting) bindE_Inr bindE_Inl foldE.simps(2) led7_out_of_bounds)
  moreover have "[0..<8] = [0, 1, 2, 3, 4, 5] @ 6 # [7 :: nat]" by (simp add: upt_rec)
  moreover have "rd data 1 = Inr (data ! 1)" "rd data 0 = Inr (data ! 0)" using assms by (auto simp: rd_def)
  ultimately show ?thesis by (simp add: commsSetLeds_def)
qed

theorem set_leds_reads_beyond_table_witness:
  "commsSetLeds [0, 0] (olympus_start (mspi_idle [] [] [])) = Inl OutOfBounds"
  by (rule set_leds_reads_beyond_table) simp

text \<open>
  The two songs share the index of the next note and nothing ever resets it: once the index is past
  the length of the error song (as it is after the start-up song), the error song plays nothing,
  whatever timers run before it.
\<close>

theorem error_song_silent_after_startup:
  assumes "4 < unat (idx s)"
    and "foldE (\<lambda>cb s. bindE (run_timer cb 0 s) (\<lambda>(r, s). Inr s)) cbs s = Inr s'"
  shows "failure s' = Inr (DISABLE_TIMER, s')"
proof -
  have "4 < unat (idx s')"
    by (rule foldE_invariant [of "\<lambda>s. 4 < unat (idx s)", OF _ assms])
      (auto simp: bindE_eq_Inr dest: run_timer_idx [of 4])
  then show ?thesis by (simp add: failure_def song_def shutdown_def)
qed

theorem error_song_silent_after_startup_witness:
  "failure ((olympus_start (mspi_idle [] [] []))\<lparr>idx := 6\<rparr>) =
     Inr (DISABLE_TIMER, (olympus_start (mspi_idle [] [] []))\<lparr>idx := 6\<rparr>)"
  by (rule error_song_silent_after_startup [of "(olympus_start (mspi_idle [] [] []))\<lparr>idx := 6\<rparr>" "[]"]) simp_all

text \<open>
  The speed ramp: while the output is enabled, every run of the callback moves the current speed up
  by at most 10 towards the target and never past it, and a lower target is taken over at once;
  after \<open>n\<close> runs the speed is the start value plus \<open>10 * n\<close>, limited by the target. (Above 65525 the
  addition would wrap.)
\<close>

theorem speed_ramp:
  assumes "enableSpeedOutput s \<noteq> 0" and "targetSpeed s \<le> 65525"
  shows "unat (currentSpeed (((snd \<circ> speedDACCallback) ^^ n) s)) =
    (if n = 0 then unat (currentSpeed s)
     else min (unat (targetSpeed s)) (unat (currentSpeed s) + 10 * n))"
proof -
  have "((snd \<circ> speedDACCallback) ^^ n) s = s\<lparr>currentSpeed := currentSpeed (((snd \<circ> speedDACCallback) ^^ n) s)\<rparr> \<and>
    unat (currentSpeed (((snd \<circ> speedDACCallback) ^^ n) s)) = (if n = 0 then unat (currentSpeed s)
     else min (unat (targetSpeed s)) (unat (currentSpeed s) + 10 * n))"
  proof (induction n)
    case (Suc n)
    then show ?case using ramp_step [OF assms] by (simp add: comp_def min_def)
  qed simp
  then show ?thesis by blast
qed

theorem speed_ramp_witness:
  "unat (currentSpeed (((snd \<circ> speedDACCallback) ^^ 3)
     ((olympus_start (mspi_idle [] [] []))\<lparr>targetSpeed := 25, enableSpeedOutput := 1\<rparr>))) = 25"
  using speed_ramp [of "(olympus_start (mspi_idle [] [] []))\<lparr>targetSpeed := 25, enableSpeedOutput := 1\<rparr>" 3]
  by (simp add: olympus_start_def del: funpow.simps)

text \<open>The reading of one input: the raw value is big-endian in the buffer of the converter.\<close>

definition reading :: "u8 list \<Rightarrow> adc_periph \<Rightarrow> nat" where
  "reading vals per =
     (let p = adc_periph_code per in
      unat (of_le16 (vals ! (2 * p + 1)) (vals ! (2 * p))) * unat (muls ! p) div unat (divs ! p))"

lemma periph_code_less: "adc_periph_code per < 8"
  by (cases per) simp_all

lemma muls_bound: "p < 8 \<Longrightarrow> unat (muls ! p) \<le> 9200"
  by (erule nat_cases_8) (simp_all add: muls_def)

lemma adc_conv_reading:
  assumes "length (pwradcValues s) = 32"
  shows "adc_conv per s = Inr (of_nat (reading (pwradcValues s) per))"
proof -
  define p where "p = adc_periph_code per"
  have p: "p < 8" by (simp add: p_def periph_code_less)
  define raw where "raw = of_le16 (pwradcValues s ! (2 * p + 1)) (pwradcValues s ! (2 * p))"
  have "unat raw * unat (muls ! p) \<le> 65535 * 9200"
    using muls_bound [OF p] by (intro mult_le_mono less_Suc_eq_le [THEN iffD1]) simp_all
  then have "unat (ucast raw * muls ! p :: u32) = unat raw * unat (muls ! p)"
    by (simp add: unat_mult_lem [THEN iffD1] unat_ucast_u16_u32)
  then have "unat (ucast raw * muls ! p div divs ! p :: u32) = reading (pwradcValues s) per"
    by (simp add: unat_div reading_def p_def [symmetric] raw_def)
  then have "ucast (ucast raw * muls ! p div divs ! p :: u32) = (of_nat (reading (pwradcValues s) per) :: u16)"
    by (metis of_nat_unat)
  moreover have "length muls = 8" "length divs = 8" by (simp_all add: muls_def divs_def)
  ultimately show ?thesis
    using p assms
    by (simp add: adc_conv_def rd_def p_def [symmetric] raw_def of_le16_def or.commute mult.commute Let_def)
qed

lemma store_power_ok:
  assumes "length (pwradcValues s) = 32" "length (power s) = 16" "i < 8"
    and "v = (of_nat (reading (pwradcValues s) (commsOrder ! i)) :: u16)"
  shows "store_power i s = Inr (s\<lparr>power := (power s)[2 * i + 1 := ucast (drop_bit 8 v), 2 * i := ucast v]\<rparr>)"
proof -
  have "length commsOrder = 8" by (simp add: commsOrder_def)
  with assms show ?thesis
    by (simp add: store_power_def rd_def wr_def adc_conv_reading mult.commute)
qed

lemma store_powers:
  assumes "length (pwradcValues s) = 32" "length (power s) = 16" "n \<le> 8"
  shows "\<exists>pw. foldE store_power [0..<n] s = Inr (s\<lparr>power := pw\<rparr>) \<and> length pw = 16 \<and>
    (\<forall>i < n. [pw ! (2 * i), pw ! (2 * i + 1)] = le16 (of_nat (reading (pwradcValues s) (commsOrder ! i))))"
  using assms(3)
proof (induction n)
  case 0
  then show ?case using assms(2) by (intro exI [of _ "power s"]) simp
next
  case (Suc n)
  then obtain pw where pw: "foldE store_power [0..<n] s = Inr (s\<lparr>power := pw\<rparr>)" "length pw = 16"
    "\<forall>i < n. [pw ! (2 * i), pw ! (2 * i + 1)] = le16 (of_nat (reading (pwradcValues s) (commsOrder ! i)))"
    by auto
  define v where "v = (of_nat (reading (pwradcValues s) (commsOrder ! n)) :: u16)"
  define pw' where "pw' = pw[2 * n + 1 := ucast (drop_bit 8 v), 2 * n := ucast v]"
  have "store_power n (s\<lparr>power := pw\<rparr>) = Inr (s\<lparr>power := pw'\<rparr>)"
    using store_power_ok [of "s\<lparr>power := pw\<rparr>" n v] assms(1) pw(2) Suc.prems by (simp add: v_def pw'_def)
  moreover have "[pw' ! (2 * i), pw' ! (2 * i + 1)] = le16 (of_nat (reading (pwradcValues s) (commsOrder ! i)))"
    if "i < Suc n" for i
    using that pw(2,3) Suc.prems by (cases "i = n") (auto simp: pw'_def le16_def v_def nth_list_update)
  ultimately show ?case
    using pw(1,2) by (intro exI [of _ pw']) (simp add: foldE_append pw'_def)
qed



text \<open>
  What the submodules do during the status check: each of the listed modules answers with \<^verbatim>\<open>COMMS_OK\<close>
  or stays silent until the time is up.
\<close>

inductive status_env :: "(module_t \<times> bool) list \<Rightarrow> mspi \<Rightarrow> mspi \<Rightarrow> bool" where
  status_done: "status_env [] b b"
| status_ok: "answered SPI_TIMEOUT COMMS_OK [] b b1 \<Longrightarrow> status_env xs (after_message m 0 [] b1) b' \<Longrightarrow>
    status_env ((m, True) # xs) b b'"
| status_dead: "silent SPI_TIMEOUT b b1 \<Longrightarrow> status_env xs (after_message m 0 [] b1) b' \<Longrightarrow>
    status_env ((m, False) # xs) b b'"

inductive_cases status_okE: "status_env ((m, True) # xs) b b'"
inductive_cases status_deadE: "status_env ((m, False) # xs) b b'"
inductive_cases status_doneE: "status_env [] b b'"

fun status_name :: "module_t \<Rightarrow> string \<times> string" where
  "status_name APOLLO = (''Apollo'', ''FD'')"
| "status_name HEPHAESTUS = (''Hephaestus'', ''FC'')"
| "status_name HERMES = (''Hermes'', ''F4'')"
| "status_name JANUS = (''Janus'', ''FA'')"
| "status_name ZEUS = (''Zeus'', ''F1'')"
| "status_name _ = ([], [])"

definition status_report :: "module_t \<times> bool \<Rightarrow> string list" where
  "status_report x = (case x of (m, ok) \<Rightarrow> if ok then [] else
     [''Status check failed for '' @ fst (status_name m) @ crlf, ''NOTIFY: '' @ snd (status_name m) @ crlf])"

lemma request_answered:
  assumes "mspi_wf (bus s)" "module_code m < 5" "answered SPI_TIMEOUT st [] (bus s) b1"
  shows "status_request m mt s = Inr (st, s\<lparr>bus := after_message m mt [] b1\<rparr>)"
  using message_answered_ok [of "bus s" m 0 "[]" SPI_TIMEOUT st "[]" b1 0 mt] assms
  by (simp add: status_request_def submodule_def)

lemma request_silent:
  assumes "mspi_wf (bus s)" "module_code m < 5" "silent SPI_TIMEOUT (bus s) b1"
  shows "status_request m mt s = Inr (COMMS_ERR_TIMEOUT, s\<lparr>bus := after_message m mt [] b1\<rparr>)"
  using message_silent [of "bus s" m 0 "[]" SPI_TIMEOUT b1 mt 0] assms
  by (simp add: status_request_def submodule_def)

lemma check_is_request:
  "module_code m < 5 \<Longrightarrow>
     checkSubmoduleStatus m s = bindE (status_request m 0 s) (\<lambda>(st, s). Inr (st = COMMS_OK, s))"
  by (cases m) (simp_all add: checkSubmoduleStatus_def getApolloStatus_def getHephaestusStatus_def getHermesStatus_def
      getJanusStatus_def getZeusStatus_def APOLLO_STATUS_def HEPH_STATUS_def HERMES_STATUS_def JANUS_STATUS_def
      ZEUS_STATUS_def)

lemma notify_two:
  assumes "length code = 2"
  shows "\<exists>f. ErrorHandler code NOTIFY s = Inr (s\<lparr>oregs := f, printed := printed s @ [''NOTIFY: '' @ code @ crlf]\<rparr>)"
  using assms by (auto simp: ErrorHandler_def setSevenSeg_def rd_def printf_def)

lemma check_report_step:
  assumes "mspi_wf (bus s)" "module_code m < 5" "status_env ((m, ok) # xs) (bus s) b'"
  shows "\<exists>s'. check_report m (fst (status_name m)) (snd (status_name m)) s = Inr s' \<and> mspi_wf (bus s') \<and>
    status_env xs (bus s') b' \<and> printed s' = printed s @ status_report (m, ok) \<and>
    timerList s' = timerList s"
proof (cases ok)
  case True
  with assms(3) obtain b1 where b1: "answered SPI_TIMEOUT COMMS_OK [] (bus s) b1"
    "status_env xs (after_message m 0 [] b1) b'" by (auto elim: status_okE)
  with assms True show ?thesis
    by (simp add: check_report_def check_is_request request_answered [OF assms(1,2) b1(1)] answered_wf status_report_def)
next
  case False
  with assms(3) obtain b1 where b1: "silent SPI_TIMEOUT (bus s) b1"
    "status_env xs (after_message m 0 [] b1) b'" by (auto elim: status_deadE)
  define s1 where "s1 = printf (''Status check failed for '' @ fst (status_name m)) (s\<lparr>bus := after_message m 0 [] b1\<rparr>)"
  have "length (snd (status_name m)) = 2" using assms(2) by (cases m) simp_all
  then obtain f where "ErrorHandler (snd (status_name m)) NOTIFY s1 =
      Inr (s1\<lparr>oregs := f, printed := printed s1 @ [''NOTIFY: '' @ snd (status_name m) @ crlf]\<rparr>)"
    using notify_two by blast
  with assms b1 False show ?thesis
    by (simp add: check_report_def check_is_request request_silent [OF assms(1,2) b1(1)] silent_wf
        COMMS_ERR_TIMEOUT_def COMMS_OK_def s1_def [symmetric])
      (simp add: s1_def printf_def status_report_def silent_wf)
qed

text \<open>A bus on which only Hermes answers.\<close>

definition only_hermes :: mspi where
  "only_hermes = mspi_idle [0, 5, 5, 0, 5, 5, 0, 0, 0, 0, 5, 5, 0, 5, 5] [False, False, True, False, False, False] [COMMS_OK]"

lemma only_hermes_status:
  "\<exists>b'. status_env [(APOLLO, False), (HEPHAESTUS, False), (HERMES, True), (JANUS, False), (ZEUS, False)] only_hermes b'"
  unfolding only_hermes_def
    by (rule exI, rule status_dead, rule silent_at_once [of _ 0 5],
        simp add: mspi_idle_def, simp add: SPI_TIMEOUT_def, simp add: mspi_idle_def,
        rule status_dead, rule silent_at_once [of _ 0 5],
        simp add: after_message_def, simp add: SPI_TIMEOUT_def, simp add: after_message_def,
        rule status_ok, rule answered_at_once [of _ 0 _ _ _ _ _ "[]"],
        simp add: after_message_def, simp add: SPI_TIMEOUT_def, simp add: after_message_def,
        simp add: after_message_def mspi_idle_def,
        rule status_dead, rule silent_at_once [of _ 0 5],
        simp add: after_message_def, simp add: SPI_TIMEOUT_def, simp add: after_message_def,
        rule status_dead, rule silent_at_once [of _ 0 5],
        simp add: after_message_def, simp add: SPI_TIMEOUT_def, simp add: after_message_def,
        rule status_done)


lemma checkAllSubmodules_ok:
  assumes "length (cs (bus s)) = 5"
    and "status_env [(APOLLO, a), (HEPHAESTUS, h), (HERMES, e), (JANUS, j), (ZEUS, z)] (bus s) b'"
  shows "\<exists>s'. checkAllSubmodules s = Inr s' \<and> bus s' = b' \<and> printed s' = printed s @
    concat (map status_report [(APOLLO, a), (HEPHAESTUS, h), (HERMES, e), (JANUS, j), (ZEUS, z)]) \<and>
    timerList s' = timerList s"
proof -
  have "mspi_wf (bus s)" using assms(1) by (simp add: mspi_wf_def)
  from check_report_step [OF this _ assms(2)] obtain s1 where
    1: "check_report APOLLO ''Apollo'' ''FD'' s = Inr s1" "mspi_wf (bus s1)"
       "status_env [(HEPHAESTUS, h), (HERMES, e), (JANUS, j), (ZEUS, z)] (bus s1) b'"
       "printed s1 = printed s @ status_report (APOLLO, a)" "timerList s1 = timerList s" by auto
  from check_report_step [OF 1(2) _ 1(3)] obtain s2 where
    2: "check_report HEPHAESTUS ''Hephaestus'' ''FC'' s1 = Inr s2" "mspi_wf (bus s2)"
       "status_env [(HERMES, e), (JANUS, j), (ZEUS, z)] (bus s2) b'"
       "printed s2 = printed s1 @ status_report (HEPHAESTUS, h)" "timerList s2 = timerList s1" by auto
  from check_report_step [OF 2(2) _ 2(3)] obtain s3 where
    3: "check_report HERMES ''Hermes'' ''F4'' s2 = Inr s3" "mspi_wf (bus s3)"
       "status_env [(JANUS, j), (ZEUS, z)] (bus s3) b'"
       "printed s3 = printed s2 @ status_report (HERMES, e)" "timerList s3 = timerList s2" by auto
  from check_report_step [OF 3(2) _ 3(3)] obtain s4 where
    4: "check_report JANUS ''Janus'' ''FA'' s3 = Inr s4" "mspi_wf (bus s4)"
       "status_env [(ZEUS, z)] (bus s4) b'" "printed s4 = printed s3 @ status_report (JANUS, j)" "timerList s4 = timerList s3" by auto
  from check_report_step [OF 4(2) _ 4(3)] obtain s5 where
    5: "check_report ZEUS ''Zeus'' ''F1'' s4 = Inr s5" "status_env [] (bus s5) b'"
       "printed s5 = printed s4 @ status_report (ZEUS, z)" "timerList s5 = timerList s4" by auto
  from 5(2) have "bus s5 = b'" by (auto elim: status_doneE)
  with 1 2 3 4 5 show ?thesis
    by (simp add: checkAllSubmodules_def APOLLO_STATUS_FAIL_def HEPH_STATUS_FAIL_def HERMES_STATUS_FAIL_def
        JANUS_STATUS_FAIL_def ZEUS_STATUS_FAIL_def)
qed

text \<open>
  The status check at start-up asks all five submodules in turn, whatever the earlier ones did, and
  reports on the console exactly those that stayed silent, each with its name and error code.
\<close>

theorem status_check_reports_silent:
  assumes "length (cs (bus s)) = 5"
    and "status_env [(APOLLO, a), (HEPHAESTUS, h), (HERMES, e), (JANUS, j), (ZEUS, z)] (bus s) b'"
  shows "\<exists>s'. checkAllSubmodules s = Inr s' \<and> bus s' = b' \<and> printed s' = printed s @
    concat (map status_report [(APOLLO, a), (HEPHAESTUS, h), (HERMES, e), (JANUS, j), (ZEUS, z)])"
  using checkAllSubmodules_ok [OF assms] by blast

theorem status_check_reports_silent_witness:
  "\<exists>s'. checkAllSubmodules (olympus_start only_hermes) = Inr s' \<and> length (printed s') = 8"
proof -
  obtain b' where "status_env [(APOLLO, False), (HEPHAESTUS, False), (HERMES, True), (JANUS, False), (ZEUS, False)]
      (bus (olympus_start only_hermes)) b'" using only_hermes_status by (auto simp: olympus_start_def)
  from status_check_reports_silent [OF _ this] show ?thesis
    by (auto simp: olympus_start_def only_hermes_def mspi_idle_def status_report_def)
qed

end
