(* ===== verification/Usart.thy ===== *)
theory Usart
  imports ByteQueue MasterGpio
begin

text \<open>
  The serial port of the Olympus board, \<^verbatim>\<open>olympus/peripherals/usart.c\<close>, and the hook \<^verbatim>\<open>_write\<close> of
  \<^verbatim>\<open>olympus/utils/newlib_hooks.c\<close> through which \<^verbatim>\<open>printf\<close> reaches it. Sending uses four buffers of
  2048 bytes that a DMA stream empties one after the other; receiving uses one ring of 1024 bytes
  that another DMA stream fills. The DMA controller is the environment: \<open>dma_tx_complete\<close> is the end
  of a transfer, \<open>dma_rx_byte\<close> the arrival of a byte.

  Addresses inside \<^verbatim>\<open>txBuffers\<close> are buffer numbers and addresses inside \<^verbatim>\<open>rxBuffer\<close> are offsets from
  its start. The lengths and positions are natural numbers, because the bounds proved below keep
  them far from the limits of \<^verbatim>\<open>uint32_t\<close>; the \<^verbatim>\<open>uint16_t\<close> parameter \<^verbatim>\<open>size\<close>, which does wrap, is a
  word.
\<close>

section \<open>State\<close>

definition COMMS_TX_BUFFER_SIZE :: nat where "COMMS_TX_BUFFER_SIZE = 2048"
definition COMMS_RX_BUFFER_SIZE :: nat where "COMMS_RX_BUFFER_SIZE = 1024"
definition COMMS_TX_NUM_BUFFERS :: nat where "COMMS_TX_NUM_BUFFERS = 4"

lemmas usart_sizes = COMMS_TX_BUFFER_SIZE_def COMMS_RX_BUFFER_SIZE_def COMMS_TX_NUM_BUFFERS_def

text \<open>
  The file's variables, then the registers of \<^verbatim>\<open>USART6\<close> and of the two DMA streams (\<open>dmaHISR\<close> holds
  the flags that a store to \<^verbatim>\<open>HIFCR\<close> clears), then the bytes that have left on the line.
\<close>

record usart =
  txBuffers :: "u8 list list"
  rxBuffer :: "u8 list"
  txBufferLengths :: "nat list"
  nextTxBuffer :: nat
  dmaTxBuffer :: nat
  txDmaActive :: u8
  rxBufferPos :: nat
  shouldServiceTxDma :: u8
  usartCR1 :: u32
  usartCR2 :: u32
  usartCR3 :: u32
  usartBRR :: u32
  txCR :: u32
  txPAR :: u32
  txM0AR :: nat
  txNDTR :: nat
  rxCR :: u32
  rxPAR :: u32
  rxM0AR :: nat
  rxNDTR :: nat
  dmaHISR :: u32
  nvicTxDma :: bool
  wire :: "u8 list"

section \<open>Initialisation\<close>

definition DMA_SxCR_EN :: u32 where "DMA_SxCR_EN = 1"
definition USART6_DR :: u32 where "USART6_DR = 0x40011404"
definition DMA_CHANNEL_5 :: u32 where "DMA_CHANNEL_5 = 0x0A000000"
definition HIFCR_STREAM7 :: u32 where
  "HIFCR_STREAM7 = 0x08000000 OR 0x04000000 OR 0x02000000 OR 0x01000000 OR 0x00400000"
definition DMA_HIFCR_CTCIF6 :: u32 where "DMA_HIFCR_CTCIF6 = 0x00200000"

definition commsUsartDmaInit :: "usart \<Rightarrow> usart" where
  "commsUsartDmaInit s =
     s\<lparr>rxBufferPos := 0,
       txCR := DMA_CHANNEL_5 OR 0x400 OR 0x40 OR 0x10,
       txPAR := USART6_DR,
       rxCR := (DMA_CHANNEL_5 OR 0x100 OR 0x20000 OR 0x400 OR 4) OR DMA_SxCR_EN,
       rxPAR := USART6_DR,
       rxM0AR := 0,
       rxNDTR := COMMS_RX_BUFFER_SIZE,
       dmaHISR := dmaHISR s AND NOT HIFCR_STREAM7,
       nvicTxDma := True\<rparr>"

text \<open>The pins are configured in the register file of the GPIO ports.\<close>

definition usart_pins :: GPIO_InitTypeDef where
  "usart_pins = \<lparr>Pin = GPIO_PIN 6 OR GPIO_PIN 7, Mode = GPIO_MODE_AF_PP, Pull = 1,
     Speed = GPIO_SPEED_HIGH, Alternate = 8\<rparr>"

definition commsUsartInit :: "regs \<times> usart \<Rightarrow> regs \<times> usart" where
  "commsUsartInit = (\<lambda>(f, s).
     (F2_HAL_GPIO_Init GPIOC usart_pins f,
      let s = s\<lparr>usartCR1 := 8 OR 4, usartCR2 := 0, usartCR3 := 0x80 OR 0x40, usartBRR := 0x209\<rparr>;
          s = commsUsartDmaInit s
      in s\<lparr>usartCR1 := usartCR1 s OR 0x2000\<rparr>))"

section \<open>Sending\<close>

definition next_tx :: "nat \<Rightarrow> nat" where
  "next_tx i = (if i + 1 = COMMS_TX_NUM_BUFFERS then 0 else i + 1)"

definition startTxDma :: "usart \<Rightarrow> usart cres" where
  "startTxDma s =
     bindE (rd (txBufferLengths s) (dmaTxBuffer s)) (\<lambda>len.
     let s = s\<lparr>txM0AR := dmaTxBuffer s, txNDTR := len, txCR := txCR s OR DMA_SxCR_EN, txDmaActive := 1\<rparr>
     in Inr (if nextTxBuffer s = dmaTxBuffer s then s\<lparr>nextTxBuffer := next_tx (nextTxBuffer s)\<rparr> else s))"

definition serviceTxDma :: "usart \<Rightarrow> usart cres" where
  "serviceTxDma s =
     (if shouldServiceTxDma s \<noteq> 0 then
        bindE (wr (txBufferLengths s) (dmaTxBuffer s) 0) (\<lambda>ls.
        let s = s\<lparr>txBufferLengths := ls, dmaTxBuffer := next_tx (dmaTxBuffer s)\<rparr> in
        bindE (rd (txBufferLengths s) (dmaTxBuffer s)) (\<lambda>len.
        bindE (if len > 0 then startTxDma s else Inr (s\<lparr>txDmaActive := 0\<rparr>)) (\<lambda>s.
        Inr (s\<lparr>shouldServiceTxDma := 0\<rparr>))))
      else Inr s)"

text \<open>
  One round of the loop of \<^verbatim>\<open>usartWrite\<close>: \<open>off\<close> is how far \<^verbatim>\<open>data\<close> has moved into the caller's array.
\<close>

definition usartWrite_round :: "u8 list \<Rightarrow> nat \<Rightarrow> u16 \<Rightarrow> usart \<Rightarrow> (nat \<times> u16 \<times> usart) cres" where
  "usartWrite_round data off sz s =
     bindE (rd (txBufferLengths s) (nextTxBuffer s)) (\<lambda>len.
     let bufferSpace = COMMS_TX_BUFFER_SIZE - len;
         bytesToWrite = (if unat sz < bufferSpace then unat sz else bufferSpace) in
     bindE (rd (txBuffers s) (nextTxBuffer s)) (\<lambda>buf.
     bindE (rd_range data off bytesToWrite) (\<lambda>bytes.
     bindE (wr_range buf len bytes) (\<lambda>buf.
     let s = s\<lparr>txBuffers := (txBuffers s)[nextTxBuffer s := buf],
               txBufferLengths := (txBufferLengths s)[nextTxBuffer s := len + bytesToWrite]\<rparr>;
         full = (len + bytesToWrite = COMMS_TX_BUFFER_SIZE);
         s = (if full then s\<lparr>nextTxBuffer := next_tx (nextTxBuffer s)\<rparr> else s);
         sz = (if full \<and> nextTxBuffer s = dmaTxBuffer s then 0 else sz)
     in Inr (off + bytesToWrite, sz - of_nat bytesToWrite, s)))))"

fun usartWrite_loop :: "nat \<Rightarrow> u8 list \<Rightarrow> nat \<Rightarrow> u16 \<Rightarrow> usart \<Rightarrow> usart cres option" where
  "usartWrite_loop 0 data off sz s = None"
| "usartWrite_loop (Suc fuel) data off sz s =
     (if sz > 0 then
        case usartWrite_round data off sz s of
          Inl e \<Rightarrow> Some (Inl e)
        | Inr (off, sz, s) \<Rightarrow> usartWrite_loop fuel data off sz s
      else Some (Inr s))"

text \<open>The loop never makes more than eight rounds, which is a theorem below.\<close>

definition WRITE_FUEL :: nat where "WRITE_FUEL = 9"

definition usartWrite :: "u8 list \<Rightarrow> u16 \<Rightarrow> usart \<Rightarrow> usart cres option" where
  "usartWrite data sz s =
     (if sz > 0 then
        case usartWrite_loop WRITE_FUEL data 0 sz s of
          None \<Rightarrow> None
        | Some r \<Rightarrow> Some (bindE r (\<lambda>s. if txDmaActive s = 0 then startTxDma s else Inr s))
      else Some (Inr s))"

definition usartPut :: "u8 \<Rightarrow> usart \<Rightarrow> usart cres option" where
  "usartPut data s = usartWrite [data] 1 s"

text \<open>The hook of the C library: \<open>nbytes\<close> is an \<^verbatim>\<open>int\<close> that is cut to the \<^verbatim>\<open>uint16_t\<close> parameter.\<close>

definition write_hook :: "u8 list \<Rightarrow> int \<Rightarrow> usart \<Rightarrow> (int \<times> usart cres option)" where
  "write_hook buf nbytes s = (nbytes, usartWrite buf (of_int nbytes) s)"

definition COMMS_TX_DMA_ISR :: "usart \<Rightarrow> usart" where
  "COMMS_TX_DMA_ISR s = s\<lparr>shouldServiceTxDma := 1, dmaHISR := dmaHISR s AND NOT DMA_HIFCR_CTCIF6\<rparr>"

text \<open>
  The end of a transfer: the stream has sent \<^verbatim>\<open>NDTR\<close> bytes from \<^verbatim>\<open>M0AR\<close>, it clears its enable bit, sets
  its flag and raises the interrupt.
\<close>

definition dma_tx_complete :: "usart \<Rightarrow> usart" where
  "dma_tx_complete s =
     (if bit (txCR s) 0 then
        COMMS_TX_DMA_ISR (s\<lparr>wire := wire s @ take (txNDTR s) (txBuffers s ! txM0AR s),
           txCR := txCR s AND NOT DMA_SxCR_EN, dmaHISR := dmaHISR s OR DMA_HIFCR_CTCIF6\<rparr>)
      else s)"

section \<open>Receiving\<close>

definition dma_rx_byte :: "u8 \<Rightarrow> usart \<Rightarrow> usart" where
  "dma_rx_byte b s =
     s\<lparr>rxBuffer := (rxBuffer s)[rxM0AR s + (COMMS_RX_BUFFER_SIZE - rxNDTR s) := b],
       rxNDTR := (if rxNDTR s = 1 then COMMS_RX_BUFFER_SIZE else rxNDTR s - 1)\<rparr>"

definition getRxDmaPosition :: "usart \<Rightarrow> nat" where
  "getRxDmaPosition s =
     (let dmaStart = rxM0AR s; offset = COMMS_RX_BUFFER_SIZE - rxNDTR s in dmaStart + offset)"

definition getRxBytesAvailable :: "usart \<Rightarrow> nat" where
  "getRxBytesAvailable s =
     (let dmaPosition = getRxDmaPosition s in
      if rxBufferPos s \<le> dmaPosition then dmaPosition - rxBufferPos s
      else COMMS_RX_BUFFER_SIZE - (rxBufferPos s - dmaPosition))"

text \<open>\<^verbatim>\<open>usartGet\<close> spins until a byte arrives; without one it is the value \<open>Waits\<close>.\<close>

definition usartGet :: "usart \<Rightarrow> usart stop + (u8 \<times> usart)" where
  "usartGet s =
     (if rxBufferPos s = getRxDmaPosition s then Inl (Waits s)
      else bindE (ckd (rd (rxBuffer s) (rxBufferPos s))) (\<lambda>ret.
        let s = s\<lparr>rxBufferPos := rxBufferPos s + 1\<rparr> in
        Inr (ret, if rxBufferPos s = COMMS_RX_BUFFER_SIZE then s\<lparr>rxBufferPos := 0\<rparr> else s)))"

text \<open>The result is the bytes copied to \<^verbatim>\<open>data\<close>; their number is the return value.\<close>

definition usartRead :: "nat \<Rightarrow> usart \<Rightarrow> (u8 list \<times> usart) cres" where
  "usartRead len s =
     (let haveBytes = getRxBytesAvailable s;
          readLen = (if len < haveBytes then len else haveBytes) in
      if readLen \<noteq> 0 then
        if rxBufferPos s < rxM0AR s then
          bindE (rd_range (rxBuffer s) (rxBufferPos s) readLen) (\<lambda>data.
          Inr (data, s\<lparr>rxBufferPos := rxBufferPos s + readLen\<rparr>))
        else
          let bytesUntilEnd = COMMS_RX_BUFFER_SIZE - rxBufferPos s in
          if bytesUntilEnd > readLen then
            bindE (rd_range (rxBuffer s) (rxBufferPos s) readLen) (\<lambda>data.
            Inr (data, s\<lparr>rxBufferPos := rxBufferPos s + readLen\<rparr>))
          else
            bindE (rd_range (rxBuffer s) (rxBufferPos s) bytesUntilEnd) (\<lambda>data.
            bindE (rd_range (rxBuffer s) 0 (readLen - bytesUntilEnd)) (\<lambda>data'.
            Inr (data @ data', s\<lparr>rxBufferPos := readLen - bytesUntilEnd\<rparr>)))
      else Inr ([], s))"

section \<open>The receiving side is a byte queue\<close>

definition rx_wf :: "usart \<Rightarrow> bool" where
  "rx_wf s \<longleftrightarrow> length (rxBuffer s) = 1024 \<and> rxM0AR s = 0 \<and> rxBufferPos s < 1024 \<and>
     0 < rxNDTR s \<and> rxNDTR s \<le> 1024"

definition unread :: "usart \<Rightarrow> u8 list" where
  "unread s = ring (rxBuffer s) (rxBufferPos s) (getRxBytesAvailable s)"

lemma available_eq:
  "rx_wf s \<Longrightarrow> getRxBytesAvailable s = (2048 - rxNDTR s - rxBufferPos s) mod 1024"
  by (auto simp: rx_wf_def getRxBytesAvailable_def getRxDmaPosition_def usart_sizes mod_if Let_def)

lemma length_unread: "rx_wf s \<Longrightarrow> length (unread s) < 1024"
  by (simp add: unread_def available_eq)

lemma ring_plain:
  assumes "start + len \<le> length buf"
  shows "ring buf start len = take len (drop start buf)"
  by (rule nth_equalityI) (use assms in \<open>auto simp: ring_nth\<close>)

lemma ring_split:
  "ring buf start (m + n) = ring buf start m @ ring buf ((start + m) mod length buf) n"
proof (induction m arbitrary: start)
  case 0
  show ?case by (rule nth_equalityI) (auto simp: ring_nth mod_simps)
next
  case (Suc m)
  then show ?case by (simp add: ring_Suc mod_simps)
qed

lemma usartRead_ok:
  assumes wf: "rx_wf s"
  shows "\<exists>s'. usartRead len s = Inr (take len (unread s), s') \<and> rx_wf s' \<and> unread s' = drop len (unread s)
    \<and> s' = s\<lparr>rxBufferPos := rxBufferPos s'\<rparr>"
proof -
  define n where "n = min len (getRxBytesAvailable s)"
  define s' where "s' = s\<lparr>rxBufferPos := (rxBufferPos s + n) mod 1024\<rparr>"
  have lt: "getRxBytesAvailable s < 1024" using wf by (simp add: available_eq)
  have buf: "length (rxBuffer s) = 1024" "rxBufferPos s < 1024" "rxM0AR s = 0"
    using wf by (simp_all add: rx_wf_def)
  have n_lt: "n < 1024" using lt by (simp add: n_def)
  have wf': "rx_wf s'" using wf by (simp add: rx_wf_def s'_def)
  have pos': "rxBufferPos s' = (if rxBufferPos s + n < 1024 then rxBufferPos s + n
      else rxBufferPos s + n - 1024)"
    using buf lt by (simp add: s'_def n_def mod_if)
  have "n \<le> getRxBytesAvailable s" by (simp add: n_def)
  with wf have avail: "getRxBytesAvailable s' = getRxBytesAvailable s - n"
    unfolding getRxBytesAvailable_def getRxDmaPosition_def pos' Let_def usart_sizes
    by (auto simp: s'_def rx_wf_def)
  have "unread s = ring (rxBuffer s) (rxBufferPos s) (n + (getRxBytesAvailable s - n))"
    by (simp add: unread_def n_def)
  also have "\<dots> = ring (rxBuffer s) (rxBufferPos s) n @ unread s'"
    unfolding ring_split using buf by (simp add: unread_def avail) (simp add: s'_def)
  finally have split: "unread s = ring (rxBuffer s) (rxBufferPos s) n @ unread s'" .
  have read: "usartRead len s = Inr (ring (rxBuffer s) (rxBufferPos s) n, s')"
  proof (cases "n = 0")
    case True
    with buf show ?thesis
      by (auto simp: usartRead_def n_def s'_def Let_def min_def split: if_splits)
  next
    case False
    have cond: "(if len < getRxBytesAvailable s then len else getRxBytesAvailable s) = n"
      by (simp add: n_def)
    show ?thesis
    proof (cases "1024 - rxBufferPos s > n")
      case True
      with False buf show ?thesis
        unfolding usartRead_def Let_def cond
        by (simp add: usart_sizes ring_plain s'_def)
    next
      case wrap: False
      define u where "u = 1024 - rxBufferPos s"
      have u: "n = u + (n - u)" "(rxBufferPos s + u) mod 1024 = 0" "rxBufferPos s + u = 1024"
        "(rxBufferPos s + n) mod 1024 = n - u"
        using wrap buf(2) n_lt by (auto simp: u_def mod_if)
      have "ring (rxBuffer s) (rxBufferPos s) n = ring (rxBuffer s) (rxBufferPos s) (u + (n - u))"
        using u(1) by simp
      then have "ring (rxBuffer s) (rxBufferPos s) n =
          take u (drop (rxBufferPos s) (rxBuffer s)) @ take (n - u) (rxBuffer s)"
        unfolding ring_split using u buf lt by (simp add: ring_plain n_def)
      moreover have "n - u \<le> 1024" using lt by (simp add: n_def)
      ultimately show ?thesis
        using False wrap buf u unfolding usartRead_def Let_def cond
        by (simp add: usart_sizes s'_def u_def)
    qed
  qed
  have lenn: "length (unread s) = getRxBytesAvailable s" by (simp add: unread_def)
  have "take len (unread s) = ring (rxBuffer s) (rxBufferPos s) n"
    using lenn split by (auto simp: n_def min_def)
  moreover have "drop len (unread s) = unread s'"
    using lenn split by (auto simp: n_def min_def)
  ultimately show ?thesis using read wf' by (auto simp: s'_def)
qed

text \<open>The loop of the console takes one byte at a time.\<close>

definition usart_get_byte :: "usart \<Rightarrow> 'e stop + (u8 option \<times> usart)" where
  "usart_get_byte s =
     bindE (ckd (usartRead 1 s)) (\<lambda>(data, s). Inr (case data of [] \<Rightarrow> None | b # _ \<Rightarrow> Some b, s))"

interpretation usart_rx: byte_queue rx_wf unread usart_get_byte
proof
  fix s :: usart
  assume "rx_wf s" "unread s = []"
  with usartRead_ok [of s 1] show "\<exists>s'. usart_get_byte s = Inr (None, s') \<and> rx_wf s' \<and> unread s' = []"
    by (auto simp: usart_get_byte_def)
next
  fix s :: usart and b bs
  assume "rx_wf s" "unread s = b # bs"
  with usartRead_ok [of s 1] show "\<exists>s'. usart_get_byte s = Inr (Some b, s') \<and> rx_wf s' \<and> unread s' = bs"
    by (auto simp: usart_get_byte_def)
qed

lemma dma_rx_byte_ok:
  assumes wf: "rx_wf s" and room: "length (unread s) < 1023"
  shows "rx_wf (dma_rx_byte b s) \<and> unread (dma_rx_byte b s) = unread s @ [b]"
proof -
  define n where "n = getRxBytesAvailable s"
  have buf: "length (rxBuffer s) = 1024" using wf by (simp add: rx_wf_def)
  have n: "n < 1023" using room by (simp add: unread_def n_def)
  have wf': "rx_wf (dma_rx_byte b s)"
    using wf by (auto simp: rx_wf_def dma_rx_byte_def usart_sizes)
  have pos: "rxM0AR s + (COMMS_RX_BUFFER_SIZE - rxNDTR s) = (rxBufferPos s + n) mod 1024"
    using wf by (auto simp: n_def rx_wf_def getRxBytesAvailable_def getRxDmaPosition_def usart_sizes
      mod_if Let_def)
  have "getRxBytesAvailable (dma_rx_byte b s) = Suc n"
    using n wf by (auto simp: n_def rx_wf_def getRxBytesAvailable_def getRxDmaPosition_def usart_sizes
      Let_def dma_rx_byte_def split: if_splits)
  then have "unread (dma_rx_byte b s) =
      ring ((rxBuffer s)[(rxBufferPos s + n) mod 1024 := b]) (rxBufferPos s) (Suc n)"
    by (simp add: unread_def) (simp add: dma_rx_byte_def pos)
  also have "\<dots> = unread s @ [b]"
    using ring_snoc [of n "rxBuffer s" "rxBufferPos s" b] buf n by (simp add: unread_def n_def)
  finally show ?thesis using wf' by simp
qed

lemma dma_rx_bytes_ok:
  assumes "rx_wf s" and "length (unread s) + length bs < 1024"
  shows "rx_wf (fold dma_rx_byte bs s) \<and> unread (fold dma_rx_byte bs s) = unread s @ bs"
  using assms
proof (induction bs arbitrary: s)
  case (Cons b bs)
  from dma_rx_byte_ok [of s b] Cons.prems have
    "rx_wf (dma_rx_byte b s)" "unread (dma_rx_byte b s) = unread s @ [b]" by auto
  with Cons.IH [of "dma_rx_byte b s"] Cons.prems show ?case by simp
qed simp

text \<open>A byte that arrives when 1023 are unread makes the ring look empty.\<close>

lemma dma_rx_byte_overflow:
  assumes wf: "rx_wf s" and "length (unread s) = 1023"
  shows "unread (dma_rx_byte b s) = []"
proof -
  have "getRxBytesAvailable s = 1023" using assms(2) by (simp add: unread_def)
  with wf have "getRxBytesAvailable (dma_rx_byte b s) = 0"
    by (auto simp: rx_wf_def getRxBytesAvailable_def getRxDmaPosition_def usart_sizes
      Let_def dma_rx_byte_def split: if_splits)
  then show ?thesis by (simp add: unread_def)
qed

text \<open>
  C28. Reading the serial port: from any well-formed state, while fewer than 1024 bytes are unread, what
  the DMA stream stores is what \<^verbatim>\<open>usartRead\<close> returns, in order, and a read of \<open>n\<close> bytes leaves the rest.
\<close>

theorem usart_receives_in_order:
  assumes "rx_wf s" and "length (unread s) + length bs < 1024"
  shows "\<exists>s'. usartRead n (fold dma_rx_byte bs s) = Inr (take n (unread s @ bs), s') \<and> rx_wf s' \<and>
    unread s' = drop n (unread s @ bs)"
  using usartRead_ok [of "fold dma_rx_byte bs s" n] dma_rx_bytes_ok [OF assms] by auto

definition usart_start :: usart where
  "usart_start =
     \<lparr>txBuffers = replicate 4 (replicate 2048 0), rxBuffer = replicate 1024 0,
      txBufferLengths = [0, 0, 0, 0], nextTxBuffer = 0, dmaTxBuffer = 0, txDmaActive = 0,
      rxBufferPos = 0, shouldServiceTxDma = 0, usartCR1 = 0, usartCR2 = 0, usartCR3 = 0, usartBRR = 0,
      txCR = 0, txPAR = 0, txM0AR = 0, txNDTR = 0, rxCR = 0, rxPAR = 0, rxM0AR = 0, rxNDTR = 0,
      dmaHISR = 0, nvicTxDma = False, wire = []\<rparr>"

lemma usart_init_rx:
  "rx_wf (snd (commsUsartInit (f, usart_start)))" "unread (snd (commsUsartInit (f, usart_start))) = []"
  by (simp_all add: commsUsartInit_def commsUsartDmaInit_def usart_start_def rx_wf_def unread_def Let_def
    getRxBytesAvailable_def getRxDmaPosition_def usart_sizes)

theorem usart_receives_in_order_witness:
  "\<exists>s'. usartRead 2 (fold dma_rx_byte [0x41, 0x42, 0x43] (snd (commsUsartInit (\<lambda>_. 0, usart_start)))) =
     Inr ([0x41, 0x42], s') \<and> unread s' = [0x43]"
  using usart_receives_in_order [OF usart_init_rx(1), of "\<lambda>_. 0" "[0x41, 0x42, 0x43]" 2]
  by (auto simp: usart_init_rx)

text \<open>
  The receive ring overflows silently: when 1023 bytes are unread and one more arrives,
  \<^verbatim>\<open>usartRead\<close> returns no byte at all.
\<close>

theorem usart_rx_overflow_loses_all:
  assumes "rx_wf s" and "length (unread s) = 1023"
  shows "usartRead n (dma_rx_byte b s) = Inr ([], dma_rx_byte b s)"
proof -
  have "getRxBytesAvailable (dma_rx_byte b s) = 0"
    using dma_rx_byte_overflow [OF assms] by (metis length_ring list.size(3) unread_def)
  then show ?thesis by (simp add: usartRead_def Let_def)
qed

theorem usart_rx_overflow_loses_all_witness:
  "usartRead 5 (dma_rx_byte 1 (fold dma_rx_byte (replicate 1023 2) (snd (commsUsartInit (\<lambda>_. 0, usart_start))))) =
   Inr ([], dma_rx_byte 1 (fold dma_rx_byte (replicate 1023 2) (snd (commsUsartInit (\<lambda>_. 0, usart_start)))))"
proof -
  have "length (unread (snd (commsUsartInit (\<lambda>_. 0, usart_start)))) + length (replicate 1023 (2 :: u8)) < 1024"
    by (simp add: usart_init_rx)
  from dma_rx_bytes_ok [OF usart_init_rx(1) this] show ?thesis
    by (intro usart_rx_overflow_loses_all) (simp_all add: usart_init_rx)
qed

end
