(* ===== verification/CString.thy ===== *)
theory CString
  imports Prelude
begin

text \<open>
  The functions of the C library on strings that the console calls. A C string is memory: a function
  that finds no terminating zero before the end of the object leaves defined behaviour.
\<close>

section \<open>Functions\<close>

definition NUL :: char where "NUL = CHR 0x00"

abbreviation byte_of :: "char \<Rightarrow> u8" where "byte_of c \<equiv> of_nat (of_char c)"
abbreviation char_of_byte :: "u8 \<Rightarrow> char" where "char_of_byte b \<equiv> char_of (unat b)"

lemma char_of_byte_of [simp]: "char_of_byte (byte_of c) = c"
proof -
  have "(of_char c :: nat) mod 256 < 256" by (rule mod_less_divisor) simp
  then have "(of_char c :: nat) < 256" by simp
  then show ?thesis by (simp add: unat_of_nat_u8)
qed

text \<open>The argument of these functions is the memory from the pointer to the end of its object.\<close>

definition strlen :: "string \<Rightarrow> nat cres" where
  "strlen m = (if NUL \<in> set m then Inr (length (takeWhile (\<lambda>c. c \<noteq> NUL) m)) else Inl OutOfBounds)"

definition strchr :: "string \<Rightarrow> char \<Rightarrow> nat option cres" where
  "strchr m ch =
     (let n = length (takeWhile (\<lambda>c. c \<noteq> ch \<and> c \<noteq> NUL) m) in
      bindE (rd m n) (\<lambda>c. Inr (if c = ch then Some n else None)))"

text \<open>Whether \<^verbatim>\<open>strncmp\<close> gives 0.\<close>

fun strncmp_eq :: "string \<Rightarrow> string \<Rightarrow> nat \<Rightarrow> bool cres" where
  "strncmp_eq a b 0 = Inr True"
| "strncmp_eq (x # a) (y # b) (Suc n) =
     (if x \<noteq> y then Inr False else if x = NUL then Inr True else strncmp_eq a b n)"
| "strncmp_eq _ _ (Suc n) = Inl OutOfBounds"

definition isspace :: "char \<Rightarrow> bool" where
  "isspace c \<longleftrightarrow> c \<in> {CHR '' '', CHR 0x09, CHR 0x0A, CHR 0x0B, CHR 0x0C, CHR 0x0D}"

definition isdigit :: "char \<Rightarrow> bool" where
  "isdigit c \<longleftrightarrow> (48 :: nat) \<le> of_char c \<and> (of_char c :: nat) \<le> 57"

definition digits_value :: "string \<Rightarrow> int" where
  "digits_value ds = foldl (\<lambda>v c. 10 * v + int (of_char c - 48)) 0 ds"

definition LONG_MAX :: int where "LONG_MAX = 2147483647"
definition LONG_MIN :: int where "LONG_MIN = - 2147483648"
definition ERANGE :: int where "ERANGE = 34"

text \<open>\<^verbatim>\<open>strtol(str, NULL, 10)\<close>: the number, cut to the range of \<^verbatim>\<open>long\<close>, and whether it was cut.\<close>

definition strtol :: "string \<Rightarrow> (int \<times> bool) cres" where
  "strtol m =
     (let m = dropWhile isspace m in
      bindE (rd m 0) (\<lambda>c.
      let neg = (c = CHR ''-'');
          m = (if neg \<or> c = CHR ''+'' then drop 1 m else m);
          ds = takeWhile isdigit m;
          v = (if neg then - digits_value ds else digits_value ds) in
      if ds = m then Inl OutOfBounds
      else if v > LONG_MAX then Inr (LONG_MAX, True)
      else if v < LONG_MIN then Inr (LONG_MIN, True)
      else Inr (v, False)))"

section \<open>Strings that are terminated\<close>

lemma takeWhile_less:
  "x \<in> set m \<Longrightarrow> \<not> P x \<Longrightarrow> length (takeWhile P m) < length m"
  by (induction m) auto

lemma strlen_ok:
  "NUL \<in> set m \<Longrightarrow> strlen m = Inr (length (takeWhile (\<lambda>c. c \<noteq> NUL) m))"
  by (simp add: strlen_def)

lemma takeWhile_conj_le: "length (takeWhile (\<lambda>c. P c \<and> Q c) m) \<le> length (takeWhile Q m)"
  by (induction m) auto

text \<open>The part before the first \<open>ch\<close>, or the whole string.\<close>

definition upto :: "char \<Rightarrow> string \<Rightarrow> string" where
  "upto ch m = takeWhile (\<lambda>c. c \<noteq> ch \<and> c \<noteq> NUL) m"

lemma strchr_ok:
  assumes "NUL \<in> set m"
  shows "strchr m ch = Inr (if m ! length (upto ch m) = ch then Some (length (upto ch m)) else None)"
  using takeWhile_less [OF assms, of "\<lambda>c. c \<noteq> ch \<and> c \<noteq> NUL"]
  by (simp add: strchr_def upto_def Let_def)

lemma upto_whole:
  assumes "NUL \<in> set m" and "m ! length (upto ch m) \<noteq> ch"
  shows "takeWhile (\<lambda>c. c \<noteq> NUL) m = upto ch m"
  using assms unfolding upto_def
proof (induction m)
  case (Cons c m)
  then show ?case by (cases "c = ch"; cases "c = NUL") auto
qed simp

lemma upto_props: "NUL \<notin> set (upto ch m)" "ch \<notin> set (upto ch m)"
  by (auto simp: upto_def dest: set_takeWhileD)

lemma upto_prefix: "\<exists>r. m = upto ch m @ r"
  unfolding upto_def by (metis takeWhile_dropWhile_id)

lemma strncmp_eq_name:
  assumes "NUL \<notin> set a" and "NUL \<notin> set name"
  shows "\<exists>eq. strncmp_eq (a @ r) (name @ [NUL]) (length a) = Inr eq \<and>
     (length a = length name \<longrightarrow> eq = (a = name))"
  using assms
proof (induction a arbitrary: name)
  case (Cons x a)
  then show ?case by (cases name) auto
qed auto

section \<open>Numbers\<close>

lemma foldl_digits_nonneg:
  "0 \<le> v \<Longrightarrow> 0 \<le> foldl (\<lambda>v c. 10 * v + int (of_char c - 48)) v ds"
  by (induction ds arbitrary: v) auto

lemma digits_value_nonneg: "0 \<le> digits_value ds"
  by (simp add: digits_value_def foldl_digits_nonneg)

lemma isdigit_not:
  "isdigit c \<Longrightarrow> \<not> isspace c" "isdigit c \<Longrightarrow> c \<noteq> CHR ''-''" "isdigit c \<Longrightarrow> c \<noteq> CHR ''+''"
  "isdigit c \<Longrightarrow> c \<noteq> NUL" "isdigit c \<Longrightarrow> c \<noteq> CHR '',''" "isdigit c \<Longrightarrow> c \<noteq> CHR '']''"
  "isdigit c \<Longrightarrow> c \<noteq> CHR 0x7F"
  by (auto simp: isdigit_def isspace_def NUL_def)

text \<open>A string of digits gives its value, or the largest \<^verbatim>\<open>long\<close> and a range error.\<close>

lemma strtol_digits:
  assumes "\<forall>c\<in>set ds. isdigit c" and "\<not> isdigit t" and "\<not> isspace t" "t \<noteq> CHR ''-''" "t \<noteq> CHR ''+''"
  shows "strtol (ds @ t # r) =
     Inr (if digits_value ds > LONG_MAX then (LONG_MAX, True) else (digits_value ds, False))"
proof -
  have tw: "takeWhile isdigit (ds @ t # r) = ds" using assms(1,2) by (simp add: takeWhile_append)
  have "LONG_MIN \<le> digits_value ds" using digits_value_nonneg [of ds] by (simp add: LONG_MIN_def)
  then have range: "\<not> digits_value ds < LONG_MIN" by simp
  have ne: "(ds @ t # r) ! 0 \<noteq> CHR ''-'' \<and> (ds @ t # r) ! 0 \<noteq> CHR ''+''"
    using assms isdigit_not by (cases ds) auto
  have "dropWhile isspace (ds @ t # r) = ds @ t # r"
    using assms isdigit_not(1) by (cases ds) auto
  then show ?thesis using ne tw range assms(2) by (simp add: strtol_def Let_def)
qed

end
