(* ===== verification/CharacterMapping.thy ===== *)
theory CharacterMapping
  imports Prelude
begin

text \<open>
  The table of \<^verbatim>\<open>olympus/utils/characterMapping.c\<close>, which shows every byte as a character of the block
  U+2E80 to U+2FDF in UTF-8, and the proof that a reader can recover the byte.
\<close>

section \<open>Character mapping\<close>

definition unicodeChar :: "u8 \<Rightarrow> u16" where
  "unicodeChar inChar =
     (if inChar < 0x80 then 0x2F60 + ucast inChar else 0x2E80 + (ucast inChar - 0x80))"

definition mapCharacter :: "u8 \<Rightarrow> u8 list \<Rightarrow> u8 list cres" where
  "mapCharacter inChar outStr =
     (let u = unicodeChar inChar in
      bindE (wr outStr 0 (ucast (0xE0 OR (drop_bit 12 u AND 0xF)))) (\<lambda>p.
      bindE (wr p 1 (ucast (0x80 OR (drop_bit 6 u AND 0x3F)))) (\<lambda>p.
      bindE (wr p 2 (ucast (0x80 OR (u AND 0x3F)))) (\<lambda>p.
      wr p 3 0))))"

text \<open>What a terminal reads: the code point of a three-byte UTF-8 sequence.\<close>

definition utf8_decode3 :: "u8 list \<Rightarrow> u16 option" where
  "utf8_decode3 bs =
     (case bs of
        [a, b, c] \<Rightarrow>
          if a AND 0xF0 = 0xE0 \<and> b AND 0xC0 = 0x80 \<and> c AND 0xC0 = 0x80
          then Some (push_bit 12 (ucast (a AND 0xF)) OR push_bit 6 (ucast (b AND 0x3F)) OR ucast (c AND 0x3F))
          else None
      | _ \<Rightarrow> None)"

section \<open>Reading the bytes back\<close>

definition unmap :: "u16 \<Rightarrow> u8 option" where
  "unmap u =
     (if 0x2F60 \<le> u \<and> u < 0x2FE0 then Some (ucast (u - 0x2F60))
      else if 0x2E80 \<le> u \<and> u < 0x2F00 then Some (ucast (u - 0x2E80) + 0x80) else None)"

text \<open>The three bytes of a code point, and that they decode to it.\<close>

definition utf8_encode3 :: "u16 \<Rightarrow> u8 list" where
  "utf8_encode3 u =
     [ucast (0xE0 OR (drop_bit 12 u AND 0xF)), ucast (0x80 OR (drop_bit 6 u AND 0x3F)),
      ucast (0x80 OR (u AND 0x3F))]"

lemma length_utf8_encode3: "length (utf8_encode3 u) = 3"
  by (simp add: utf8_encode3_def)

lemma mapCharacter_eq:
  assumes "4 \<le> length m"
  shows "mapCharacter b m = Inr (utf8_encode3 (unicodeChar b) @ 0 # drop 4 m)"
proof -
  obtain a0 a1 a2 a3 r where "m = a0 # a1 # a2 # a3 # r"
  proof -
    from assms have "length (take 4 m) = Suc (Suc (Suc (Suc 0)))" by simp
    then obtain a0 a1 a2 a3 where "take 4 m = [a0, a1, a2, a3]"
      by (auto simp only: length_Suc_conv length_0_conv)
    then have "m = a0 # a1 # a2 # a3 # drop 4 m" by (metis append_Cons append_Nil append_take_drop_id)
    with that show thesis by blast
  qed
  then show ?thesis by (simp add: mapCharacter_def utf8_encode3_def Let_def)
qed

lemma masks:
  "0xF = (mask 4 :: 'a::len word)" "0x3F = (mask 6 :: 'a::len word)"
  "0xF0 = (push_bit 4 (mask 4) :: 'a::len word)" "0xE0 = (push_bit 5 (mask 3) :: 'a::len word)"
  "0xC0 = (push_bit 6 (mask 2) :: 'a::len word)"
  by (simp_all add: mask_eq_exp_minus_1 push_bit_eq_mult)

lemma bit_0x80: "bit (0x80 :: int) n \<longleftrightarrow> n = 7"
proof -
  have eq: "(0x80 :: int) = 2 ^ 7" by simp
  show ?thesis unfolding eq bit_exp_iff by auto
qed

lemma utf8_lead: "(ucast (0xE0 OR (v AND 0xF) :: u16) :: u8) AND 0xF0 = 0xE0"
  unfolding masks by (rule bit_word_eqI) (auto simp: bit_simps)

lemma utf8_cont: "(ucast (0x80 OR (v AND 0x3F) :: u16) :: u8) AND 0xC0 = 0x80"
  unfolding masks by (rule bit_word_eqI) (auto simp: bit_simps bit_0x80)

lemma utf8_roundtrip: "utf8_decode3 (utf8_encode3 u) = Some u"
proof -
  have "push_bit 12 (ucast ((ucast (0xE0 OR (drop_bit 12 u AND 0xF)) :: u8) AND 0xF)) OR
      push_bit 6 (ucast ((ucast (0x80 OR (drop_bit 6 u AND 0x3F)) :: u8) AND 0x3F)) OR
      ucast ((ucast (0x80 OR (u AND 0x3F)) :: u8) AND 0x3F) = u" (is "?l = u")
  proof (rule bit_word_eqI)
    fix n
    assume "n < LENGTH(16)"
    then consider "n < 6" | "6 \<le> n \<and> n < 12" | "12 \<le> n \<and> n < 16" by fastforce
    then show "bit ?l n = bit u n"
      unfolding masks by cases (auto simp: bit_simps bit_0x80)
  qed
  then show ?thesis by (simp add: utf8_decode3_def utf8_encode3_def utf8_lead utf8_cont)
qed

lemma utf8_encode3_nonzero: "0 \<notin> set (utf8_encode3 u)"
proof -
  have "(0 :: u8) AND 0xF0 \<noteq> 0xE0" "(0 :: u8) AND 0xC0 \<noteq> 0x80" by simp_all
  then show ?thesis
    using utf8_lead [of "drop_bit 12 u"] utf8_cont [of "drop_bit 6 u"] utf8_cont [of u]
    unfolding utf8_encode3_def by force
qed

lemma unat_ucast_u8_u16 [simp]: "unat (ucast (x :: u8) :: u16) = unat x"
  by (simp add: unsigned_ucast_eq take_bit_nat_eq_self_iff order_less_trans [OF u8_less_256])

lemma unmap_unicodeChar: "unmap (unicodeChar b) = Some b"
proof (cases "b < 0x80")
  case True
  then have "unat (0x2F60 + ucast b :: u16) = 12128 + unat b" "unat b < 128"
    by (simp_all add: word_less_nat_alt unat_word_ariths)
  then have "0x2F60 \<le> (0x2F60 + ucast b :: u16)" "(0x2F60 + ucast b :: u16) < 0x2FE0"
    by (simp_all add: word_le_nat_alt word_less_nat_alt)
  moreover have "ucast (ucast b :: u16) = b" by (rule bit_word_eqI) (simp add: bit_simps)
  ultimately show ?thesis using True by (simp add: unmap_def unicodeChar_def)
next
  case False
  define w where "w = (0x2E80 + (ucast b - 0x80) :: u16)"
  from False have b: "128 \<le> unat b" by (simp add: word_less_nat_alt)
  then have "(0x80 :: u16) \<le> ucast b" by (simp add: word_le_nat_alt)
  then have d: "unat (ucast b - 0x80 :: u16) = unat b - 128" by (simp add: unat_sub)
  then have "unat w = 11904 + (unat b - 128)"
    using u8_less_256 [of b] b unfolding w_def by (simp add: unat_word_ariths del: u8_less_256)
  then have "0x2E80 \<le> w" "w < 0x2F00" "\<not> 0x2F60 \<le> w"
    using b u8_less_256 [of b] by (simp_all add: word_le_nat_alt word_less_nat_alt del: u8_less_256)
  moreover have "ucast (w - 0x2E80) + 0x80 = b"
  proof (rule word_unat_eq_iff [THEN iffD2])
    have "unat (ucast (w - 0x2E80) :: u8) = unat b - 128"
      using d u8_less_256 [of b] by (simp add: w_def unsigned_ucast_eq take_bit_nat_eq_self_iff del: u8_less_256)
    then show "unat (ucast (w - 0x2E80) + 0x80 :: u8) = unat b"
      using b u8_less_256 [of b] by (simp add: unat_word_ariths del: u8_less_256)
  qed
  ultimately show ?thesis using False unfolding unicodeChar_def w_def [symmetric] by (simp add: unmap_def)
qed

text \<open>
  The mapped echo can be read back: for every byte \<^verbatim>\<open>mapCharacter\<close> fills four bytes of the buffer with
  a UTF-8 sequence of three bytes and a terminating zero, and decoding the sequence and undoing the
  table gives the byte again.
\<close>

theorem mapCharacter_roundtrip:
  assumes "4 \<le> length m"
  shows "\<exists>u. mapCharacter b m = Inr (u @ 0 # drop 4 m) \<and> length u = 3 \<and> 0 \<notin> set u \<and>
     Option.bind (utf8_decode3 u) unmap = Some b"
  using mapCharacter_eq [OF assms, of b] utf8_encode3_nonzero [of "unicodeChar b"]
    utf8_roundtrip [of "unicodeChar b"] unmap_unicodeChar [of b] length_utf8_encode3
  by (intro exI [of _ "utf8_encode3 (unicodeChar b)"]) simp

theorem mapCharacter_roundtrip_witness:
  "\<exists>u. mapCharacter 0x41 (replicate 10 0) = Inr (u @ 0 # drop 4 (replicate 10 0)) \<and> length u = 3 \<and>
     Option.bind (utf8_decode3 u) unmap = Some 0x41"
  using mapCharacter_roundtrip [where m = "replicate 10 0" and b = "0x41"] by auto

end
