(* ===== verification/Console.thy ===== *)
theory Console
  imports OlympusBoard Usart CString CharacterMapping
begin

text \<open>
  The serial console, \<^verbatim>\<open>olympus/drivers/console.c\<close>: command lines in square brackets, read byte by byte from the
  serial port, edited with backspace, matched against a table and run. Its static variables and the
  C library's \<^verbatim>\<open>errno\<close> are the record \<open>console\<close>; the rest of the board is \<open>olympus\<close>, whose \<open>printed\<close>
  collects the output. The C strings are memory: a string function that finds no terminating zero
  inside the buffer leaves defined behaviour.
\<close>

section \<open>State and tables\<close>

definition CONSOLE_MAX_CMD_LEN :: nat where "CONSOLE_MAX_CMD_LEN = 255"
definition CONSOLE_MAX_NUM_ARGS :: nat where "CONSOLE_MAX_NUM_ARGS = 32"

datatype ConsoleState = CONSOLE_START | CONSOLE_READING

text \<open>An \<^verbatim>\<open>EchoState\<close> holds any value of its one-byte type.\<close>

definition CONSOLE_ECHO_ON :: u8 where "CONSOLE_ECHO_ON = 0"
definition CONSOLE_ECHO_OFF :: u8 where "CONSOLE_ECHO_OFF = 1"
definition CONSOLE_ECHO_MAP :: u8 where "CONSOLE_ECHO_MAP = 2"
definition CONSOLE_ECHO_DEBUG :: u8 where "CONSOLE_ECHO_DEBUG = 3"

lemmas echo_defs = CONSOLE_ECHO_ON_def CONSOLE_ECHO_OFF_def CONSOLE_ECHO_MAP_def CONSOLE_ECHO_DEBUG_def

datatype commandCallback =
    Console_setSegment | Console_setLED | Console_setFNR | Console_setSpeedTarget | Console_setSteerTarget
  | Console_setEchoMode | Console_getSpeed | Console_getFNR | Console_getSpeedTarget | Console_getSteerPot
  | Console_getPower | Console_kill | Console_help | Console_clear

record ConsoleCommand =
  cmdStr :: "string option"
  argStr :: "string option"
  minArguments :: nat
  ccallback :: "commandCallback option"

definition cmd :: "string \<Rightarrow> string option \<Rightarrow> nat \<Rightarrow> commandCallback \<Rightarrow> ConsoleCommand" where
  "cmd name args n cb = \<lparr>cmdStr = Some name, argStr = args, minArguments = n, ccallback = Some cb\<rparr>"

definition commands :: "ConsoleCommand list" where
  "commands =
    [cmd ''setSegment'' (Some ''char1<a-f|0-9>, char2<a-f|0-9>'') 2 Console_setSegment,
     cmd ''setLED'' (Some ''ledNum<0-5>, state<0-1>'') 2 Console_setLED,
     cmd ''setFNR'' (Some ''state<0-2>'') 1 Console_setFNR,
     cmd ''setSpeedTarget'' (Some ''target<0-5000>'') 1 Console_setSpeedTarget,
     cmd ''setSteerTarget'' (Some ''angle<45-125>'') 1 Console_setSteerTarget,
     cmd ''setEchoMode'' (Some ''mode<0-3>'') 1 Console_setEchoMode,
     cmd ''getSpeed'' None 0 Console_getSpeed,
     cmd ''getFNR'' None 0 Console_getFNR,
     cmd ''getSpeedTarget'' None 0 Console_getSpeedTarget,
     cmd ''getSteerPot'' None 0 Console_getSteerPot,
     cmd ''getPower'' None 0 Console_getPower,
     cmd ''kill'' None 0 Console_kill,
     cmd ''help'' None 0 Console_help,
     cmd ''clear'' None 0 Console_clear,
     \<lparr>cmdStr = None, argStr = None, minArguments = 0, ccallback = None\<rparr>]"

record console =
  cstate :: ConsoleState
  cmdBuffer :: string
  cmdBufferIdx :: nat
  echoCharacters :: u8
  errno :: int

type_synonym 'z con = "console \<times> 'z olympus_scheme"
type_synonym 'z con_result = "'z con stop + 'z con"

text \<open>\<^verbatim>\<open>printf\<close> with the text it produces, and a board function called from the console.\<close>

definition out :: "string \<Rightarrow> 'z con \<Rightarrow> 'z con" where
  "out str = (\<lambda>(k, s). (k, s\<lparr>printed := printed s @ [str]\<rparr>))"

definition on_board :: "('z olympus_scheme \<Rightarrow> 'z olympus_scheme stop + ('r \<times> 'z olympus_scheme)) \<Rightarrow>
    'z con \<Rightarrow> 'z con stop + ('r \<times> 'z con)" where
  "on_board f = (\<lambda>(k, s). case f s of
     Inl e \<Rightarrow> Inl (map_stop (\<lambda>s. (k, s)) e)
   | Inr (r, s) \<Rightarrow> Inr (r, (k, s)))"

definition esc :: "string \<Rightarrow> string" where "esc str = CHR 0x1B # str"
definition tab :: string where "tab = [CHR 0x09]"

section \<open>Matching a command\<close>

fun match_from :: "string \<Rightarrow> nat \<Rightarrow> int \<Rightarrow> ConsoleCommand list \<Rightarrow> int cres" where
  "match_from buffer commandLen i [] = Inl OutOfBounds"
| "match_from buffer commandLen i (c # rest) =
     (case cmdStr c of
        None \<Rightarrow> Inr (- 1)
      | Some name \<Rightarrow>
          bindE (strncmp_eq buffer (name @ [NUL]) commandLen) (\<lambda>eq.
          if eq \<and> commandLen = length name then Inr i
          else match_from buffer commandLen (i + 1) rest))"

definition matchCommand :: "string \<Rightarrow> int cres" where
  "matchCommand buffer =
     bindE (strchr buffer (CHR '','')) (\<lambda>commaPtr.
     bindE (case commaPtr of None \<Rightarrow> strlen buffer | Some n \<Rightarrow> Inr n) (\<lambda>commandLen.
     match_from buffer commandLen 0 commands))"

text \<open>
  The loop of \<^verbatim>\<open>createArgv\<close> over the rest of the line: the line with its commas replaced by zeros, and
  the offsets of the arguments.
\<close>

fun argv_from :: "nat \<Rightarrow> nat \<Rightarrow> string \<Rightarrow> (string \<times> nat list) cres" where
  "argv_from numArgs p [] = (if numArgs < CONSOLE_MAX_NUM_ARGS then Inl OutOfBounds else Inr ([], []))"
| "argv_from numArgs p (c # rest) =
     (if numArgs < CONSOLE_MAX_NUM_ARGS \<and> c \<noteq> NUL then
        if c = CHR '','' then
          bindE (argv_from (numArgs + 1) (p + 1) rest) (\<lambda>(rest, args). Inr (NUL # rest, (p + 1) # args))
        else bindE (argv_from numArgs (p + 1) rest) (\<lambda>(rest, args). Inr (c # rest, args))
      else Inr (c # rest, []))"

text \<open>The final \<^verbatim>\<open>argv[numArgs] = NULL\<close> needs one more place in the array of 32.\<close>

definition createArgv :: "string \<Rightarrow> (string \<times> nat list) cres" where
  "createArgv text =
     bindE (argv_from 0 0 text) (\<lambda>(text, argv).
     if length argv < CONSOLE_MAX_NUM_ARGS then Inr (text, argv) else Inl OutOfBounds)"

section \<open>Numbers\<close>

text \<open>The memory an argument points to.\<close>

definition arg :: "nat list \<Rightarrow> nat \<Rightarrow> 'z con \<Rightarrow> string cres" where
  "arg argv i = (\<lambda>(k, s). bindE (rd argv i) (\<lambda>off. Inr (drop off (cmdBuffer k))))"

definition call_strtol :: "string \<Rightarrow> 'z con \<Rightarrow> 'z con stop + (int \<times> 'z con)" where
  "call_strtol str = (\<lambda>(k, s).
     bindE (ckd (strtol str)) (\<lambda>(num, range).
     Inr (num, (if range then k\<lparr>errno := ERANGE\<rparr> else k, s))))"

text \<open>\<^verbatim>\<open>atoi\<close> of the C library is \<^verbatim>\<open>strtol\<close> to base 10.\<close>

definition atoi :: "string \<Rightarrow> 'z con \<Rightarrow> 'z con stop + (int \<times> 'z con)" where
  "atoi = call_strtol"

definition parseUint :: "int \<Rightarrow> string \<Rightarrow> 'z con \<Rightarrow> 'z con stop + (int \<times> 'z con)" where
  "parseUint limit str c =
     bindE (call_strtol str c) (\<lambda>(num, c).
     Inr (num, if errno (fst c) \<noteq> 0 \<or> num < 0 \<or> num > limit
               then out (''Could not parse input'' @ crlf) c else c))"

definition parseUint8 :: "string \<Rightarrow> 'z con \<Rightarrow> 'z con stop + (u8 \<times> 'z con)" where
  "parseUint8 str c = bindE (parseUint 255 str c) (\<lambda>(num, c). Inr (of_int num, c))"

definition parseUint16 :: "string \<Rightarrow> 'z con \<Rightarrow> 'z con stop + (u16 \<times> 'z con)" where
  "parseUint16 str c = bindE (parseUint 65535 str c) (\<lambda>(num, c). Inr (of_int num, c))"

section \<open>Commands\<close>

type_synonym 'z command = "nat list \<Rightarrow> 'z con \<Rightarrow> 'z con_result"

text \<open>The guard of \<^verbatim>\<open>writeLED\<close> refuses a state that is neither 0 nor 1.\<close>

definition console_setLED :: "'z command" where
  "console_setLED argv c =
     bindE (ckd (arg argv 0 c)) (\<lambda>a0. bindE (atoi a0 c) (\<lambda>(n, c).
     bindE (ckd (arg argv 1 c)) (\<lambda>a1. bindE (atoi a1 c) (\<lambda>(v, c).
     let ledNum = (of_int n :: u8); st = (of_int v :: u8) in
     bindE (if st \<le> 1 then
              on_board (\<lambda>s. bindE (ckd (writeLED ledNum (if st = 1 then LED_ON else LED_OFF) s)) (\<lambda>s. Inr ((), s))) c
            else Inr ((), c)) (\<lambda>(_, c).
     Inr (out (decimal (unat ledNum) @ (if st \<noteq> 0 then '', SET'' else '', RESET'')) c))))))"

definition console_setSegment :: "'z command" where
  "console_setSegment argv c =
     bindE (ckd (arg argv 0 c)) (\<lambda>a0.
     bindE (on_board (\<lambda>s. bindE (ckd (setSevenSeg a0 s)) (\<lambda>s. Inr ((), s))) c) (\<lambda>(_, c). Inr c))"

text \<open>The reading \<open>i\<close> of the eight 16-bit readings in \<^verbatim>\<open>olympusData.power\<close>.\<close>

definition power_reading :: "nat \<Rightarrow> 'z olympus_scheme \<Rightarrow> u16 cres" where
  "power_reading i s =
     bindE (rd (power s) (2 * i)) (\<lambda>lo. bindE (rd (power s) (2 * i + 1)) (\<lambda>hi. Inr (of_le16 lo hi)))"

definition power_line :: "string \<Rightarrow> nat \<Rightarrow> 'z con \<Rightarrow> 'z con_result" where
  "power_line name i c =
     bindE (ckd (power_reading i (snd c))) (\<lambda>volt. bindE (ckd (power_reading (i + 1) (snd c))) (\<lambda>cur.
     Inr (out (name @ decimal (unat volt) @ '' mV '' @ decimal (unat cur) @ '' mA'' @ crlf) c)))"

definition console_getPower :: "'z command" where
  "console_getPower argv c =
     bindE (on_board (\<lambda>s. bindE (ckd (commsPwradcCallback s)) (\<lambda>s. Inr ((), s))) c) (\<lambda>(_, c).
     bindE (ckd (power_reading 0 (snd c))) (\<lambda>battVolt. bindE (ckd (power_reading 1 (snd c))) (\<lambda>battCur.
     let pow = unat battVolt * unat battCur in
     if pow \<ge> 2147483648 then Inl (Faulted SignedOverflow)
     else
       bindE (Inr (out (''Power:'' @ tab @ '' '' @ decimal (pow div 1000) @ '' mW'' @ crlf) (out crlf c))) (\<lambda>c.
       bindE (power_line ''Battery: '' 0 c) (\<lambda>c.
       bindE (power_line (''Twelve:'' @ tab @ '' '') 2 c) (\<lambda>c.
       bindE (power_line (''Five:'' @ tab @ '' '') 4 c) (\<lambda>c.
       power_line (''Three:'' @ tab @ '' '') 6 c)))))))"

definition console_kill :: "'z command" where
  "console_kill argv c =
     bindE (on_board (\<lambda>s. bindE (killBoard s) (\<lambda>s. Inr ((), s))) c) (\<lambda>(_, c). Inr c)"

definition console_setFNR :: "'z command" where
  "console_setFNR argv c =
     bindE (ckd (arg argv 0 c)) (\<lambda>a0. bindE (parseUint8 a0 c) (\<lambda>(st, c).
     if st \<le> 2 then bindE (on_board (setFNR st) c) (\<lambda>(_, c). Inr c) else Inr c))"

definition console_getFNR :: "'z command" where
  "console_getFNR argv c = Inr (out (decimal (unat (janusFnr (snd c)))) c)"

definition console_setSpeedTarget :: "'z command" where
  "console_setSpeedTarget argv c =
     bindE (ckd (arg argv 0 c)) (\<lambda>a0. bindE (parseUint16 a0 c) (\<lambda>(num, c).
     if errno (fst c) = 0 then
       bindE (on_board (updateHermesSetSpeedTarget num) (out (''sent '' @ decimal (unat num)) c)) (\<lambda>(_, c). Inr c)
     else Inr c))"

definition console_getSpeedTarget :: "'z command" where
  "console_getSpeedTarget argv c = Inr (out (''0'' @ crlf) c)"

definition console_getSpeed :: "'z command" where
  "console_getSpeed argv c = Inr (out (''0'' @ crlf) c)"

definition console_setSteerTarget :: "'z command" where
  "console_setSteerTarget argv c =
     bindE (ckd (arg argv 0 c)) (\<lambda>a0. bindE (parseUint8 a0 c) (\<lambda>(angle, c).
     if errno (fst c) = 0 \<and> angle < 180 then
       bindE (on_board (setHephaestusSteering angle) c) (\<lambda>(st, c).
       Inr (if st \<noteq> COMMS_OK then out (''setHephaestusSteering Failed'' @ crlf) c else c))
     else Inr (out ''Invalid Argument'' c)))"

definition console_getSteerPot :: "'z command" where
  "console_getSteerPot argv c = Inr (out ''0'' c)"

definition console_setEchoMode :: "'z command" where
  "console_setEchoMode argv c =
     bindE (ckd (arg argv 0 c)) (\<lambda>a0. bindE (call_strtol a0 c) (\<lambda>(v, k, s).
     Inr (k\<lparr>echoCharacters := of_int v\<rparr>, s)))"

definition help_line :: "ConsoleCommand \<Rightarrow> string" where
  "help_line e =
     (case cmdStr e of
        None \<Rightarrow> []
      | Some name \<Rightarrow>
          (case argStr e of
             None \<Rightarrow> ''  '' @ name @ crlf
           | Some args \<Rightarrow> ''  '' @ name @ (if length name \<ge> 12 then tab else tab @ tab) @ ''['' @ args @ '']'' @ crlf))"

definition console_help :: "'z command" where
  "console_help argv c =
     Inr (fold (\<lambda>e. out (help_line e)) (takeWhile (\<lambda>e. cmdStr e \<noteq> None) commands)
       (out (crlf @ ''  '' @ esc ''[2m'' @ esc ''[4mCommand'' @ tab @ tab @ ''Args'' @ esc ''[0m'' @ crlf) c))"

definition console_clear :: "'z command" where
  "console_clear argv c = Inr (out (esc ''[J'') (out (esc ''[H'') c))"

fun run_callback :: "commandCallback \<Rightarrow> 'z command" where
  "run_callback Console_setSegment = console_setSegment"
| "run_callback Console_setLED = console_setLED"
| "run_callback Console_setFNR = console_setFNR"
| "run_callback Console_setSpeedTarget = console_setSpeedTarget"
| "run_callback Console_setSteerTarget = console_setSteerTarget"
| "run_callback Console_setEchoMode = console_setEchoMode"
| "run_callback Console_getSpeed = console_getSpeed"
| "run_callback Console_getFNR = console_getFNR"
| "run_callback Console_getSpeedTarget = console_getSpeedTarget"
| "run_callback Console_getSteerPot = console_getSteerPot"
| "run_callback Console_getPower = console_getPower"
| "run_callback Console_kill = console_kill"
| "run_callback Console_help = console_help"
| "run_callback Console_clear = console_clear"

section \<open>Running a command\<close>

text \<open>\<^verbatim>\<open>commands[i]\<close> for the signed index \<^verbatim>\<open>matchCommand\<close> returns.\<close>

definition command_at :: "int \<Rightarrow> ConsoleCommand cres" where
  "command_at i = (if i < 0 then Inl OutOfBounds else rd commands (nat i))"

definition run_matched :: "ConsoleCommand \<Rightarrow> 'z con \<Rightarrow> 'z con_result" where
  "run_matched e = (\<lambda>(k, s).
     bindE (ckd (createArgv (cmdBuffer k))) (\<lambda>(text, argv).
     let c = out (crlf @ ''<'') (k\<lparr>cmdBuffer := text\<rparr>, s) in
     bindE (if length argv < minArguments e
            then Inr (out (''ERROR: Need '' @ decimal (minArguments e) @ '' Args'') c)
            else case ccallback e of None \<Rightarrow> Inl (Faulted NullDeref) | Some cb \<Rightarrow> run_callback cb argv c) (\<lambda>c.
     Inr (if cmdStr e \<noteq> Some ''clear'' then out (''>'' @ crlf) c else c))))"

definition processCommand :: "'z con \<Rightarrow> 'z con_result" where
  "processCommand c =
     bindE (ckd (matchCommand (cmdBuffer (fst c)))) (\<lambda>i.
     bindE (if i \<ge> 0 then bindE (ckd (command_at i)) (\<lambda>e. run_matched e c) else Inr c) (\<lambda>c.
     bindE (ckd (command_at i)) (\<lambda>e.
     Inr (if cmdStr e = None then out (crlf @ ''<ERROR: Command Not Found>'' @ crlf) c else c))))"

section \<open>Echo\<close>

definition mapped :: "char \<Rightarrow> string cres" where
  "mapped ch =
     bindE (mapCharacter (byte_of ch) (replicate 10 0)) (\<lambda>tempMapping.
     Inr (takeWhile (\<lambda>c. c \<noteq> NUL) (map char_of_byte tempMapping)))"

definition redraw_char :: "char \<Rightarrow> 'z con \<Rightarrow> 'z con_result" where
  "redraw_char ch c =
     (if echoCharacters (fst c) = CONSOLE_ECHO_ON then Inr (out [ch] c)
      else if echoCharacters (fst c) = CONSOLE_ECHO_MAP
      then bindE (ckd (mapped ch)) (\<lambda>str. Inr (out str c))
      else Inr c)"

definition rewriteBuffer :: "string \<Rightarrow> nat \<Rightarrow> 'z con \<Rightarrow> 'z con_result" where
  "rewriteBuffer characterBuffer color c =
     (if echoCharacters (fst c) \<noteq> CONSOLE_ECHO_OFF then
        let c = out (esc ''[2G'' @ esc ''[0K'') c;
            c = (if color < 10 then out (esc ''['' @ decimal (30 + color) @ ''m'') c else c) in
        bindE (ckd (strlen characterBuffer)) (\<lambda>n.
        foldE redraw_char (take n characterBuffer) c)
      else Inr c)"

text \<open>The line in green when it names a command, in red otherwise.\<close>

definition redraw :: "'z con \<Rightarrow> 'z con_result" where
  "redraw c =
     bindE (ckd (matchCommand (cmdBuffer (fst c)))) (\<lambda>i.
     rewriteBuffer (cmdBuffer (fst c)) (if i \<noteq> - 1 then 2 else 1) c)"

definition echo :: "u8 \<Rightarrow> 'z con \<Rightarrow> 'z con_result" where
  "echo data c =
     (if echoCharacters (fst c) = CONSOLE_ECHO_ON then Inr (out [char_of_byte data] c)
      else if echoCharacters (fst c) = CONSOLE_ECHO_MAP
      then bindE (ckd (mapped (char_of_byte data))) (\<lambda>str. Inr (out str c))
      else if echoCharacters (fst c) = CONSOLE_ECHO_DEBUG then Inr (out (decimal (unat data)) c)
      else Inr c)"

section \<open>One byte, and the loop\<close>

definition backspace :: "'z con \<Rightarrow> 'z con_result" where
  "backspace = (\<lambda>(k, s).
     if cmdBufferIdx k > 0 then
       let i = cmdBufferIdx k - 1 in
       bindE (ckd (wr (cmdBuffer k) i NUL)) (\<lambda>buf.
       let c = out (esc ''[1D'' @ esc ''[0K'') (k\<lparr>cmdBuffer := buf, cmdBufferIdx := i\<rparr>, s) in
       if i > 0 then redraw c else Inr c)
     else Inr (k, s))"

definition end_of_line :: "'z con \<Rightarrow> 'z con_result" where
  "end_of_line c =
     bindE (processCommand (out '']'' (out (esc ''[0m'') (out (esc ''[1D'' @ esc ''[0K'') c)))) (\<lambda>(k, s).
     Inr (k\<lparr>cstate := CONSOLE_START, cmdBuffer := replicate CONSOLE_MAX_CMD_LEN NUL\<rparr>, s))"

definition store_char :: "u8 \<Rightarrow> 'z con \<Rightarrow> 'z con_result" where
  "store_char data = (\<lambda>(k, s).
     bindE (if cmdBufferIdx k < CONSOLE_MAX_CMD_LEN then
              bindE (ckd (wr (cmdBuffer k) (cmdBufferIdx k) (char_of_byte data))) (\<lambda>buf.
              Inr (k\<lparr>cmdBuffer := buf, cmdBufferIdx := cmdBufferIdx k + 1\<rparr>, s))
            else Inr (k\<lparr>cstate := CONSOLE_START\<rparr>, s)) redraw)"

definition console_byte :: "u8 \<Rightarrow> 'z con \<Rightarrow> 'z con_result" where
  "console_byte data c =
     (if data = 0x7F then backspace c
      else bindE (echo data c) (\<lambda>(k, s).
        case cstate k of
          CONSOLE_START \<Rightarrow>
            Inr (if data = byte_of (CHR ''['') then (k\<lparr>cstate := CONSOLE_READING, cmdBufferIdx := 0\<rparr>, s) else (k, s))
        | CONSOLE_READING \<Rightarrow>
            if data = byte_of (CHR '']'') then end_of_line (k, s) else store_char data (k, s)))"

text \<open>\<^verbatim>\<open>while (usartRead(&data, 1))\<close>: the serial port is the other state of the loop.\<close>

definition consoleProcessBytes :: "nat \<Rightarrow> usart \<Rightarrow> 'z con \<Rightarrow> ('z con stop + (usart \<times> 'z con)) option" where
  "consoleProcessBytes fuel u c = drain fuel usart_get_byte console_byte u c"

end
