(* ===== verification/ConsoleLines.thy ===== *)
theory ConsoleLines
  imports Console
begin

text \<open>
  Properties of the console: the mapping of characters can be undone, a line in brackets runs the
  command it names with the text it carries, a line that names none or does not fit faults, and the
  buffer keeps its shape.
\<close>

section \<open>Matching\<close>

fun find_command :: "string \<Rightarrow> int \<Rightarrow> ConsoleCommand list \<Rightarrow> int" where
  "find_command name i [] = - 1"
| "find_command name i (e # es) =
     (case cmdStr e of
        None \<Rightarrow> - 1
      | Some n \<Rightarrow> if n = name then i else find_command name (i + 1) es)"

definition command_names :: "string set" where
  "command_names = {n. \<exists>e\<in>set commands. cmdStr e = Some n}"

text \<open>The name at the start of a line: what is before the first comma.\<close>

definition command_name :: "string \<Rightarrow> string" where
  "command_name m = upto (CHR '','') m"

lemma match_from_eq:
  assumes "NUL \<notin> set a" and "\<forall>e\<in>set es. \<forall>n. cmdStr e = Some n \<longrightarrow> NUL \<notin> set n"
    and "es \<noteq> [] \<and> cmdStr (last es) = None"
  shows "match_from (a @ r) (length a) i es = Inr (find_command a i es)"
  using assms(2,3)
proof (induction es arbitrary: i)
  case (Cons e es)
  show ?case
  proof (cases "cmdStr e")
    case (Some n)
    with Cons.prems have "NUL \<notin> set n" "es \<noteq> [] \<and> cmdStr (last es) = None"
      by (auto split: if_splits)
    moreover from strncmp_eq_name [OF assms(1) this(1), of r] obtain eq where
      "strncmp_eq (a @ r) (n @ [NUL]) (length a) = Inr eq" "length a = length n \<longrightarrow> eq = (a = n)"
      by auto
    ultimately show ?thesis using Some Cons by auto
  qed simp
qed simp

lemma commands_wf:
  "\<forall>e\<in>set commands. \<forall>n. cmdStr e = Some n \<longrightarrow> NUL \<notin> set n" "commands \<noteq> [] \<and> cmdStr (last commands) = None"
  by (auto simp: commands_def cmd_def NUL_def)

lemma matchCommand_eq:
  assumes "NUL \<in> set m"
  shows "matchCommand m = Inr (find_command (command_name m) 0 commands)"
proof -
  have len: "(case (if m ! length (command_name m) = CHR '','' then Some (length (command_name m)) else None)
      of None \<Rightarrow> strlen m | Some n \<Rightarrow> Inr n) = Inr (length (command_name m))"
    using upto_whole [OF assms, of "CHR '',''"] strlen_ok [OF assms] by (simp add: command_name_def)
  obtain r where "m = command_name m @ r" using upto_prefix unfolding command_name_def by blast
  with match_from_eq [OF upto_props(1) commands_wf, of "CHR '',''" m r 0]
  have "match_from m (length (command_name m)) 0 commands = Inr (find_command (command_name m) 0 commands)"
    by (simp add: command_name_def)
  then show ?thesis
    unfolding matchCommand_def strchr_ok [OF assms] command_name_def [symmetric] bindE_Inr len .
qed

lemma find_command_unknown:
  "\<forall>e\<in>set es. cmdStr e \<noteq> Some name \<Longrightarrow> find_command name i es = - 1"
  by (induction es arbitrary: i) (auto split: option.splits)

section \<open>Output\<close>

text \<open>\<open>prints c c'\<close>: the console has only written something.\<close>

definition prints :: "'z con \<Rightarrow> 'z con \<Rightarrow> bool" where
  "prints c c' \<longleftrightarrow> (\<exists>ps. c' = (fst c, (snd c)\<lparr>printed := printed (snd c) @ ps\<rparr>))"

lemma prints_refl [simp]: "prints c c"
  unfolding prints_def by (rule exI [of _ "[]"]) simp

lemma prints_out [simp]: "prints c (out str c)"
  unfolding prints_def out_def by (cases c) auto

lemma prints_trans: "prints c d \<Longrightarrow> prints d e \<Longrightarrow> prints c e"
  unfolding prints_def by auto

lemma prints_fst: "prints c d \<Longrightarrow> fst d = fst c"
  unfolding prints_def by auto

lemma prints_out_trans: "prints c d \<Longrightarrow> prints c (out str d)"
  by (rule prints_trans [OF _ prints_out])

definition only_prints :: "'z con \<Rightarrow> 'z con_result \<Rightarrow> bool" where
  "only_prints c r = (case r of Inl e \<Rightarrow> False | Inr c' \<Rightarrow> prints c c')"

lemma only_prints_simps [simp]: "only_prints c (Inr c') = prints c c'" "\<not> only_prints c (Inl e)"
  by (simp_all add: only_prints_def)

lemma only_prints_trans: "prints c d \<Longrightarrow> only_prints d r \<Longrightarrow> only_prints c r"
  by (cases r) (auto intro: prints_trans)

lemma only_prints_bind:
  "only_prints c r \<Longrightarrow> (\<And>d. prints c d \<Longrightarrow> only_prints d (f d)) \<Longrightarrow> only_prints c (bindE r f)"
  by (cases r) (auto intro: only_prints_trans)

lemma only_printsE:
  assumes "only_prints (k, s) r"
  obtains ps where "r = Inr (k, s\<lparr>printed := printed s @ ps\<rparr>)"
  using assms by (auto simp: only_prints_def prints_def split: sum.splits)

lemma mapped_ok: "\<exists>str. mapped ch = Inr str"
  by (simp add: mapped_def mapCharacter_eq)

lemma redraw_char_ok: "only_prints c (redraw_char ch c)"
  using mapped_ok [of ch] by (auto simp: redraw_char_def)

lemma redraw_chars_ok: "only_prints c (foldE redraw_char str c)"
  by (induction str arbitrary: c) (auto intro: only_prints_bind redraw_char_ok)

lemma rewriteBuffer_ok:
  assumes "NUL \<in> set m"
  shows "only_prints c (rewriteBuffer m color c)"
proof -
  let ?d = "out (esc ''[2G'' @ esc ''[0K'') c"
  have "prints c (if color < 10 then out (esc ''['' @ decimal (30 + color) @ ''m'') ?d else ?d)"
    by (simp add: prints_out_trans)
  from only_prints_trans [OF this redraw_chars_ok] show ?thesis
    unfolding rewriteBuffer_def Let_def strlen_ok [OF assms] ckd_simps bindE_Inr by simp
qed

lemma redraw_ok: "NUL \<in> set (cmdBuffer (fst c)) \<Longrightarrow> only_prints c (redraw c)"
  by (simp add: redraw_def matchCommand_eq rewriteBuffer_ok)

lemma echo_ok: "only_prints c (echo data c)"
  using mapped_ok [of "char_of_byte data"] by (auto simp: echo_def)

section \<open>Typing a line\<close>

text \<open>The console inside a line of which \<open>str\<close> has been typed.\<close>

definition typed :: "string \<Rightarrow> console \<Rightarrow> console" where
  "typed str k = k\<lparr>cstate := CONSOLE_READING, cmdBuffer := str @ replicate (255 - length str) NUL,
     cmdBufferIdx := length str\<rparr>"

lemma store_char_typed:
  assumes "length str < 254"
  shows "store_char (byte_of c) (typed str k, s) = redraw (typed (str @ [c]) k, s)"
proof -
  have "255 - length str = Suc (255 - Suc (length str))" using assms by simp
  then have rep: "replicate (255 - length str) NUL = NUL # replicate (255 - Suc (length str)) NUL"
    by (simp only: replicate_Suc)
  show ?thesis
    using assms rep by (simp add: store_char_def typed_def CONSOLE_MAX_CMD_LEN_def)
qed

lemma typed_simps [simp]:
  "cstate (typed str k) = CONSOLE_READING" "cmdBufferIdx (typed str k) = length str"
  "cmdBuffer (typed str k) = str @ replicate (255 - length str) NUL"
  "echoCharacters (typed str k) = echoCharacters k" "errno (typed str k) = errno k"
  by (simp_all add: typed_def)

definition line_char :: "char \<Rightarrow> bool" where
  "line_char c \<longleftrightarrow> c \<noteq> CHR '']'' \<and> c \<noteq> CHR 0x7F"

lemma byte_of_inj: "byte_of c = byte_of d \<longleftrightarrow> c = d"
  by (metis char_of_byte_of)

lemma type_char:
  assumes "line_char c" and "length str < 254"
  shows "only_prints (typed (str @ [c]) k, s) (console_byte (byte_of c) (typed str k, s))"
proof -
  have ne: "byte_of c \<noteq> 0x7F" "byte_of c \<noteq> byte_of (CHR '']'')"
    using assms(1) byte_of_inj [of c "CHR 0x7F"] byte_of_inj [of c "CHR '']''"]
    by (auto simp: line_char_def)
  obtain ps where e: "echo (byte_of c) (typed str k, s) = Inr (typed str k, s\<lparr>printed := printed s @ ps\<rparr>)"
    using only_printsE [OF echo_ok] by blast
  let ?t = "typed (str @ [c]) k" and ?s = "s\<lparr>printed := printed s @ ps\<rparr>"
  have "NUL \<in> set (cmdBuffer (fst (?t, ?s)))" using assms(2) by simp
  note r = redraw_ok [OF this]
  have p: "prints (?t, s) (?t, ?s)" unfolding prints_def by auto
  have "console_byte (byte_of c) (typed str k, s) = redraw (?t, ?s)"
    unfolding console_byte_def e bindE_Inr using ne store_char_typed [OF assms(2)] by simp
  with only_prints_trans [OF p r] show ?thesis by (simp only:)
qed

lemma type_chars:
  assumes "\<forall>c\<in>set cs'. line_char c" and "length str + length cs' < 255"
  shows "only_prints (typed (str @ cs') k, s) (foldE console_byte (map byte_of cs') (typed str k, s))"
  using assms
proof (induction cs' arbitrary: str s)
  case (Cons c cs')
  obtain ps where one: "console_byte (byte_of c) (typed str k, s) =
      Inr (typed (str @ [c]) k, s\<lparr>printed := printed s @ ps\<rparr>)"
    using only_printsE [OF type_char [of c str k s]] Cons.prems by auto
  have "prints (typed (str @ c # cs') k, s) (typed (str @ c # cs') k, s\<lparr>printed := printed s @ ps\<rparr>)"
    unfolding prints_def by auto
  with Cons.IH [of "str @ [c]" "s\<lparr>printed := printed s @ ps\<rparr>"] Cons.prems show ?case
    by (auto simp: one intro: only_prints_trans)
qed simp

text \<open>The console between lines.\<close>

definition between_lines :: "console \<Rightarrow> bool" where
  "between_lines k \<longleftrightarrow> cstate k = CONSOLE_START \<and> cmdBuffer k = replicate 255 NUL"

definition cleared :: "console \<Rightarrow> console" where
  "cleared k = k\<lparr>cstate := CONSOLE_START, cmdBuffer := replicate 255 NUL\<rparr>"

lemma open_line:
  assumes "between_lines k"
  shows "only_prints (typed [] k, s) (console_byte (byte_of (CHR ''['')) (k, s))"
proof -
  obtain ps where e: "echo 0x5B (k, s) = Inr (k, s\<lparr>printed := printed s @ ps\<rparr>)"
    using only_printsE [OF echo_ok] by blast
  have "typed [] k = k\<lparr>cstate := CONSOLE_READING, cmdBufferIdx := 0\<rparr>"
    using assms by (cases k) (simp add: typed_def between_lines_def)
  then have "console_byte (byte_of (CHR ''['')) (k, s) = Inr (typed [] k, s\<lparr>printed := printed s @ ps\<rparr>)"
    using assms e by (simp add: console_byte_def between_lines_def)
  then show ?thesis by (auto simp: prints_def)
qed

lemma line_typed:
  assumes "between_lines k" and "\<forall>c\<in>set str. line_char c" and "length str < 255"
  shows "only_prints (typed str k, s) (foldE console_byte (map byte_of (CHR ''['' # str)) (k, s))"
proof -
  obtain ps where one: "console_byte (byte_of (CHR ''['')) (k, s) =
      Inr (typed [] k, s\<lparr>printed := printed s @ ps\<rparr>)"
    using only_printsE [OF open_line [OF assms(1)]] by blast
  have "prints (typed str k, s) (typed str k, s\<lparr>printed := printed s @ ps\<rparr>)"
    unfolding prints_def by auto
  moreover have "only_prints (typed str k, s\<lparr>printed := printed s @ ps\<rparr>)
      (foldE console_byte (map byte_of str) (typed [] k, s\<lparr>printed := printed s @ ps\<rparr>))"
    using type_chars [of str "[]" k "s\<lparr>printed := printed s @ ps\<rparr>"] assms(2,3) by simp
  ultimately have "only_prints (typed str k, s)
      (foldE console_byte (map byte_of str) (typed [] k, s\<lparr>printed := printed s @ ps\<rparr>))"
    by (rule only_prints_trans)
  then show ?thesis using one by simp
qed

lemma close_line:
  "\<exists>ps. console_byte (byte_of (CHR '']'')) (typed str k, s) =
     bindE (processCommand (typed str k, s\<lparr>printed := printed s @ ps\<rparr>)) (\<lambda>(k, s). Inr (cleared k, s))"
proof -
  obtain ps where e: "echo 0x5D (typed str k, s) = Inr (typed str k, s\<lparr>printed := printed s @ ps\<rparr>)"
    using only_printsE [OF echo_ok] by blast
  then show ?thesis
    by (intro exI [of _ "ps @ [esc ''[1D'' @ esc ''[0K'', esc ''[0m'', '']'']"])
      (simp add: console_byte_def end_of_line_def out_def cleared_def CONSOLE_MAX_CMD_LEN_def)
qed

lemma console_line_ok:
  assumes "between_lines k" and "\<forall>c\<in>set str. line_char c" and "length str < 255"
  shows "\<exists>ps. foldE console_byte (map byte_of (CHR ''['' # str @ [CHR '']''])) (k, s) =
     bindE (processCommand (typed str k, s\<lparr>printed := printed s @ ps\<rparr>)) (\<lambda>(k, s). Inr (cleared k, s))"
proof -
  obtain ps where l: "foldE console_byte (map byte_of (CHR ''['' # str)) (k, s) =
      Inr (typed str k, s\<lparr>printed := printed s @ ps\<rparr>)"
    using only_printsE [OF line_typed [OF assms]] by blast
  obtain qs where "console_byte (byte_of (CHR '']'')) (typed str k, s\<lparr>printed := printed s @ ps\<rparr>) =
      bindE (processCommand (typed str k, s\<lparr>printed := printed s @ (ps @ qs)\<rparr>)) (\<lambda>(k, s). Inr (cleared k, s))"
    using close_line [of str k "s\<lparr>printed := printed s @ ps\<rparr>"] by auto
  moreover have "map byte_of (CHR ''['' # str @ [CHR '']'']) =
      map byte_of (CHR ''['' # str) @ [byte_of (CHR '']'')]"
    by simp
  then have "foldE console_byte (map byte_of (CHR ''['' # str @ [CHR '']''])) (k, s) =
      console_byte (byte_of (CHR '']'')) (typed str k, s\<lparr>printed := printed s @ ps\<rparr>)"
    by (simp only: foldE_append l bindE_Inr foldE_single)
  ultimately show ?thesis by (auto simp only:)
qed

text \<open>
  C25. A command line of up to 254 characters runs the command it holds: typed between brackets from
  the state between lines, it only prints until the closing bracket, which calls \<^verbatim>\<open>processCommand\<close> on
  exactly the typed text, and then the buffer is cleared for the next line.
\<close>

theorem console_line_runs_command:
  assumes "between_lines k" and "\<forall>c\<in>set str. line_char c" and "length str < 255"
  shows "\<exists>ps. foldE console_byte (map byte_of (CHR ''['' # str @ [CHR '']''])) (k, s) =
     bindE (processCommand (typed str k, s\<lparr>printed := printed s @ ps\<rparr>)) (\<lambda>(k, s). Inr (cleared k, s))"
  using assms by (rule console_line_ok)

definition console_start :: console where
  "console_start = \<lparr>cstate = CONSOLE_START, cmdBuffer = replicate 255 NUL, cmdBufferIdx = 0,
     echoCharacters = CONSOLE_ECHO_ON, errno = 0\<rparr>"

lemma console_start_ready: "between_lines console_start" "errno console_start = 0"
  by (simp_all add: between_lines_def console_start_def)

theorem console_line_runs_command_witness:
  "\<exists>ps. foldE console_byte (map byte_of ''[getFNR]'') (console_start, olympus_start (mspi_idle [] [] [])) =
     bindE (processCommand (typed ''getFNR'' console_start, (olympus_start (mspi_idle [] [] []))
         \<lparr>printed := printed (olympus_start (mspi_idle [] [] [])) @ ps\<rparr>))
       (\<lambda>(k, s). Inr (cleared k, s))"
proof -
  have "\<forall>c\<in>set ''getFNR''. line_char c" by (simp add: line_char_def)
  from console_line_runs_command [OF console_start_ready(1) this, of "olympus_start (mspi_idle [] [] [])"]
  show ?thesis by simp
qed

section \<open>Running the command\<close>

lemma nul_in_typed: "length str < 255 \<Longrightarrow> NUL \<in> set (cmdBuffer (typed str k))"
  by simp

lemma command_name_typed:
  "command_name (str @ replicate n NUL) = command_name str"
proof (induction str)
  case Nil
  show ?case by (cases n) (simp_all add: command_name_def upto_def)
qed (simp add: command_name_def upto_def)

lemma processCommand_unknown:
  assumes "length str < 255" and "command_name str \<notin> command_names"
  shows "processCommand (typed str k, s) = Inl (Faulted OutOfBounds)"
proof -
  have "find_command (command_name str) 0 commands = - 1"
    by (rule find_command_unknown) (use assms(2) in \<open>auto simp: command_names_def\<close>)
  with nul_in_typed [OF assms(1)] show ?thesis
    by (simp add: processCommand_def matchCommand_eq command_name_typed command_at_def)
qed

text \<open>
  C40. A line that names no command is not answered with the error message the code has for it:
  \<^verbatim>\<open>matchCommand\<close> returns -1 and \<^verbatim>\<open>processCommand\<close> reads \<^verbatim>\<open>commands[-1]\<close>, before the start of the table.
\<close>

theorem console_unknown_command_faults:
  assumes "between_lines k" and "\<forall>c\<in>set str. line_char c" and "length str < 255"
    and "command_name str \<notin> command_names"
  shows "foldE console_byte (map byte_of (CHR ''['' # str @ [CHR '']''])) (k, s) = Inl (Faulted OutOfBounds)"
proof -
  obtain ps where l: "foldE console_byte (map byte_of (CHR ''['' # str)) (k, s) =
      Inr (typed str k, s\<lparr>printed := printed s @ ps\<rparr>)"
    using only_printsE [OF line_typed [OF assms(1-3)]] by blast
  have "map byte_of (CHR ''['' # str @ [CHR '']'']) = map byte_of (CHR ''['' # str) @ [byte_of (CHR '']'')]"
    by simp
  then have "foldE console_byte (map byte_of (CHR ''['' # str @ [CHR '']''])) (k, s) =
      console_byte (byte_of (CHR '']'')) (typed str k, s\<lparr>printed := printed s @ ps\<rparr>)"
    by (simp only: foldE_append l bindE_Inr foldE_single)
  with close_line [of str k "s\<lparr>printed := printed s @ ps\<rparr>"] show ?thesis
    by (auto simp: processCommand_unknown [OF assms(3,4)])
qed

lemma hello_chars: "\<forall>c\<in>set ''hello''. line_char c"
  by (simp add: line_char_def)

theorem console_unknown_command_faults_witness:
  "foldE console_byte (map byte_of ''[hello]'') (console_start, olympus_start (mspi_idle [] [] [])) = Inl (Faulted OutOfBounds)"
proof -
  have "command_name ''hello'' \<notin> command_names"
    by (simp add: command_name_def upto_def NUL_def command_names_def commands_def cmd_def)
  from console_unknown_command_faults [OF console_start_ready(1) hello_chars _ this, of "olympus_start (mspi_idle [] [] [])"]
  show ?thesis by simp
qed

section \<open>A command with one argument\<close>

definition plain :: "string \<Rightarrow> bool" where
  "plain a \<longleftrightarrow> CHR '','' \<notin> set a \<and> NUL \<notin> set a"

lemma argv_from_plain:
  assumes "plain a" and "n < CONSOLE_MAX_NUM_ARGS"
  shows "argv_from n p (a @ m) = bindE (argv_from n (p + length a) m) (\<lambda>(t, args). Inr (a @ t, args))"
  using assms(1)
proof (induction a arbitrary: p)
  case Nil
  show ?case by (cases "argv_from n p m") auto
next
  case (Cons c a)
  then show ?case using assms(2)
    by (cases "argv_from n (Suc (p + length a)) m") (auto simp: plain_def)
qed

lemma createArgv_one:
  assumes "plain nm" and "plain a"
  shows "createArgv (nm @ CHR '','' # a @ NUL # m) = Inr (nm @ NUL # a @ NUL # m, [Suc (length nm)])"
  using argv_from_plain [OF assms(1), of 0 0 "CHR '','' # a @ NUL # m"]
    argv_from_plain [OF assms(2), of 1 "Suc (length nm)" "NUL # m"]
  by (simp add: createArgv_def CONSOLE_MAX_NUM_ARGS_def NUL_def)

text \<open>The line after its comma has become a zero.\<close>

definition split_line :: "string \<Rightarrow> string \<Rightarrow> console \<Rightarrow> console" where
  "split_line nm a k = (typed (nm @ CHR '','' # a) k)\<lparr>cmdBuffer := nm @ NUL # a @
     replicate (255 - length (nm @ CHR '','' # a)) NUL\<rparr>"

lemma processCommand_one_arg:
  assumes "plain nm" and "plain a" and len: "length nm + length a < 254"
    and find: "find_command nm 0 commands = int i" and e: "i < length commands" "commands ! i = e"
      "cmdStr e = Some nm" "minArguments e = 1" "ccallback e = Some cb" and "nm \<noteq> ''clear''"
  shows "processCommand (typed (nm @ CHR '','' # a) k, s) =
     bindE (run_callback cb [Suc (length nm)] (out (crlf @ ''<'') (split_line nm a k, s)))
       (\<lambda>c. Inr (out (''>'' @ crlf) c))"
proof -
  let ?str = "nm @ CHR '','' # a"
  obtain m where m: "replicate (255 - length ?str) NUL = NUL # m"
    using len by (cases "255 - length ?str") auto
  have "command_name ?str = nm"
    using assms(1) unfolding command_name_def upto_def plain_def
    by (subst takeWhile_append2) auto
  then have "matchCommand (cmdBuffer (typed ?str k)) = Inr (int i)"
    using matchCommand_eq [OF nul_in_typed [of ?str k]] len find command_name_typed [of ?str] by simp
  moreover have "command_at (int i) = Inr e" using e by (simp add: command_at_def)
  moreover have "createArgv (cmdBuffer (typed ?str k)) = Inr (cmdBuffer (split_line nm a k), [Suc (length nm)])"
    using createArgv_one [OF assms(1,2), of m] m by (simp add: split_line_def)
  moreover have "(typed ?str k)\<lparr>cmdBuffer := cmdBuffer (split_line nm a k)\<rparr> = split_line nm a k"
    by (simp add: split_line_def)
  ultimately show ?thesis using e assms(10)
    by (simp add: processCommand_def run_matched_def Let_def bindE_assoc)
qed

section \<open>Numbers on the line\<close>

definition number :: "string \<Rightarrow> bool" where
  "number ds \<longleftrightarrow> (\<forall>c\<in>set ds. isdigit c) \<and> length ds < 200"

lemma number_props:
  assumes "number ds"
  shows "plain ds" "\<forall>c\<in>set ds. line_char c"
proof -
  have d: "isdigit c" if "c \<in> set ds" for c using assms that by (simp add: number_def)
  show "plain ds" unfolding plain_def
    using d isdigit_not(4) [of NUL] isdigit_not(5) [of "CHR '',''"] by blast
  show "\<forall>c\<in>set ds. line_char c" unfolding line_char_def using d isdigit_not(6,7) by blast
qed

lemma split_line_simps [simp]:
  "errno (split_line nm a k) = errno k" "echoCharacters (split_line nm a k) = echoCharacters k"
  by (simp_all add: split_line_def)

lemma cleared_split:
  "between_lines (cleared (split_line nm a k))" "errno (cleared k) = errno k"
  "between_lines (cleared ((split_line nm a k)\<lparr>errno := v\<rparr>))"
  by (simp_all add: between_lines_def cleared_def)

lemma arg_split:
  assumes "length nm + length a < 254"
  shows "\<exists>m. arg [Suc (length nm)] 0 (out str (split_line nm a k, s)) = Inr (a @ NUL # m)"
proof -
  obtain m where "replicate (255 - length (nm @ CHR '','' # a)) NUL = NUL # m"
    using assms by (cases "255 - length (nm @ CHR '','' # a)") auto
  then show ?thesis by (auto simp: arg_def out_def split_line_def)
qed

lemma call_strtol_number:
  assumes "number ds"
  shows "call_strtol (ds @ NUL # m) (k, s) =
     Inr (if digits_value ds > LONG_MAX then (LONG_MAX, (k\<lparr>errno := ERANGE\<rparr>, s)) else (digits_value ds, (k, s)))"
proof -
  have "strtol (ds @ NUL # m) =
     Inr (if digits_value ds > LONG_MAX then (LONG_MAX, True) else (digits_value ds, False))"
    using assms by (intro strtol_digits) (auto simp: number_def NUL_def isdigit_def isspace_def)
  then show ?thesis by (auto simp: call_strtol_def)
qed

text \<open>A line with a command of one argument, up to the call of its function.\<close>

definition one_arg :: "string \<Rightarrow> commandCallback \<Rightarrow> bool" where
  "one_arg nm cb \<longleftrightarrow> (\<exists>i e. find_command nm 0 commands = int i \<and> i < length commands \<and> commands ! i = e \<and>
     cmdStr e = Some nm \<and> minArguments e = 1 \<and> ccallback e = Some cb) \<and> nm \<noteq> ''clear'' \<and>
     plain nm \<and> (\<forall>c\<in>set nm. line_char c) \<and> length nm < 50"

lemma one_arg_commands:
  "one_arg ''setFNR'' Console_setFNR" "one_arg ''setSpeedTarget'' Console_setSpeedTarget"
  "one_arg ''setSteerTarget'' Console_setSteerTarget" "one_arg ''setEchoMode'' Console_setEchoMode"
  subgoal unfolding one_arg_def
    by (intro conjI exI [of _ 2]) (simp_all add: commands_def cmd_def plain_def line_char_def NUL_def)
  subgoal unfolding one_arg_def
    by (intro conjI exI [of _ 3]) (simp_all add: commands_def cmd_def plain_def line_char_def NUL_def)
  subgoal unfolding one_arg_def
    by (intro conjI exI [of _ 4]) (simp_all add: commands_def cmd_def plain_def line_char_def NUL_def)
  subgoal unfolding one_arg_def
    by (intro conjI exI [of _ 5]) (simp_all add: commands_def cmd_def plain_def line_char_def NUL_def)
  done

definition command_line :: "string \<Rightarrow> string \<Rightarrow> u8 list" where
  "command_line nm a = map byte_of (CHR ''['' # (nm @ CHR '','' # a) @ [CHR '']''])"

lemma one_arg_line:
  assumes "between_lines k" and "one_arg nm cb" and "number ds"
  shows "\<exists>ps. foldE console_byte (command_line nm ds) (k, s) =
     bindE (run_callback cb [Suc (length nm)] (split_line nm ds k, s\<lparr>printed := printed s @ ps\<rparr>))
       (\<lambda>(k, s). Inr (cleared k, s\<lparr>printed := printed s @ [''>'' @ crlf]\<rparr>))"
proof -
  let ?str = "nm @ CHR '','' # ds"
  obtain i e where e: "find_command nm 0 commands = int i" "i < length commands" "commands ! i = e"
    "cmdStr e = Some nm" "minArguments e = 1" "ccallback e = Some cb" and
    nm: "nm \<noteq> ''clear''" "plain nm" "\<forall>c\<in>set nm. line_char c" "length nm < 50"
    using assms(2) unfolding one_arg_def by blast
  have len: "length nm + length ds < 254" using assms(3) nm(4) by (simp add: number_def)
  have "\<forall>c\<in>set ?str. line_char c" "length ?str < 255"
    using nm(3) number_props [OF assms(3)] len by (auto simp: line_char_def)
  from console_line_ok [OF assms(1) this, of s] obtain ps where
    "foldE console_byte (command_line nm ds) (k, s) =
     bindE (processCommand (typed ?str k, s\<lparr>printed := printed s @ ps\<rparr>)) (\<lambda>(k, s). Inr (cleared k, s))"
    unfolding command_line_def by blast
  then show ?thesis
    unfolding processCommand_one_arg [OF nm(2) number_props(1) [OF assms(3)] len e nm(1)]
    by (intro exI [of _ "ps @ [crlf @ ''<'']"]) (simp add: out_def bindE_assoc case_prod_unfold)
qed

section \<open>Driving commands\<close>

lemma parse_number:
  assumes "number ds" and "digits_value ds \<le> LONG_MAX"
  shows "parseUint limit (ds @ NUL # m) c =
     Inr (digits_value ds, if errno (fst c) \<noteq> 0 \<or> digits_value ds > limit
                           then out (''Could not parse input'' @ crlf) c else c)"
  using assms digits_value_nonneg [of ds]
  by (cases c) (simp add: parseUint_def call_strtol_number)

text \<open>
  What each of the three commands does with a number that fits a \<^verbatim>\<open>long\<close>: the number, cut to 8 or 16
  bits, goes to the submodule.
\<close>

lemma number_line:
  assumes "between_lines k" and "one_arg nm cb" and "number ds"
  obtains ps m where "foldE console_byte (command_line nm ds) (k, s) =
     bindE (run_callback cb [Suc (length nm)] (split_line nm ds k, s\<lparr>printed := printed s @ ps\<rparr>))
       (\<lambda>(k, s). Inr (cleared k, s\<lparr>printed := printed s @ [''>'' @ crlf]\<rparr>))"
    and "arg [Suc (length nm)] 0 (split_line nm ds k, s\<lparr>printed := printed s @ ps\<rparr>) = Inr (ds @ NUL # m)"
proof -
  obtain ps where l: "foldE console_byte (command_line nm ds) (k, s) =
     bindE (run_callback cb [Suc (length nm)] (split_line nm ds k, s\<lparr>printed := printed s @ ps\<rparr>))
       (\<lambda>(k, s). Inr (cleared k, s\<lparr>printed := printed s @ [''>'' @ crlf]\<rparr>))"
    using one_arg_line [OF assms, of s] by blast
  have "length nm + length ds < 254" using assms(2,3) by (auto simp: number_def one_arg_def)
  from arg_split [OF this, of "[]" k "s\<lparr>printed := printed s @ ps\<rparr>"] obtain m where
    "arg [Suc (length nm)] 0 (split_line nm ds k, s\<lparr>printed := printed s @ ps\<rparr>) = Inr (ds @ NUL # m)"
    by (auto simp: arg_def out_def)
  with l that show thesis by blast
qed

definition parse_error :: "int \<Rightarrow> console \<Rightarrow> string \<Rightarrow> string list" where
  "parse_error limit k ds =
     (if errno k \<noteq> 0 \<or> digits_value ds > limit then [''Could not parse input'' @ crlf] else [])"

lemma parse_number_split:
  assumes "number ds" and "digits_value ds \<le> LONG_MAX"
  shows "parseUint limit (ds @ NUL # m) (split_line nm ds k, s) =
     Inr (digits_value ds, (split_line nm ds k, s\<lparr>printed := printed s @ parse_error limit k ds\<rparr>))"
  unfolding parse_number [OF assms] by (simp add: parse_error_def out_def)

lemma setFNR_line:
  assumes "between_lines k" and "number ds" and "digits_value ds \<le> LONG_MAX" and "of_int (digits_value ds) \<le> (2 :: u8)"
  shows "\<exists>ps. foldE console_byte (command_line ''setFNR'' ds) (k, s) =
     bindE (on_board (setFNR (of_int (digits_value ds))) (split_line ''setFNR'' ds k, s\<lparr>printed := printed s @ ps\<rparr>))
       (\<lambda>(_, k, s). Inr (cleared k, s\<lparr>printed := printed s @ [''>'' @ crlf]\<rparr>)) \<and>
     (digits_value ds > 255 \<longrightarrow> ''Could not parse input'' @ crlf \<in> set ps)"
proof -
  obtain ps m where l: "foldE console_byte (command_line ''setFNR'' ds) (k, s) =
     bindE (run_callback Console_setFNR [Suc (length ''setFNR'')] (split_line ''setFNR'' ds k, s\<lparr>printed := printed s @ ps\<rparr>))
       (\<lambda>(k, s). Inr (cleared k, s\<lparr>printed := printed s @ [''>'' @ crlf]\<rparr>))"
    and a: "arg [Suc (length ''setFNR'')] 0 (split_line ''setFNR'' ds k, s\<lparr>printed := printed s @ ps\<rparr>) = Inr (ds @ NUL # m)"
    using number_line [OF assms(1) one_arg_commands(1) assms(2)] by blast
  show ?thesis
    unfolding l run_callback.simps console_setFNR_def a ckd_simps bindE_Inr parseUint8_def
      parse_number_split [OF assms(2,3)] bindE_assoc
    using assms(4)
    by (intro exI [of _ "ps @ parse_error 255 k ds"]) (simp add: bindE_assoc case_prod_unfold parse_error_def)
qed

lemma setSpeedTarget_line:
  assumes "between_lines k" and "number ds" and "digits_value ds \<le> LONG_MAX" and "errno k = 0"
  shows "\<exists>ps. foldE console_byte (command_line ''setSpeedTarget'' ds) (k, s) =
     bindE (on_board (updateHermesSetSpeedTarget (of_int (digits_value ds)))
        (split_line ''setSpeedTarget'' ds k, s\<lparr>printed := printed s @ ps\<rparr>))
       (\<lambda>(_, k, s). Inr (cleared k, s\<lparr>printed := printed s @ [''>'' @ crlf]\<rparr>)) \<and>
     (digits_value ds > 65535 \<longrightarrow> ''Could not parse input'' @ crlf \<in> set ps)"
proof -
  obtain ps m where l: "foldE console_byte (command_line ''setSpeedTarget'' ds) (k, s) =
     bindE (run_callback Console_setSpeedTarget [Suc (length ''setSpeedTarget'')]
        (split_line ''setSpeedTarget'' ds k, s\<lparr>printed := printed s @ ps\<rparr>))
       (\<lambda>(k, s). Inr (cleared k, s\<lparr>printed := printed s @ [''>'' @ crlf]\<rparr>))"
    and a: "arg [Suc (length ''setSpeedTarget'')] 0 (split_line ''setSpeedTarget'' ds k, s\<lparr>printed := printed s @ ps\<rparr>) =
      Inr (ds @ NUL # m)"
    using number_line [OF assms(1) one_arg_commands(2) assms(2)] by blast
  show ?thesis
    unfolding l run_callback.simps console_setSpeedTarget_def a ckd_simps bindE_Inr parseUint16_def
      parse_number_split [OF assms(2,3)] bindE_assoc
    using assms(4)
    by (intro exI [of _ "ps @ parse_error 65535 k ds @ [''sent '' @ decimal (unat (of_int (digits_value ds) :: u16))]"])
      (simp add: bindE_assoc case_prod_unfold parse_error_def out_def)
qed

lemma setSteerTarget_line:
  assumes "between_lines k" and "number ds" and "errno k = 0" and "digits_value ds < 180"
  shows "\<exists>ps. foldE console_byte (command_line ''setSteerTarget'' ds) (k, s) =
     bindE (on_board (setHephaestusSteering (of_int (digits_value ds)))
        (split_line ''setSteerTarget'' ds k, s\<lparr>printed := printed s @ ps\<rparr>))
       (\<lambda>(st, k, s). Inr (cleared k, s\<lparr>printed := printed s @
          (if st \<noteq> COMMS_OK then [''setHephaestusSteering Failed'' @ crlf] else []) @ [''>'' @ crlf]\<rparr>))"
proof -
  have long: "digits_value ds \<le> LONG_MAX" using assms(4) by (simp add: LONG_MAX_def)
  have "uint (of_int (digits_value ds) :: u8) = digits_value ds"
    using assms(4) digits_value_nonneg [of ds] by (simp add: word_of_int_inverse)
  then have small: "(of_int (digits_value ds) :: u8) < 180" using assms(4) by (simp add: word_less_def)
  obtain ps m where l: "foldE console_byte (command_line ''setSteerTarget'' ds) (k, s) =
     bindE (run_callback Console_setSteerTarget [Suc (length ''setSteerTarget'')]
        (split_line ''setSteerTarget'' ds k, s\<lparr>printed := printed s @ ps\<rparr>))
       (\<lambda>(k, s). Inr (cleared k, s\<lparr>printed := printed s @ [''>'' @ crlf]\<rparr>))"
    and a: "arg [Suc (length ''setSteerTarget'')] 0 (split_line ''setSteerTarget'' ds k, s\<lparr>printed := printed s @ ps\<rparr>) =
      Inr (ds @ NUL # m)"
    using number_line [OF assms(1) one_arg_commands(3) assms(2)] by blast
  show ?thesis
    unfolding l run_callback.simps console_setSteerTarget_def a ckd_simps bindE_Inr parseUint8_def
      parse_number_split [OF assms(2) long] bindE_assoc
    using assms(3,4) small
    by (intro exI [of _ ps]; cases "on_board (setHephaestusSteering (of_int (digits_value ds)))
        (split_line ''setSteerTarget'' ds k, s\<lparr>printed := printed s @ ps\<rparr>)")
      (auto simp: parse_error_def out_def)
qed

section \<open>A number that does not fit\<close>

lemma parse_too_big:
  assumes "number ds" and "errno k \<noteq> 0 \<or> digits_value ds > LONG_MAX"
  shows "\<exists>num e. parseUint limit (ds @ NUL # m) (k, s) =
     Inr (num, (k\<lparr>errno := e\<rparr>, s\<lparr>printed := printed s @ [''Could not parse input'' @ crlf]\<rparr>)) \<and> e \<noteq> 0"
proof (cases "digits_value ds > LONG_MAX")
  case True
  then show ?thesis unfolding parseUint_def call_strtol_number [OF assms(1)]
    by (intro exI [of _ LONG_MAX] exI [of _ ERANGE]) (simp add: ERANGE_def out_def)
next
  case False
  then show ?thesis using assms(2) unfolding parseUint_def call_strtol_number [OF assms(1)]
    by (intro exI [of _ "digits_value ds"] exI [of _ "errno k"]) (simp add: out_def)
qed

lemma setSpeedTarget_too_big:
  assumes "between_lines k" and "number ds" and "errno k \<noteq> 0 \<or> digits_value ds > LONG_MAX"
  shows "\<exists>k' ps. foldE console_byte (command_line ''setSpeedTarget'' ds) (k, s) =
     Inr (k', s\<lparr>printed := printed s @ ps\<rparr>) \<and> between_lines k' \<and> errno k' \<noteq> 0"
proof -
  obtain ps m where l: "foldE console_byte (command_line ''setSpeedTarget'' ds) (k, s) =
     bindE (run_callback Console_setSpeedTarget [Suc (length ''setSpeedTarget'')]
        (split_line ''setSpeedTarget'' ds k, s\<lparr>printed := printed s @ ps\<rparr>))
       (\<lambda>(k, s). Inr (cleared k, s\<lparr>printed := printed s @ [''>'' @ crlf]\<rparr>))"
    and a: "arg [Suc (length ''setSpeedTarget'')] 0 (split_line ''setSpeedTarget'' ds k, s\<lparr>printed := printed s @ ps\<rparr>) =
      Inr (ds @ NUL # m)"
    using number_line [OF assms(1) one_arg_commands(2) assms(2)] by blast
  let ?k = "split_line ''setSpeedTarget'' ds k"
  obtain num e where p: "parseUint 65535 (ds @ NUL # m) (?k, s\<lparr>printed := printed s @ ps\<rparr>) =
      Inr (num, (?k\<lparr>errno := e\<rparr>, s\<lparr>printed := printed s @ ps @ [''Could not parse input'' @ crlf]\<rparr>))" "e \<noteq> 0"
    using parse_too_big [OF assms(2), of ?k 65535 m "s\<lparr>printed := printed s @ ps\<rparr>"] assms(3) by auto
  show ?thesis
    unfolding l run_callback.simps console_setSpeedTarget_def a ckd_simps bindE_Inr parseUint16_def p(1)
    using p(2) by (auto simp: cleared_split)
qed

text \<open>
  One number out of range ends the speed commands for good: \<^verbatim>\<open>strtol\<close> sets \<^verbatim>\<open>errno\<close>, no code ever
  resets it, and from then on every \<^verbatim>\<open>setSpeedTarget\<close> only prints; nothing reaches the bus.
\<close>

theorem console_errno_is_sticky:
  assumes "between_lines k" and "number big" and "digits_value big > LONG_MAX" and "number ds"
  shows "\<exists>k' ps. foldE console_byte (command_line ''setSpeedTarget'' big @ command_line ''setSpeedTarget'' ds) (k, s) =
     Inr (k', s\<lparr>printed := printed s @ ps\<rparr>) \<and> between_lines k' \<and> errno k' \<noteq> 0"
proof -
  obtain k1 ps where one: "foldE console_byte (command_line ''setSpeedTarget'' big) (k, s) =
      Inr (k1, s\<lparr>printed := printed s @ ps\<rparr>)" "between_lines k1" "errno k1 \<noteq> 0"
    using setSpeedTarget_too_big [OF assms(1,2)] assms(3) by blast
  obtain k2 qs where "foldE console_byte (command_line ''setSpeedTarget'' ds) (k1, s\<lparr>printed := printed s @ ps\<rparr>) =
      Inr (k2, s\<lparr>printed := printed s @ (ps @ qs)\<rparr>)" "between_lines k2" "errno k2 \<noteq> 0"
    using setSpeedTarget_too_big [OF one(2) assms(4), of "s\<lparr>printed := printed s @ ps\<rparr>"] one(3) by auto
  with one(1) show ?thesis by (auto simp: foldE_append)
qed

theorem console_errno_is_sticky_witness:
  "\<exists>k' ps. foldE console_byte (map byte_of ''[setSpeedTarget,9999999999][setSpeedTarget,1000]'')
     (console_start, olympus_start (mspi_idle [] [] [])) =
   Inr (k', (olympus_start (mspi_idle [] [] []))\<lparr>printed := printed (olympus_start (mspi_idle [] [] [])) @ ps\<rparr>)"
proof -
  have n: "number ''9999999999''" "number ''1000''" by (simp_all add: number_def isdigit_def)
  have v: "digits_value ''9999999999'' > LONG_MAX" by (simp add: digits_value_def LONG_MAX_def)
  have "map byte_of ''[setSpeedTarget,9999999999][setSpeedTarget,1000]'' =
      command_line ''setSpeedTarget'' ''9999999999'' @ command_line ''setSpeedTarget'' ''1000''"
    by (simp add: command_line_def)
  with console_errno_is_sticky [OF console_start_ready(1) n(1) v n(2)] show ?thesis by metis
qed

section \<open>Lines that do not fit\<close>

lemma store_char_last:
  assumes "length str = 254"
  shows "store_char (byte_of c) (typed str k, s) =
     redraw ((typed str k)\<lparr>cmdBuffer := str @ [c], cmdBufferIdx := 255\<rparr>, s)"
  using assms by (simp add: store_char_def CONSOLE_MAX_CMD_LEN_def)

lemma matchCommand_unterminated:
  assumes "plain m"
  shows "matchCommand m = Inl OutOfBounds"
proof -
  have eq: "takeWhile (\<lambda>c. c \<noteq> CHR '','' \<and> c \<noteq> NUL) m = m"
    using assms by (auto simp: plain_def takeWhile_eq_all_conv)
  show ?thesis unfolding matchCommand_def strchr_def Let_def eq by simp
qed

text \<open>
  The line buffer has no room for a terminating zero: the 255th character of a line without a comma
  makes \<^verbatim>\<open>matchCommand\<close> search beyond the end of the buffer.
\<close>

theorem console_long_line_faults:
  assumes "between_lines k" and "length str = 255" and "\<forall>c\<in>set str. line_char c" and "plain str"
  shows "foldE console_byte (map byte_of (CHR ''['' # str)) (k, s) = Inl (Faulted OutOfBounds)"
proof -
  define xs c where "xs = butlast str" and "c = last str"
  have str: "str = xs @ [c]" "length xs = 254" using assms(2) by (simp_all add: xs_def c_def flip: length_greater_0_conv)
  have lc: "\<forall>c\<in>set xs. line_char c" "line_char c" using assms(3) str(1) by auto
  obtain ps where l: "foldE console_byte (map byte_of (CHR ''['' # xs)) (k, s) =
      Inr (typed xs k, s\<lparr>printed := printed s @ ps\<rparr>)"
    using only_printsE [OF line_typed [OF assms(1) lc(1)]] str(2) by auto
  obtain qs where e: "echo (byte_of c) (typed xs k, s\<lparr>printed := printed s @ ps\<rparr>) =
      Inr (typed xs k, s\<lparr>printed := printed s @ ps @ qs\<rparr>)"
    using only_printsE [OF echo_ok [of "(typed xs k, s\<lparr>printed := printed s @ ps\<rparr>)" "byte_of c"]] by auto
  have ne: "byte_of c \<noteq> 0x7F" "byte_of c \<noteq> byte_of (CHR '']'')"
    using lc(2) byte_of_inj [of c "CHR 0x7F"] byte_of_inj [of c "CHR '']''"] by (auto simp: line_char_def)
  have "console_byte (byte_of c) (typed xs k, s\<lparr>printed := printed s @ ps\<rparr>) =
      redraw ((typed xs k)\<lparr>cmdBuffer := str, cmdBufferIdx := 255\<rparr>, s\<lparr>printed := printed s @ ps @ qs\<rparr>)"
    unfolding console_byte_def e bindE_Inr using ne store_char_last [OF str(2)] str(1) by simp
  also have "\<dots> = Inl (Faulted OutOfBounds)"
    using matchCommand_unterminated [OF assms(4)] by (simp add: redraw_def)
  finally have "console_byte (byte_of c) (typed xs k, s\<lparr>printed := printed s @ ps\<rparr>) = Inl (Faulted OutOfBounds)" .
  moreover have "map byte_of (CHR ''['' # str) = map byte_of (CHR ''['' # xs) @ [byte_of c]"
    by (simp add: str(1))
  ultimately show ?thesis by (simp only: foldE_append l bindE_Inr foldE_single)
qed

theorem console_long_line_faults_witness:
  "foldE console_byte (map byte_of (CHR ''['' # replicate 255 (CHR ''a''))) (console_start, olympus_start (mspi_idle [] [] []))
   = Inl (Faulted OutOfBounds)"
  by (rule console_long_line_faults [OF console_start_ready(1)])
    (simp_all add: line_char_def plain_def NUL_def)

section \<open>The shape of the buffer\<close>

definition cmd_ok :: "console \<Rightarrow> bool" where
  "cmd_ok k \<longleftrightarrow> length (cmdBuffer k) = 255 \<and> cmdBufferIdx k \<le> 255"

text \<open>\<open>keeps_line k r\<close>: when \<open>r\<close> is a result, its console has the line of \<open>k\<close>.\<close>

definition same_line :: "console \<Rightarrow> console \<Rightarrow> bool" where
  "same_line k k' \<longleftrightarrow> cmdBuffer k' = cmdBuffer k \<and> cmdBufferIdx k' = cmdBufferIdx k"

definition keeps_line :: "console \<Rightarrow> ('z con stop + 'a) \<Rightarrow> ('a \<Rightarrow> console) \<Rightarrow> bool" where
  "keeps_line k r g = (case r of Inl e \<Rightarrow> True | Inr x \<Rightarrow> same_line k (g x))"

lemma keeps_Inl [simp]: "keeps_line k (Inl e) g"
  by (simp add: keeps_line_def)

lemma keeps_Inr [simp]: "keeps_line k (Inr x) g = same_line k (g x)"
  by (simp add: keeps_line_def)

lemma same_line_refl [simp]: "same_line k k"
  by (simp add: same_line_def)

lemma same_line_trans: "same_line k l \<Longrightarrow> same_line l m \<Longrightarrow> same_line k m"
  by (simp add: same_line_def)

lemma keeps_bind:
  assumes "keeps_line k r g" and "\<And>x. same_line k (g x) \<Longrightarrow> keeps_line (g x) (f x) h"
  shows "keeps_line k (bindE r f) h"
proof (cases r)
  case (Inr x)
  with assms have "same_line k (g x)" "keeps_line (g x) (f x) h" by simp_all
  with Inr show ?thesis by (cases "f x") (auto intro: same_line_trans)
qed simp

lemma keeps_ckd: "(\<And>x. keeps_line k (f x) h) \<Longrightarrow> keeps_line k (bindE (ckd r) f) h"
  by (cases r) auto

lemma fst_out [simp]: "fst (out str c) = fst c"
  by (simp add: out_def case_prod_unfold)

lemma keeps_on_board: "keeps_line (fst c) (on_board f c) (\<lambda>x. fst (snd x))"
  by (simp add: on_board_def case_prod_unfold keeps_line_def split: sum.splits)

lemma keeps_strtol: "keeps_line (fst c) (call_strtol str c) (\<lambda>x. fst (snd x))"
  unfolding call_strtol_def case_prod_unfold
  by (rule keeps_ckd) (simp add: same_line_def)

lemma keeps_parse:
  "keeps_line (fst c) (parseUint limit str c) (\<lambda>x. fst (snd x))"
  unfolding parseUint_def by (rule keeps_bind [OF keeps_strtol]) (simp add: case_prod_unfold)

lemma keeps_parse8: "keeps_line (fst c) (parseUint8 str c) (\<lambda>x. fst (snd x))"
  unfolding parseUint8_def by (rule keeps_bind [OF keeps_parse]) (simp add: case_prod_unfold)

lemma keeps_parse16: "keeps_line (fst c) (parseUint16 str c) (\<lambda>x. fst (snd x))"
  unfolding parseUint16_def by (rule keeps_bind [OF keeps_parse]) (simp add: case_prod_unfold)

lemma keeps_power_line: "keeps_line (fst c) (power_line name i c) fst"
  unfolding power_line_def by (intro keeps_ckd) simp

lemma fst_fold_out: "fst (fold (\<lambda>e. out (f e)) es c) = fst c"
  by (induction es arbitrary: c) auto

lemma keeps_bind_at:
  assumes "keeps_line (fst c) r g" and "fst c = k" and "\<And>x. same_line k (g x) \<Longrightarrow> keeps_line (g x) (f x) h"
  shows "keeps_line k (bindE r f) h"
  using assms keeps_bind by blast

lemmas keeps_intros = keeps_ckd keeps_bind_at [OF keeps_on_board] keeps_bind_at [OF keeps_strtol]
  keeps_bind_at [OF keeps_parse8] keeps_bind_at [OF keeps_parse16] keeps_bind_at [OF keeps_power_line]

lemma keeps_driving:
  "keeps_line (fst c) (console_setFNR argv c) fst"
  "keeps_line (fst c) (console_setSpeedTarget argv c) fst"
  "keeps_line (fst c) (console_setSteerTarget argv c) fst"
  "keeps_line (fst c) (console_setEchoMode argv c) fst"
  unfolding console_setFNR_def console_setSpeedTarget_def console_setSteerTarget_def
    console_setEchoMode_def case_prod_unfold
  subgoal by (intro keeps_intros; auto intro!: keeps_intros)
  subgoal by (intro keeps_intros; auto intro!: keeps_intros)
  subgoal by (intro keeps_intros; auto intro!: keeps_intros)
  subgoal by (intro keeps_intros; auto simp: same_line_def)
  done

lemma keeps_setLED: "keeps_line (fst c) (console_setLED argv c) fst"
  unfolding console_setLED_def atoi_def case_prod_unfold Let_def if_distrib [of "\<lambda>r. bindE r f" for f]
  by (intro keeps_intros; auto intro!: keeps_intros)

lemma keeps_others:
  "keeps_line (fst c) (console_setSegment argv c) fst"
  "keeps_line (fst c) (console_getPower argv c) fst"
  "keeps_line (fst c) (console_kill argv c) fst"
  unfolding console_setSegment_def console_getPower_def console_kill_def case_prod_unfold Let_def
  subgoal by (intro keeps_intros; auto intro!: keeps_intros)
  subgoal by (intro keeps_intros; auto intro!: keeps_intros keeps_power_line)
  subgoal by (intro keeps_intros; auto intro!: keeps_intros)
  done

lemma keeps_run_callback: "keeps_line (fst c) (run_callback cb argv c) fst"
  by (cases cb) (simp_all add: keeps_driving keeps_setLED keeps_others console_getSpeed_def console_getFNR_def
    console_getSpeedTarget_def console_getSteerPot_def console_help_def console_clear_def fst_fold_out)

lemma keeps_redraw_char: "keeps_line (fst c) (redraw_char ch c) fst"
  unfolding redraw_char_def by (auto intro!: keeps_ckd)

lemma keeps_redraw_chars: "keeps_line (fst c) (foldE redraw_char str c) fst"
  by (induction str arbitrary: c) (auto intro!: keeps_bind [OF keeps_redraw_char])

lemma keeps_redraw: "keeps_line (fst c) (redraw c) fst"
proof -
  have "keeps_line (fst c) (rewriteBuffer m color c) fst" for m color
    unfolding rewriteBuffer_def Let_def
    using keeps_redraw_chars [of "out str (out str' c)" for str str'] keeps_redraw_chars [of "out str c" for str]
    by (auto intro!: keeps_ckd)
  then show ?thesis unfolding redraw_def by (intro keeps_ckd)
qed

lemma keeps_echo: "keeps_line (fst c) (echo data c) fst"
  unfolding echo_def by (auto intro!: keeps_ckd)

lemma cmd_ok_same: "same_line k k' \<Longrightarrow> cmd_ok k \<Longrightarrow> cmd_ok k'"
  by (simp add: same_line_def cmd_ok_def)

lemma argv_from_length: "argv_from n p m = Inr (t, args) \<Longrightarrow> length t = length m"
  by (induction n p m arbitrary: t args rule: argv_from.induct)
    (auto simp: bindE_eq_Inr split: if_splits)

lemma createArgv_length: "createArgv m = Inr (t, args) \<Longrightarrow> length t = length m"
  by (auto simp: createArgv_def bindE_eq_Inr split: if_splits dest: argv_from_length)

definition oks :: "('z con stop + 'a) \<Rightarrow> ('a \<Rightarrow> console) \<Rightarrow> bool" where
  "oks r g = (case r of Inl e \<Rightarrow> True | Inr x \<Rightarrow> cmd_ok (g x))"

lemma oks_simps [simp]: "oks (Inl e) g" "oks (Inr x) g = cmd_ok (g x)"
  by (simp_all add: oks_def)

lemma oks_bind: "oks r g \<Longrightarrow> (\<And>x. cmd_ok (g x) \<Longrightarrow> oks (f x) h) \<Longrightarrow> oks (bindE r f) h"
  by (cases r) auto

lemma oks_ckd: "(\<And>x. r = Inr x \<Longrightarrow> oks (f x) h) \<Longrightarrow> oks (bindE (ckd r) f) h"
  by (cases r) auto

lemma oks_keeps: "keeps_line k r g \<Longrightarrow> cmd_ok k \<Longrightarrow> oks r g"
  by (cases r) (auto intro: cmd_ok_same)

lemma run_matched_ok:
  assumes "cmd_ok (fst c)"
  shows "oks (run_matched e c) fst"
  unfolding run_matched_def case_prod_unfold Let_def
proof (rule oks_ckd)
  fix x
  assume "createArgv (cmdBuffer (fst c)) = Inr x"
  then have ok: "cmd_ok (fst (out (crlf @ ''<'') ((fst c)\<lparr>cmdBuffer := fst x\<rparr>, snd c)))"
    using assms createArgv_length by (cases x) (simp add: cmd_ok_def)
  show "oks (bindE (if length (snd x) < minArguments e
            then Inr (out (''ERROR: Need '' @ decimal (minArguments e) @ '' Args'')
              (out (crlf @ ''<'') ((fst c)\<lparr>cmdBuffer := fst x\<rparr>, snd c)))
            else case ccallback e of None \<Rightarrow> Inl (Faulted NullDeref)
               | Some cb \<Rightarrow> run_callback cb (snd x) (out (crlf @ ''<'') ((fst c)\<lparr>cmdBuffer := fst x\<rparr>, snd c)))
      (\<lambda>c. Inr (if cmdStr e \<noteq> Some ''clear'' then out (''>'' @ crlf) c else c))) fst"
    by (rule oks_bind [of _ fst]) (use ok oks_keeps [OF keeps_run_callback ok] in \<open>auto split: option.splits\<close>)
qed

lemma processCommand_cmd_ok:
  assumes "cmd_ok (fst c)"
  shows "oks (processCommand c) fst"
  unfolding processCommand_def
  by (intro oks_ckd oks_bind [of _ fst]) (use run_matched_ok [OF assms] assms in \<open>auto intro!: oks_ckd\<close>)

lemma console_byte_cmd_ok:
  assumes "cmd_ok (fst c)"
  shows "oks (console_byte b c) fst"
proof -
  have redraw: "oks (redraw d) fst" if "cmd_ok (fst d)" for d :: "'a con"
    using oks_keeps [OF keeps_redraw that] .
  have "oks (backspace c) fst"
    unfolding backspace_def case_prod_unfold Let_def using assms
    by (auto intro!: oks_ckd redraw dest!: wr_length simp: cmd_ok_def)
  moreover have "oks (store_char b d) fst" if "cmd_ok (fst d)" for d :: "'a con"
    unfolding store_char_def case_prod_unfold
    by (rule oks_bind [of _ fst])
      (use that redraw in \<open>auto intro!: oks_ckd dest!: wr_length simp: cmd_ok_def CONSOLE_MAX_CMD_LEN_def\<close>)
  moreover have "oks (end_of_line d) fst" if "cmd_ok (fst d)" for d :: "'a con"
    unfolding end_of_line_def
    by (rule oks_bind [OF processCommand_cmd_ok])
      (use that in \<open>auto simp: cmd_ok_def CONSOLE_MAX_CMD_LEN_def case_prod_unfold\<close>)
  moreover have "oks (echo b c) fst" using oks_keeps [OF keeps_echo assms] .
  ultimately show ?thesis
    unfolding console_byte_def
    by (auto intro!: oks_bind [of "echo b c" fst] simp: cmd_ok_def case_prod_unfold split: ConsoleState.splits)
qed



section \<open>The loop over the serial port\<close>

text \<open>
  The console and the serial port together: \<^verbatim>\<open>consoleProcessBytes\<close> ends, and has handled exactly the
  unread bytes of the port, in order, leaving none.
\<close>

theorem console_handles_unread_bytes:
  assumes "rx_wf u" and "length (unread u) < fuel" and "foldE console_byte (unread u) c = Inr c'"
  shows "\<exists>u'. consoleProcessBytes fuel u c = Some (Inr (u', c')) \<and> rx_wf u' \<and> unread u' = []"
  using usart_rx.drain_all [OF assms(1,2), of console_byte c] assms(3)
  unfolding consoleProcessBytes_def by blast

theorem console_handles_unread_bytes_witness:
  "\<exists>u' ps. consoleProcessBytes 5 (fold dma_rx_byte (map byte_of ''[get'') (snd (commsUsartInit (\<lambda>_. 0, usart_start))))
       (console_start, olympus_start (mspi_idle [] [] [])) =
     Some (Inr (u', (typed ''get'' console_start, (olympus_start (mspi_idle [] [] []))\<lparr>printed := ps\<rparr>)))"
proof -
  let ?s = "olympus_start (mspi_idle [] [] [])"
  let ?i = "snd (commsUsartInit (\<lambda>_. 0, usart_start))"
  let ?u = "fold dma_rx_byte (map byte_of ''[get'') ?i"
  have "length (unread ?i) + length (map byte_of ''[get'') < 1024" by (simp add: usart_init_rx)
  from dma_rx_bytes_ok [OF usart_init_rx(1) this] have u: "rx_wf ?u" "unread ?u = map byte_of ''[get''"
    by (simp_all only: usart_init_rx append_Nil)
  have "\<forall>c\<in>set ''get''. line_char c" by (simp add: line_char_def)
  then obtain ps where "foldE console_byte (map byte_of (CHR ''['' # ''get'')) (console_start, ?s) =
      Inr (typed ''get'' console_start, ?s\<lparr>printed := printed ?s @ ps\<rparr>)"
    using only_printsE [OF line_typed [OF console_start_ready(1), of "''get''" ?s]] by auto
  with console_handles_unread_bytes [OF u(1), of 5 "(console_start, ?s)"] u(2) show ?thesis by fastforce
qed

section \<open>Two arguments, and too many\<close>

lemma createArgv_two:
  assumes "plain nm" and "plain a" and "plain b"
  shows "createArgv (nm @ CHR '','' # a @ CHR '','' # b @ NUL # m) =
     Inr (nm @ NUL # a @ NUL # b @ NUL # m, [Suc (length nm), Suc (Suc (length nm + length a))])"
  using argv_from_plain [OF assms(1), of 0 0 "CHR '','' # a @ CHR '','' # b @ NUL # m"]
    argv_from_plain [OF assms(2), of 1 "Suc (length nm)" "CHR '','' # b @ NUL # m"]
    argv_from_plain [OF assms(3), of 2 "Suc (Suc (length nm + length a))" "NUL # m"]
  by (simp add: createArgv_def CONSOLE_MAX_NUM_ARGS_def NUL_def numeral_2_eq_2)

text \<open>
  \<^verbatim>\<open>setSegment\<close> cannot set the second digit: it takes two arguments, but hands \<^verbatim>\<open>setSevenSeg\<close> the memory at
  the first, where the comma after the first digit has become a zero. The left display shows the first
  digit; the right one is set from the zero, whatever the second argument is.
\<close>

theorem console_second_digit_ignored:
  assumes "between_lines k" and "plain [x]" "plain [y]" and "line_char x" "line_char y"
  shows "\<exists>k' ps. foldE console_byte (map byte_of (''[setSegment,'' @ [x, CHR '','', y, CHR '']''])) (k, s) =
     Inr (k', s\<lparr>oregs := show_digit GPIOD NUL (show_digit GPIOE x (oregs s)), printed := printed s @ ps\<rparr>)"
proof -
  let ?str = "''setSegment'' @ CHR '','' # [x] @ CHR '','' # [y]"
  have nm: "plain ''setSegment''" by (simp add: plain_def NUL_def)
  define m where "m = replicate 240 NUL"
  have m: "replicate (255 - length ?str) NUL = NUL # m"
    using replicate_Suc [of 240 NUL] by (simp add: m_def)
  have "\<forall>c\<in>set ?str. line_char c" "length ?str < 255" using assms(4,5) by (auto simp: line_char_def)
  from console_line_ok [OF assms(1) this, of s] obtain ps where
    l: "foldE console_byte (map byte_of (CHR ''['' # ?str @ [CHR '']''])) (k, s) =
     bindE (processCommand (typed ?str k, s\<lparr>printed := printed s @ ps\<rparr>)) (\<lambda>(k, s). Inr (cleared k, s))"
    by blast
  have "command_name ?str = ''setSegment''" by (simp add: command_name_def upto_def NUL_def)
  moreover have "find_command ''setSegment'' 0 commands = 0" by (simp add: commands_def cmd_def)
  ultimately have mc: "matchCommand (cmdBuffer (typed ?str k)) = Inr 0"
    using matchCommand_eq [OF nul_in_typed [of ?str k]] command_name_typed [of ?str] by simp
  have ca: "command_at 0 = Inr (cmd ''setSegment'' (Some ''char1<a-f|0-9>, char2<a-f|0-9>'') 2 Console_setSegment)"
    by (simp add: command_at_def commands_def)
  let ?buf = "''setSegment'' @ NUL # [x] @ NUL # [y] @ NUL # m"
  have ar: "createArgv (cmdBuffer (typed ?str k)) = Inr (?buf, [11, 13])"
    using createArgv_two [OF nm assms(2,3), of m] m by simp
  have "console_setSegment [11, 13] ((typed ?str k)\<lparr>cmdBuffer := ?buf\<rparr>, t) =
      Inr ((typed ?str k)\<lparr>cmdBuffer := ?buf\<rparr>,
        t\<lparr>oregs := show_digit GPIOD NUL (show_digit GPIOE x (oregs t))\<rparr>)" for t :: "'a olympus_scheme"
    by (simp add: console_setSegment_def arg_def on_board_def setSevenSeg_def numeral_eq_Suc)
  then have pc: "processCommand (typed ?str k, t) = Inr ((typed ?str k)\<lparr>cmdBuffer := ?buf\<rparr>,
      t\<lparr>oregs := show_digit GPIOD NUL (show_digit GPIOE x (oregs t)),
        printed := printed t @ [crlf @ ''<'', ''>'' @ crlf]\<rparr>)" for t :: "'a olympus_scheme"
    unfolding processCommand_def fst_conv mc ca ckd_simps bindE_Inr run_matched_def Let_def prod.case ar cmd_def
    by (simp add: out_def)
  show ?thesis
    using l unfolding pc bindE_Inr prod.case
    by (intro exI [of _ "cleared ((typed ?str k)\<lparr>cmdBuffer := ?buf\<rparr>)"]
      exI [of _ "ps @ [crlf @ ''<'', ''>'' @ crlf]"]) simp
qed

text \<open>With 32 commas the terminating null pointer of \<^verbatim>\<open>argv\<close> is written behind the array.\<close>

lemma argv_from_commas:
  "j + i \<le> CONSOLE_MAX_NUM_ARGS \<Longrightarrow> argv_from j p (replicate i (CHR '','') @ m) =
   bindE (argv_from (j + i) (p + i) m) (\<lambda>(t, args). Inr (replicate i NUL @ t, map Suc [p..<p + i] @ args))"
proof (induction i arbitrary: j p)
  case 0
  show ?case by (cases "argv_from j p m") auto
next
  case (Suc i)
  then have "argv_from (Suc j) (Suc p) (replicate i (CHR '','') @ m) =
    bindE (argv_from (Suc j + i) (Suc p + i) m) (\<lambda>(t, args). Inr (replicate i NUL @ t, map Suc [Suc p..<Suc p + i] @ args))"
    by simp
  moreover have "[p..<p + Suc i] = p # [Suc p..<Suc p + i]" by (simp add: upt_rec)
  moreover have "j < CONSOLE_MAX_NUM_ARGS" using Suc.prems by simp
  ultimately show ?case
    by (cases "argv_from (Suc (j + i)) (Suc (p + i)) m") (auto simp: NUL_def)
qed

lemma createArgv_overflow:
  assumes "plain nm"
  shows "createArgv (nm @ replicate 32 (CHR '','') @ m) = Inl OutOfBounds"
proof -
  have "argv_from 32 p m = Inr (m, [])" for p by (cases m) (simp_all add: CONSOLE_MAX_NUM_ARGS_def)
  then have "argv_from 0 p (replicate 32 (CHR '','') @ m) = Inr (replicate 32 NUL @ m, map Suc [p..<p + 32])" for p
    using argv_from_commas [of 0 32 p m] by (simp add: CONSOLE_MAX_NUM_ARGS_def)
  then show ?thesis
    using argv_from_plain [OF assms, of 0 0 "replicate 32 (CHR '','') @ m"]
    by (simp add: createArgv_def CONSOLE_MAX_NUM_ARGS_def)
qed

end
