(* ===== verification/UsartSend.thy ===== *)
theory UsartSend
  imports Usart
begin

text \<open>
  The sending side of the serial port as a queue: the four buffers, seen in the order in which the
  DMA stream will send them, hold the bytes that have been written and have not left on the line.
  The theory proves that order is kept, that everything written is sent, that the loop of
  \<^verbatim>\<open>usartWrite\<close> always ends, and what an overrun of the buffers does.
\<close>

section \<open>The buffers in sending order\<close>

definition slot :: "usart \<Rightarrow> nat \<Rightarrow> nat" where
  "slot s i = (dmaTxBuffer s + i) mod 4"

definition slot_len :: "usart \<Rightarrow> nat \<Rightarrow> nat" where
  "slot_len s i = txBufferLengths s ! slot s i"

definition queued :: "usart \<Rightarrow> nat \<Rightarrow> u8 list" where
  "queued s i = take (slot_len s i) (txBuffers s ! slot s i)"

definition tx_shape :: "usart \<Rightarrow> bool" where
  "tx_shape s \<longleftrightarrow> length (txBuffers s) = 4 \<and> (\<forall>b\<in>set (txBuffers s). length b = 2048) \<and>
     length (txBufferLengths s) = 4 \<and> (\<forall>n\<in>set (txBufferLengths s). n \<le> 2048) \<and>
     dmaTxBuffer s < 4 \<and> nextTxBuffer s < 4"

text \<open>\<open>filling s k\<close>: the next byte goes to the buffer \<open>k\<close> places after the one being sent.\<close>

definition filling :: "usart \<Rightarrow> nat \<Rightarrow> bool" where
  "filling s k \<longleftrightarrow> k < 4 \<and> nextTxBuffer s = slot s k \<and> (\<forall>i. 0 < i \<and> i < k \<longrightarrow> slot_len s i = 2048) \<and>
     slot_len s k < 2048 \<and> (\<forall>i. k < i \<and> i < 4 \<longrightarrow> slot_len s i = 0)"

definition tx_free :: "usart \<Rightarrow> nat" where
  "tx_free s = (4 - (nextTxBuffer s + 4 - dmaTxBuffer s) mod 4) * 2048 - txBufferLengths s ! nextTxBuffer s"

lemma slot_less [simp]: "slot s i < 4"
  by (simp add: slot_def)

lemma slot_inj: "i < 4 \<Longrightarrow> j < 4 \<Longrightarrow> slot s i = slot s j \<longleftrightarrow> i = j"
  unfolding slot_def using mod_add_eq_cancel [of "dmaTxBuffer s" i 4 j] by auto

lemma next_tx_slot: "next_tx (slot s i) = slot s (Suc i)"
  unfolding next_tx_def slot_def usart_sizes by presburger

lemma slot_0: "tx_shape s \<Longrightarrow> slot s 0 = dmaTxBuffer s"
  by (simp add: slot_def tx_shape_def)

lemma slot_4: "tx_shape s \<Longrightarrow> slot s 4 = dmaTxBuffer s"
  by (simp add: slot_def tx_shape_def)

lemma slot_eq_dma: "tx_shape s \<Longrightarrow> 0 < i \<Longrightarrow> i \<le> 4 \<Longrightarrow> slot s i = dmaTxBuffer s \<longleftrightarrow> i = 4"
  unfolding tx_shape_def slot_def by (auto simp: mod_if split: if_splits)

lemma slot_surj: "tx_shape s \<Longrightarrow> j < 4 \<Longrightarrow> \<exists>i<4. slot s i = j"
  by (rule exI [of _ "(j + 4 - dmaTxBuffer s) mod 4"]) (auto simp: tx_shape_def slot_def mod_simps)

lemma tx_free_filling:
  assumes "tx_shape s" and "filling s k"
  shows "tx_free s = (4 - k) * 2048 - slot_len s k"
proof -
  have "(slot s k + 4 - dmaTxBuffer s) mod 4 = k"
    using assms unfolding tx_shape_def filling_def slot_def by (auto simp: mod_if split: if_splits)
  with assms show ?thesis by (simp add: tx_free_def filling_def slot_len_def)
qed

lemma tx_shape_slot:
  assumes "tx_shape s"
  shows "slot s i < length (txBuffers s)" "slot s i < length (txBufferLengths s)"
    "length (txBuffers s ! slot s i) = 2048" "slot_len s i \<le> 2048"
  using assms by (simp_all add: tx_shape_def slot_len_def)

section \<open>One round of the loop\<close>

text \<open>The state after \<open>bytes\<close> have been added to the buffer \<open>k\<close>.\<close>

definition added :: "usart \<Rightarrow> nat \<Rightarrow> u8 list \<Rightarrow> usart" where
  "added s k bytes =
     (let j = slot s k; len = slot_len s k; buf = txBuffers s ! j in
      s\<lparr>txBuffers := (txBuffers s)[j := take len buf @ bytes @ drop (len + length bytes) buf],
        txBufferLengths := (txBufferLengths s)[j := len + length bytes]\<rparr>)"

lemma added_simps [simp]:
  "slot (added s k bs) i = slot s i" "dmaTxBuffer (added s k bs) = dmaTxBuffer s"
  "nextTxBuffer (added s k bs) = nextTxBuffer s" "txDmaActive (added s k bs) = txDmaActive s"
  "slot (s\<lparr>nextTxBuffer := n\<rparr>) i = slot s i" "slot_len (s\<lparr>nextTxBuffer := n\<rparr>) i = slot_len s i"
  "queued (s\<lparr>nextTxBuffer := n\<rparr>) = queued s"
  by (simp_all add: added_def Let_def slot_def slot_len_def queued_def fun_eq_iff)

lemma slot_len_added:
  "tx_shape s \<Longrightarrow> i < 4 \<Longrightarrow> k < 4 \<Longrightarrow>
   slot_len (added s k bs) i = (if i = k then slot_len s k + length bs else slot_len s i)"
  using tx_shape_slot(2) [of s k] slot_inj [of i k s]
  by (auto simp: slot_len_def added_def Let_def nth_list_update slot_def)

lemma queued_added:
  assumes "tx_shape s" "i < 4" "k < 4" "slot_len s k + length bs \<le> 2048"
  shows "queued (added s k bs) i = (if i = k then queued s k @ bs else queued s i)"
proof (cases "i = k")
  case True
  have "txBuffers (added s k bs) ! slot s k =
      take (slot_len s k) (txBuffers s ! slot s k) @ bs @
        drop (slot_len s k + length bs) (txBuffers s ! slot s k)"
    using tx_shape_slot(1) [OF assms(1), of k] by (simp add: added_def Let_def)
  with True assms show ?thesis
    using tx_shape_slot(3) [OF assms(1), of k] by (simp add: queued_def slot_len_added)
next
  case False
  then have "txBuffers (added s k bs) ! slot s i = txBuffers s ! slot s i"
    using slot_inj [of i k s] assms by (simp add: added_def Let_def)
  with False assms show ?thesis by (simp add: queued_def slot_len_added)
qed

lemma set_update_all: "(\<forall>x\<in>set xs. P x) \<Longrightarrow> P y \<Longrightarrow> \<forall>x\<in>set (xs[i := y]). P x"
  using set_update_subset_insert [of xs i y] by auto

lemma tx_shape_added:
  assumes "tx_shape s" "slot_len s k + length bs \<le> 2048"
  shows "tx_shape (added s k bs)"
proof -
  let ?j = "slot s k" and ?len = "slot_len s k"
  let ?b = "txBuffers s ! ?j"
  have old: "\<forall>b\<in>set (txBuffers s). length b = 2048" "\<forall>n\<in>set (txBufferLengths s). n \<le> 2048"
    using assms(1) unfolding tx_shape_def by blast+
  have "length (take ?len ?b @ bs @ drop (?len + length bs) ?b) = 2048"
    using assms(2) tx_shape_slot(3) [OF assms(1), of k] by simp
  note bufs = set_update_all [OF old(1) this, of ?j]
  note lens = set_update_all [OF old(2) assms(2), of ?j]
  have "length (txBuffers s) = 4" "length (txBufferLengths s) = 4" "dmaTxBuffer s < 4" "nextTxBuffer s < 4"
    using assms(1) unfolding tx_shape_def by blast+
  moreover have "txBuffers (added s k bs) =
      (txBuffers s)[?j := take ?len ?b @ bs @ drop (?len + length bs) ?b]"
    "txBufferLengths (added s k bs) = (txBufferLengths s)[?j := ?len + length bs]"
    by (simp_all add: added_def Let_def)
  ultimately show ?thesis
    unfolding tx_shape_def added_simps by (metis bufs lens length_list_update)
qed

lemma tx_shape_next: "tx_shape s \<Longrightarrow> n < 4 \<Longrightarrow> tx_shape (s\<lparr>nextTxBuffer := n\<rparr>)"
  by (simp add: tx_shape_def)

lemma round_eq:
  assumes "tx_shape s" and "nextTxBuffer s = slot s k" "k < 4"
    and n: "n = min (unat sz) (2048 - slot_len s k)" and "off + n \<le> length data"
  shows "usartWrite_round data off sz s =
    (let s' = added s k (take n (drop off data)) in
     if slot_len s k + n = 2048
     then Inr (off + n, (if slot s (Suc k) = dmaTxBuffer s then 0 else sz) - of_nat n,
               s'\<lparr>nextTxBuffer := slot s (Suc k)\<rparr>)
     else Inr (off + n, sz - of_nat n, s'))"
proof -
  have len: "txBufferLengths s ! nextTxBuffer s = slot_len s k" using assms by (simp add: slot_len_def)
  have n': "(if unat sz < 2048 - slot_len s k then unat sz else 2048 - slot_len s k) = n"
    using n by simp
  have le: "slot_len s k + n \<le> 2048" using n tx_shape_slot(4) [OF assms(1), of k] by simp
  have rds: "rd (txBufferLengths s) (slot s k) = Inr (slot_len s k)"
    "rd (txBuffers s) (slot s k) = Inr (txBuffers s ! slot s k)"
    using tx_shape_slot [OF assms(1), of k] assms(2) len by simp_all
  define bs where "bs = take n (drop off data)"
  have bs: "length bs = n" using assms(5) by (simp add: bs_def)
  have rng: "rd_range data off n = Inr bs" using assms(5) by (simp add: bs_def)
  have wrr: "wr_range (txBuffers s ! slot s k) (slot_len s k) bs =
      Inr (take (slot_len s k) (txBuffers s ! slot s k) @ bs @
           drop (slot_len s k + n) (txBuffers s ! slot s k))"
    using tx_shape_slot(3) [OF assms(1), of k] le bs by simp
  show ?thesis
    unfolding usartWrite_round_def rds bindE_Inr Let_def COMMS_TX_BUFFER_SIZE_def n' rng wrr assms(2)
      bs_def [symmetric]
    using bs by (simp add: next_tx_slot added_def Let_def assms(2))
qed

lemma round_oob:
  assumes "tx_shape s" and "nextTxBuffer s = slot s k" "k < 4"
    and "length data < off + min (unat sz) (2048 - slot_len s k)"
  shows "usartWrite_round data off sz s = Inl OutOfBounds"
proof -
  have n': "(if unat sz < 2048 - slot_len s k then unat sz else 2048 - slot_len s k) =
      min (unat sz) (2048 - slot_len s k)" by simp
  have rds: "rd (txBufferLengths s) (nextTxBuffer s) = Inr (slot_len s k)"
    "rd (txBuffers s) (nextTxBuffer s) = Inr (txBuffers s ! slot s k)"
    using tx_shape_slot [OF assms(1), of k] assms(2) by (simp_all add: slot_len_def)
  show ?thesis
    unfolding usartWrite_round_def rds bindE_Inr Let_def COMMS_TX_BUFFER_SIZE_def n'
    using assms(4) by (simp add: rd_range_def)
qed

section \<open>Writes that fit\<close>

definition in_order :: "usart \<Rightarrow> u8 list" where
  "in_order s = concat (map (queued s) [0..<4])"

lemma upt_4: "[0..<4] = [0, 1, 2, 3 :: nat]"
  by (simp add: upt_rec)

lemma concat_snoc_last:
  assumes "k < (4 :: nat)" and "\<forall>i. k < i \<and> i < 4 \<longrightarrow> q i = []"
  shows "concat (map (\<lambda>i. if i = k then q k @ bs else q i) [0..<4]) = concat (map q [0..<4]) @ bs"
proof -
  consider "k = 0" | "k = 1" | "k = 2" | "k = 3" using assms(1) by linarith
  then show ?thesis using assms(2) by cases (simp_all add: upt_4)
qed

lemma in_order_added:
  assumes "tx_shape s" and "filling s k" and "slot_len s k + length bs \<le> 2048"
  shows "in_order (added s k bs) = in_order s @ bs"
proof -
  have k: "k < 4" "\<forall>i. k < i \<and> i < 4 \<longrightarrow> queued s i = []"
    using assms(2) by (simp_all add: filling_def queued_def)
  have "map (queued (added s k bs)) [0..<4] = map (\<lambda>i. if i = k then queued s k @ bs else queued s i) [0..<4]"
    using queued_added [OF assms(1) _ k(1) assms(3)] by simp
  then show ?thesis unfolding in_order_def concat_snoc_last [OF k, symmetric] by (simp only:)
qed

text \<open>What a write leaves alone, and the buffer in flight once there is one behind it.\<close>

definition tx_frame :: "usart \<Rightarrow> usart \<Rightarrow> bool" where
  "tx_frame s s' \<longleftrightarrow> s' = s\<lparr>txBuffers := txBuffers s', txBufferLengths := txBufferLengths s',
     nextTxBuffer := nextTxBuffer s'\<rparr>"

definition keeps_first :: "usart \<Rightarrow> usart \<Rightarrow> bool" where
  "keeps_first s s' \<longleftrightarrow> slot_len s' 0 = slot_len s 0 \<and> queued s' 0 = queued s 0"

lemma tx_frame_trans: "tx_frame s t \<Longrightarrow> tx_frame t u \<Longrightarrow> tx_frame s u"
  unfolding tx_frame_def by (cases s; cases t; cases u) simp

lemma tx_frame_refl [simp]: "tx_frame s s"
  by (simp add: tx_frame_def)

lemma tx_frame_added [simp]: "tx_frame s (added s k bs)" "tx_frame s ((added s k bs)\<lparr>nextTxBuffer := n\<rparr>)"
  by (simp_all add: tx_frame_def added_def Let_def)

lemma tx_frame_slot: "tx_frame s s' \<Longrightarrow> slot s' i = slot s i"
  unfolding tx_frame_def slot_def by (metis usart.select_convs(5) usart.surjective usart.update_convs(1,3,4))

definition wrote :: "usart \<Rightarrow> nat \<Rightarrow> u8 list \<Rightarrow> usart \<Rightarrow> bool" where
  "wrote s k bs s' \<longleftrightarrow> tx_shape s' \<and> (\<exists>k'\<ge>k. filling s' k') \<and> in_order s' = in_order s @ bs \<and>
     tx_frame s s' \<and> (if 0 < k then keeps_first s s' else slot_len s' 0 > 0)"

text \<open>A round that ends the loop, and one that fills a buffer and goes on.\<close>

lemma wrote_last:
  assumes "tx_shape s" "filling s k" "0 < length bs" "slot_len s k + length bs < 2048"
  shows "wrote s k bs (added s k bs)"
proof -
  have k: "k < 4" using assms(2) by (simp add: filling_def)
  have "filling (added s k bs) k"
    using assms(2,4) k slot_len_added [OF assms(1) _ k] unfolding filling_def by simp
  moreover have "in_order (added s k bs) = in_order s @ bs"
    using in_order_added assms by simp
  moreover have "keeps_first s (added s k bs)" if "0 < k"
    using that slot_len_added [OF assms(1) _ k] queued_added [OF assms(1) _ k] assms(4)
    by (simp add: keeps_first_def)
  ultimately show ?thesis
    using assms k slot_len_added [OF assms(1) _ k] tx_shape_added [of s k bs] by (auto simp: wrote_def)
qed

lemma filling_next:
  assumes "tx_shape s" "filling s k" "slot_len s k + length bs = 2048" "Suc k < 4"
  defines "t \<equiv> (added s k bs)\<lparr>nextTxBuffer := slot s (Suc k)\<rparr>"
  shows "tx_shape t" "filling t (Suc k)" "in_order t = in_order s @ bs" "slot_len t (Suc k) = 0"
    "if 0 < k then keeps_first s t else slot_len t 0 = 2048" "tx_frame s t"
proof -
  have k: "k < 4" using assms(4) by simp
  show "tx_shape t" unfolding t_def
    by (rule tx_shape_next [OF tx_shape_added [OF assms(1)]]) (use assms(3) in simp_all)
  have len: "slot_len t i = (if i = k then 2048 else slot_len s i)" if "i < 4" for i
    using slot_len_added [OF assms(1) that k] assms(3) by (simp add: t_def)
  show "filling t (Suc k)"
    using assms(2,4) len unfolding filling_def by (auto simp: t_def less_Suc_eq)
  show "in_order t = in_order s @ bs"
    using in_order_added [OF assms(1,2), of bs] assms(3) by (simp add: t_def in_order_def)
  show "slot_len t (Suc k) = 0" using len [of "Suc k"] assms(2,4) by (simp add: filling_def)
  show "if 0 < k then keeps_first s t else slot_len t 0 = 2048"
    using len [of 0] queued_added [OF assms(1) _ k, of 0 bs] assms(3)
    by (auto simp: keeps_first_def t_def)
qed (simp add: t_def)

lemma wrote_trans:
  assumes t: "tx_frame s t" "in_order t = in_order s @ bs"
      "if 0 < k then keeps_first s t else slot_len t 0 = 2048"
    and "wrote t (Suc k) cs s'"
  shows "wrote s k (bs @ cs) s'"
proof -
  have "\<exists>k'\<ge>k. filling s' k'" using assms(4) unfolding wrote_def by (meson Suc_leD)
  with assms tx_frame_trans [of s t s'] show ?thesis
    by (auto simp: wrote_def keeps_first_def split: if_splits)
qed

lemma unat_sub_of_nat:
  assumes "n \<le> unat (w :: u16)"
  shows "unat (w - of_nat n) = unat w - n"
proof -
  have n: "unat (of_nat n :: u16) = n"
    using assms u16_less [of w] by (simp add: unat_of_nat del: u16_less)
  with assms have "of_nat n \<le> w" by (simp add: word_le_nat_alt)
  with n show ?thesis by (simp add: unat_sub)
qed

lemma loop_ok:
  assumes "tx_shape s" and "filling s k" and "unat sz + off = length data" and "0 < sz"
    and "unat sz < (4 - k) * 2048 - slot_len s k" and "4 - k < fuel"
  shows "\<exists>s'. usartWrite_loop fuel data off sz s = Some (Inr s') \<and> wrote s k (drop off data) s'"
  using assms
proof (induction fuel arbitrary: s k off sz)
  case 0
  then show ?case by simp
next
  case (Suc fuel)
  define sp where "sp = 2048 - slot_len s k"
  define n where "n = min (unat sz) sp"
  have k: "nextTxBuffer s = slot s k" "k < 4" "slot_len s k < 2048"
    using Suc.prems(2) by (simp_all add: filling_def)
  have pos: "0 < unat sz" using Suc.prems(4) by (simp add: unat_gt_0 word_gt_0)
  have off: "off + n \<le> length data" using Suc.prems(3) by (simp add: n_def)
  define bs where "bs = take n (drop off data)"
  have bs: "length bs = n" using off by (simp add: bs_def)
  have r: "usartWrite_round data off sz s = (if slot_len s k + n = 2048
      then Inr (off + n, (if slot s (Suc k) = dmaTxBuffer s then 0 else sz) - of_nat n,
                (added s k bs)\<lparr>nextTxBuffer := slot s (Suc k)\<rparr>)
      else Inr (off + n, sz - of_nat n, added s k bs))"
    using round_eq [OF Suc.prems(1) k(1,2) n_def [unfolded sp_def] off] by (simp add: Let_def bs_def)
  show ?case
  proof (cases "unat sz < sp")
    case True
    then have n: "n = unat sz" "slot_len s k + n < 2048" using sp_def by (simp_all add: n_def)
    then have "bs = drop off data" using Suc.prems(3) by (simp add: bs_def)
    moreover have "wrote s k bs (added s k bs)"
      by (rule wrote_last [OF Suc.prems(1,2)]) (use n bs pos in simp_all)
    moreover obtain f where "fuel = Suc f" using Suc.prems(6) k(2) by (cases fuel) auto
    ultimately show ?thesis using Suc.prems(4) r n by auto
  next
    case False
    then have n: "n = sp" "slot_len s k + n = 2048" using k(3) by (simp_all add: n_def sp_def)
    have Suck: "Suc k < 4" using False Suc.prems(5) k(2,3) unfolding sp_def
      by (cases "k = 3") auto
    define t where "t = (added s k bs)\<lparr>nextTxBuffer := slot s (Suc k)\<rparr>"
    have e: "slot_len s k + length bs = 2048" using n bs by simp
    note t = filling_next [OF Suc.prems(1,2) e Suck, folded t_def]
    have "slot s (Suc k) \<noteq> dmaTxBuffer s" using slot_eq_dma [OF Suc.prems(1), of "Suc k"] Suck by simp
    with r n have r': "usartWrite_round data off sz s = Inr (off + n, sz - of_nat n, t)"
      by (simp add: t_def)
    have sz': "unat (sz - of_nat n) = unat sz - n"
      by (rule unat_sub_of_nat) (simp add: n_def)
    have dr: "drop off data = bs @ drop (off + n) data"
      by (simp add: bs_def add.commute flip: drop_drop)
    show ?thesis
    proof (cases "unat sz = n")
      case True
      then have "sz - of_nat n = 0" using sz' by (simp add: unat_eq_0)
      moreover have "wrote s k bs t"
        using t by (auto simp: wrote_def intro!: exI [of _ "Suc k"])
      moreover have "drop (off + n) data = []" using True Suc.prems(3) by simp
      moreover obtain f where "fuel = Suc f" using Suc.prems(6) k(2) by (cases fuel) auto
      ultimately show ?thesis using Suc.prems(4) r' dr by simp
    next
      case False
      then have "0 < sz - of_nat n" using sz' n_def by (simp add: word_gt_0 flip: unat_eq_0)
      moreover have "unat (sz - of_nat n) + (off + n) = length data"
        using sz' Suc.prems(3) n_def by simp
      moreover have "unat (sz - of_nat n) < (4 - Suc k) * 2048 - slot_len t (Suc k)"
      proof -
        have "(4 - k) * 2048 = (4 - Suc k) * 2048 + 2048" using Suck by simp
        moreover have "n \<le> unat sz" by (simp add: n_def)
        ultimately show ?thesis using sz' Suc.prems(5) n(2) t(4) by linarith
      qed
      moreover have "4 - Suc k < fuel" using Suc.prems(6) Suck by linarith
      ultimately obtain s' where s': "usartWrite_loop fuel data (off + n) (sz - of_nat n) t = Some (Inr s')"
        "wrote t (Suc k) (drop (off + n) data) s'"
        using Suc.IH [OF t(1,2), of "sz - of_nat n" "off + n"] by blast
      with wrote_trans [OF t(6,3,5)] dr Suc.prems(4) r' show ?thesis by auto
    qed
  qed
qed

section \<open>The invariant of the sending side\<close>

text \<open>
  Idle: nothing is queued. Active: the first buffer is in flight (the stream is enabled) or has left
  and waits for \<^verbatim>\<open>serviceTxDma\<close>; the next byte goes to a later buffer.
\<close>

definition tx_idle :: "usart \<Rightarrow> bool" where
  "tx_idle s \<longleftrightarrow> txDmaActive s = 0 \<and> filling s 0 \<and> slot_len s 0 = 0 \<and> \<not> bit (txCR s) 0 \<and>
     shouldServiceTxDma s = 0"

definition tx_active :: "usart \<Rightarrow> bool" where
  "tx_active s \<longleftrightarrow> txDmaActive s \<noteq> 0 \<and> (\<exists>k>0. filling s k) \<and> 0 < slot_len s 0 \<and>
     (bit (txCR s) 0 \<longleftrightarrow> shouldServiceTxDma s = 0) \<and>
     (bit (txCR s) 0 \<longrightarrow> txM0AR s = dmaTxBuffer s \<and> txNDTR s = slot_len s 0)"

definition tx_inv :: "usart \<Rightarrow> bool" where
  "tx_inv s \<longleftrightarrow> tx_shape s \<and> (tx_idle s \<or> tx_active s)"

text \<open>The bytes behind the buffer in flight, and all that have been written and have not left.\<close>

definition behind :: "usart \<Rightarrow> u8 list" where
  "behind s = concat (map (queued s) [1..<4])"

definition unsent :: "usart \<Rightarrow> u8 list" where
  "unsent s = (if shouldServiceTxDma s \<noteq> 0 then behind s else in_order s)"

lemma in_order_Cons: "in_order s = queued s 0 @ behind s"
  by (simp add: in_order_def behind_def upt_rec)

lemma tx_frame_fields:
  assumes "tx_frame s s'"
  shows "txDmaActive s' = txDmaActive s" "txCR s' = txCR s" "shouldServiceTxDma s' = shouldServiceTxDma s"
    "txM0AR s' = txM0AR s" "txNDTR s' = txNDTR s" "dmaTxBuffer s' = dmaTxBuffer s" "wire s' = wire s"
  using assms unfolding tx_frame_def by (cases s; cases s'; simp)+

lemma in_order_idle: "tx_idle s \<Longrightarrow> in_order s = []"
  by (auto simp: tx_idle_def filling_def in_order_def queued_def less_Suc_eq_0_disj
    split: nat.splits) (metis gr0I)

text \<open>Starting the stream on a first buffer that holds something.\<close>

lemma startTxDma_ok:
  assumes "tx_shape s" and "filling s k" and "0 < slot_len s 0" and "shouldServiceTxDma s = 0"
  shows "\<exists>s'. startTxDma s = Inr s' \<and> tx_shape s' \<and> tx_active s' \<and> in_order s' = in_order s \<and>
     wire s' = wire s \<and> shouldServiceTxDma s' = 0"
proof -
  define t where "t = s\<lparr>txM0AR := dmaTxBuffer s, txNDTR := slot_len s 0, txCR := txCR s OR DMA_SxCR_EN,
    txDmaActive := 1\<rparr>"
  have t: "slot t = slot s" "slot_len t = slot_len s" "queued t = queued s" "tx_shape t"
    using assms(1) by (auto simp: t_def slot_def slot_len_def queued_def tx_shape_def fun_eq_iff)
  have "rd (txBufferLengths s) (dmaTxBuffer s) = Inr (slot_len s 0)"
    using assms(1) by (simp add: slot_len_def slot_0 tx_shape_def)
  then have st: "startTxDma s =
      Inr (if nextTxBuffer s = dmaTxBuffer s then t\<lparr>nextTxBuffer := next_tx (nextTxBuffer s)\<rparr> else t)"
    by (simp add: startTxDma_def Let_def t_def)
  have k: "nextTxBuffer s = slot s k" "k < 4" using assms(2) by (simp_all add: filling_def)
  show ?thesis
  proof (cases "k = 0")
    case True
    let ?u = "t\<lparr>nextTxBuffer := slot s 1\<rparr>"
    have "filling ?u 1"
      using assms(2) True t by (auto simp: filling_def)
    moreover have "startTxDma s = Inr ?u"
      using st True k slot_0 [OF assms(1)] next_tx_slot [of s 0] by simp
    moreover have "tx_shape ?u" using t by (simp add: tx_shape_next)
    moreover have "in_order ?u = in_order s" using t by (simp add: in_order_def)
    ultimately show ?thesis using t assms(3,4)
      by (auto simp: tx_active_def DMA_SxCR_EN_def bit_simps t_def intro!: exI [of _ 1])
  next
    case False
    then have "startTxDma s = Inr t" using st k slot_eq_dma [OF assms(1), of k] by auto
    moreover have "filling t k" using assms(2) t by (simp add: filling_def t_def)
    moreover have "in_order t = in_order s" using t by (simp add: in_order_def)
    ultimately show ?thesis using t assms(3,4) False
      by (auto simp: tx_active_def DMA_SxCR_EN_def bit_simps t_def)
  qed
qed

lemma usartWrite_ok:
  assumes inv: "tx_inv s" and "length xs < tx_free s"
  shows "\<exists>s'. usartWrite xs (of_nat (length xs)) s = Some (Inr s') \<and> tx_inv s' \<and>
     unsent s' = unsent s @ xs \<and> wire s' = wire s \<and>
     (if tx_active s then tx_active s' \<and> behind s' = behind s @ xs else xs = [] \<or> in_order s' = xs)"
proof (cases "xs = []")
  case True
  with inv show ?thesis by (simp add: usartWrite_def)
next
  case False
  have sh: "tx_shape s" using inv by (simp add: tx_inv_def)
  obtain k where k: "filling s k" "0 < k \<longleftrightarrow> tx_active s"
    using inv by (auto simp: tx_inv_def tx_idle_def tx_active_def)
  have free: "length xs < (4 - k) * 2048 - slot_len s k" using assms(2) tx_free_filling [OF sh k(1)] by simp
  have "(4 - k) * 2048 \<le> 8192" by simp
  with free have small: "length xs < 65536" by linarith
  then have sz: "unat (of_nat (length xs) :: u16) = length xs" by (simp add: unat_of_nat)
  with False have pos: "0 < (of_nat (length xs) :: u16)" by (simp add: word_gt_0 flip: unat_eq_0)
  have "4 - k < WRITE_FUEL" by (simp add: WRITE_FUEL_def)
  with loop_ok [OF sh k(1) _ pos, of 0 xs WRITE_FUEL] free sz obtain s' where
    s': "usartWrite_loop WRITE_FUEL xs 0 (of_nat (length xs)) s = Some (Inr s')" "wrote s k xs s'"
    by auto
  have w: "tx_shape s'" "in_order s' = in_order s @ xs" "tx_frame s s'" "\<exists>k'\<ge>k. filling s' k'"
    "if 0 < k then keeps_first s s' else slot_len s' 0 > 0"
    using s'(2) by (simp_all add: wrote_def)
  note f = tx_frame_fields [OF w(3)]
  show ?thesis
  proof (cases "tx_active s")
    case False
    then have idle: "tx_idle s" "k = 0" using inv k by (auto simp: tx_inv_def)
    then have "shouldServiceTxDma s' = 0" "txDmaActive s' = 0" using f by (simp_all add: tx_idle_def)
    moreover obtain k' where "filling s' k'" using w(4) by blast
    ultimately obtain u where "startTxDma s' = Inr u" "tx_shape u" "tx_active u" "in_order u = in_order s'"
      "wire u = wire s'" "shouldServiceTxDma u = 0"
      using startTxDma_ok [OF w(1), of k'] w(5) idle(2) by auto
    moreover have "in_order s = []"
      using idle(1) by (simp add: in_order_idle)
    ultimately show ?thesis using s'(1) pos idle(1) f w(2) \<open>txDmaActive s' = 0\<close> False
      by (auto simp: usartWrite_def tx_inv_def unsent_def tx_idle_def)
  next
    case True
    then have first: "keeps_first s s'" and act: "txDmaActive s' \<noteq> 0"
      using w(5) k(2) f by (auto simp: tx_active_def)
    have "\<exists>k'>0. filling s' k'" using w(4) True k(2) by (meson less_le_trans)
    with True first act f have "tx_active s'" by (simp add: tx_active_def keeps_first_def)
    moreover have "behind s' = behind s @ xs"
      using w(2) first by (simp add: in_order_Cons keeps_first_def)
    ultimately show ?thesis using s'(1) pos act w f True
      by (auto simp: usartWrite_def tx_inv_def unsent_def)
  qed
qed

section \<open>The end of a transfer\<close>

lemma dma_tx_complete_ok:
  assumes inv: "tx_inv s"
  shows "tx_inv (dma_tx_complete s) \<and>
     wire (dma_tx_complete s) @ unsent (dma_tx_complete s) = wire s @ unsent s"
proof (cases "bit (txCR s) 0")
  case True
  then have a: "tx_active s" "shouldServiceTxDma s = 0" "txM0AR s = dmaTxBuffer s" "txNDTR s = slot_len s 0"
    using inv by (auto simp: tx_inv_def tx_idle_def tx_active_def)
  define t where "t = dma_tx_complete s"
  have t: "slot t = slot s" "slot_len t = slot_len s" "queued t = queued s" "nextTxBuffer t = nextTxBuffer s"
    "tx_shape t = tx_shape s"
    using True by (auto simp: t_def dma_tx_complete_def COMMS_TX_DMA_ISR_def slot_def slot_len_def
      queued_def tx_shape_def fun_eq_iff)
  have "wire t = wire s @ queued s 0"
    using True a slot_0 [of s] inv
    by (simp add: t_def dma_tx_complete_def COMMS_TX_DMA_ISR_def queued_def tx_inv_def)
  moreover have "shouldServiceTxDma t = 1" "\<not> bit (txCR t) 0" "txDmaActive t = txDmaActive s"
    using True by (simp_all add: t_def dma_tx_complete_def COMMS_TX_DMA_ISR_def DMA_SxCR_EN_def bit_simps)
  ultimately show ?thesis
    using a inv t unfolding t_def [symmetric]
    by (simp add: tx_inv_def tx_active_def filling_def unsent_def in_order_Cons behind_def)
qed (use inv in \<open>simp add: dma_tx_complete_def\<close>)

lemma startTxDma_should:
  "startTxDma (s\<lparr>shouldServiceTxDma := v\<rparr>) =
   bindE (startTxDma s) (\<lambda>s. Inr (s\<lparr>shouldServiceTxDma := v\<rparr>))"
  by (cases "rd (txBufferLengths s) (dmaTxBuffer s)") (simp_all add: startTxDma_def Let_def)

lemma queued_flags [simp]:
  "queued (s\<lparr>shouldServiceTxDma := v\<rparr>) = queued s" "queued (s\<lparr>txDmaActive := v\<rparr>) = queued s"
  by (simp_all add: queued_def slot_len_def slot_def fun_eq_iff)

lemma should_simps [simp]:
  "tx_shape (s\<lparr>shouldServiceTxDma := v\<rparr>) = tx_shape s"
  "slot_len (s\<lparr>shouldServiceTxDma := v\<rparr>) = slot_len s"
  "filling (s\<lparr>shouldServiceTxDma := v\<rparr>) = filling s"
  "in_order (s\<lparr>shouldServiceTxDma := v\<rparr>) = in_order s"
  by (simp_all add: tx_shape_def slot_len_def filling_def in_order_def slot_def fun_eq_iff)

lemma idle_simps:
  "tx_shape (s\<lparr>txDmaActive := v\<rparr>) = tx_shape s"
  "slot_len (s\<lparr>txDmaActive := v\<rparr>) = slot_len s"
  "filling (s\<lparr>txDmaActive := v\<rparr>) = filling s"
  "in_order (s\<lparr>txDmaActive := v\<rparr>) = in_order s"
  by (simp_all add: tx_shape_def slot_len_def filling_def in_order_def slot_def fun_eq_iff)

text \<open>After the first buffer is cleared the others move up by one place.\<close>

lemma serviceTxDma_ok:
  assumes inv: "tx_inv s"
  shows "\<exists>s'. serviceTxDma s = Inr s' \<and> tx_inv s' \<and> shouldServiceTxDma s' = 0 \<and> unsent s' = unsent s \<and>
     wire s' = wire s"
proof (cases "shouldServiceTxDma s = 0")
  case False
  then have act: "tx_active s" and sh: "tx_shape s" using inv by (auto simp: tx_inv_def tx_idle_def)
  then obtain k where k: "0 < k" "filling s k" by (auto simp: tx_active_def)
  define t where "t = s\<lparr>txBufferLengths := (txBufferLengths s)[dmaTxBuffer s := 0],
    dmaTxBuffer := slot s 1\<rparr>"
  have dma: "dmaTxBuffer s = slot s 0" "next_tx (dmaTxBuffer s) = slot s 1"
    using slot_0 [OF sh] next_tx_slot [of s 0] by simp_all
  have slot: "slot t i = slot s (Suc i)" for i
    by (simp add: t_def slot_def mod_simps)
  have len: "slot_len t i = (if i = 3 then 0 else slot_len s (Suc i))" if "i < 4" for i
  proof (cases "i = 3")
    case True
    then show ?thesis using sh slot_4 [OF sh] tx_shape_slot(2) [OF sh, of 0] dma
      by (simp add: slot_len_def slot) (simp add: t_def tx_shape_def)
  next
    case False
    then have "slot s 0 \<noteq> slot s (Suc i)" using that slot_inj [of 0 "Suc i" s] by simp
    then show ?thesis using False dma by (simp add: slot_len_def slot) (simp add: t_def)
  qed
  have q: "queued t i = (if i = 3 then [] else queued s (Suc i))" if "i < 4" for i
    using len [OF that] by (auto simp: queued_def slot) (simp add: t_def)
  have sht: "tx_shape t"
    using sh set_update_all [of "txBufferLengths s" "\<lambda>n. n \<le> 2048" 0 "dmaTxBuffer s"]
    unfolding tx_shape_def t_def by simp
  have fill: "filling t (k - 1)"
    using k slot len unfolding filling_def by (auto simp: t_def)
  have io: "in_order t = unsent s"
    using False q by (simp add: in_order_def unsent_def behind_def upt_rec)
  have wr: "wr (txBufferLengths s) (dmaTxBuffer s) 0 = Inr ((txBufferLengths s)[dmaTxBuffer s := 0])"
    "rd (txBufferLengths t) (dmaTxBuffer t) = Inr (slot_len t 0)"
    using sh sht slot_0 [OF sht] by (simp_all add: tx_shape_def slot_len_def)
  have sv: "serviceTxDma s = bindE (if slot_len t 0 > 0 then startTxDma t else Inr (t\<lparr>txDmaActive := 0\<rparr>))
      (\<lambda>s. Inr (s\<lparr>shouldServiceTxDma := 0\<rparr>))"
    using False wr dma unfolding serviceTxDma_def by (simp add: t_def Let_def)
  show ?thesis
  proof (cases "slot_len t 0 > 0")
    case True
    then obtain u where "startTxDma (t\<lparr>shouldServiceTxDma := 0\<rparr>) = Inr u" "tx_shape u" "tx_active u"
      "in_order u = in_order t" "wire u = wire s" "shouldServiceTxDma u = 0"
      using startTxDma_ok [of "t\<lparr>shouldServiceTxDma := 0\<rparr>" "k - 1"] sht fill by (auto simp: t_def)
    then show ?thesis using sv True io by (simp add: startTxDma_should tx_inv_def unsent_def)
  next
    case empty: False
    have "k - 1 = 0"
      using fill empty k(2) len [of 0] unfolding filling_def by (cases "k = 1") auto
    moreover have "\<not> bit (txCR s) 0" using act False by (simp add: tx_active_def)
    ultimately show ?thesis using sv empty sht fill io
      by (auto simp: tx_inv_def tx_idle_def unsent_def idle_simps) (simp_all add: t_def)
  qed
qed (use inv in \<open>simp add: serviceTxDma_def\<close>)

section \<open>Runs of the sending side\<close>

text \<open>
  \<open>sends w s\<close>: \<open>s\<close> can be reached from a state with nothing queued and nothing on the line by writes
  that fit, ends of transfers and calls of \<^verbatim>\<open>serviceTxDma\<close>, in any order, and \<open>w\<close> is all that was
  written.
\<close>

inductive sends :: "u8 list \<Rightarrow> usart \<Rightarrow> bool" where
  tx_start: "tx_shape s \<Longrightarrow> tx_idle s \<Longrightarrow> wire s = [] \<Longrightarrow> sends [] s"
| tx_write: "sends w s \<Longrightarrow> length xs < tx_free s \<Longrightarrow>
    usartWrite xs (of_nat (length xs)) s = Some (Inr s') \<Longrightarrow> sends (w @ xs) s'"
| tx_done: "sends w s \<Longrightarrow> sends w (dma_tx_complete s)"
| tx_service: "sends w s \<Longrightarrow> serviceTxDma s = Inr s' \<Longrightarrow> sends w s'"

lemma sends_inv: "sends w s \<Longrightarrow> tx_inv s \<and> wire s @ unsent s = w"
proof (induction rule: sends.induct)
  case (tx_start s)
  then have "queued s i = []" if "i < 4" for i
    using that by (cases i) (auto simp: tx_idle_def filling_def queued_def)
  with tx_start show ?case by (simp add: tx_inv_def unsent_def tx_idle_def in_order_def)
next
  case (tx_write w s xs s')
  then show ?case using usartWrite_ok [of s xs] by auto
next
  case (tx_done w s)
  then show ?case using dma_tx_complete_ok [of s] by simp
next
  case (tx_service w s s')
  then show ?case using serviceTxDma_ok [of s] by auto
qed

text \<open>One transfer and the service after it send at least one buffer.\<close>

definition tx_cycle :: "usart \<Rightarrow> usart cres" where
  "tx_cycle s = serviceTxDma (dma_tx_complete s)"

fun tx_cycles :: "nat \<Rightarrow> usart \<Rightarrow> usart cres" where
  "tx_cycles 0 s = Inr s"
| "tx_cycles (Suc n) s = bindE (tx_cycle s) (tx_cycles n)"

text \<open>How many buffers are in use: the number of transfers still to come, at least.\<close>

definition in_use :: "usart \<Rightarrow> nat" where
  "in_use s = card {i. i < 4 \<and> 0 < txBufferLengths s ! i}"

lemma in_use_le: "in_use s \<le> 4"
proof -
  have "card {i. i < (4 :: nat) \<and> 0 < txBufferLengths s ! i} \<le> card {..<4 :: nat}"
    by (rule card_mono) auto
  then show ?thesis by (simp add: in_use_def)
qed

lemma startTxDma_lengths: "startTxDma s = Inr s' \<Longrightarrow> txBufferLengths s' = txBufferLengths s"
  by (auto simp: startTxDma_def bindE_eq_Inr Let_def split: if_splits)

lemma service_lengths:
  assumes "serviceTxDma s = Inr s'" and "shouldServiceTxDma s \<noteq> 0"
  shows "txBufferLengths s' = (txBufferLengths s)[dmaTxBuffer s := 0]"
proof -
  define t where "t = s\<lparr>txBufferLengths := (txBufferLengths s)[dmaTxBuffer s := 0],
    dmaTxBuffer := next_tx (dmaTxBuffer s)\<rparr>"
  have "\<exists>u. (startTxDma t = Inr u \<or> u = t\<lparr>txDmaActive := 0\<rparr>) \<and> s' = u\<lparr>shouldServiceTxDma := 0\<rparr>"
    using assms by (auto simp: serviceTxDma_def bindE_eq_Inr Let_def wr_def t_def split: if_splits)
  then show ?thesis using startTxDma_lengths [of t] by (auto simp: t_def)
qed

lemma tx_cycle_ok:
  assumes "tx_inv s"
  shows "\<exists>s'. tx_cycle s = Inr s' \<and> tx_inv s' \<and> wire s' @ unsent s' = wire s @ unsent s \<and>
     (tx_idle s' \<or> in_use s' < in_use s)"
proof -
  let ?c = "dma_tx_complete s"
  have c: "tx_inv ?c" "wire ?c @ unsent ?c = wire s @ unsent s" using dma_tx_complete_ok [OF assms] by auto
  obtain s' where s': "serviceTxDma ?c = Inr s'" "tx_inv s'" "unsent s' = unsent ?c" "wire s' = wire ?c"
    using serviceTxDma_ok [OF c(1)] by auto
  have lens: "txBufferLengths ?c = txBufferLengths s" "dmaTxBuffer ?c = dmaTxBuffer s"
    by (simp_all add: dma_tx_complete_def COMMS_TX_DMA_ISR_def)
  have "tx_idle s' \<or> in_use s' < in_use s"
  proof (cases "tx_active s")
    case True
    then have sh: "tx_shape s" "0 < txBufferLengths s ! dmaTxBuffer s" "dmaTxBuffer s < 4"
      using assms slot_0 [of s] by (auto simp: tx_inv_def tx_active_def slot_len_def tx_shape_def tx_idle_def)
    have "shouldServiceTxDma ?c \<noteq> 0"
      using True by (auto simp: tx_active_def dma_tx_complete_def COMMS_TX_DMA_ISR_def)
    from service_lengths [OF s'(1) this] lens
    have l: "txBufferLengths s' = (txBufferLengths s)[dmaTxBuffer s := 0]" by simp
    have "{i. i < 4 \<and> 0 < txBufferLengths s' ! i} \<subset> {i. i < 4 \<and> 0 < txBufferLengths s ! i}"
      using sh unfolding l tx_shape_def by (auto simp: nth_list_update split: if_splits)
    then show ?thesis unfolding in_use_def by (intro disjI2 psubset_card_mono) auto
  next
    case False
    then have "tx_idle s" using assms by (simp add: tx_inv_def)
    then show ?thesis using s'(1) by (auto simp: serviceTxDma_def dma_tx_complete_def tx_idle_def)
  qed
  then show ?thesis using s' c by (auto simp: tx_cycle_def)
qed

lemma tx_cycles_ok:
  assumes "tx_inv s" and "in_use s \<le> n"
  shows "\<exists>s'. tx_cycles n s = Inr s' \<and> tx_inv s' \<and> tx_idle s' \<and> wire s' @ unsent s' = wire s @ unsent s"
  using assms
proof (induction n arbitrary: s)
  case 0
  have "txBufferLengths s ! dmaTxBuffer s = 0"
    using 0 by (auto simp: in_use_def tx_inv_def tx_shape_def)
  then have "\<not> tx_active s" using 0(1) slot_0 [of s] by (auto simp: tx_active_def slot_len_def tx_inv_def)
  with 0 show ?case by (simp add: tx_inv_def)
next
  case (Suc n)
  obtain t where t: "tx_cycle s = Inr t" "tx_inv t" "wire t @ unsent t = wire s @ unsent s"
    "tx_idle t \<or> in_use t < in_use s"
    using tx_cycle_ok [OF Suc.prems(1)] by auto
  have "in_use t \<le> n"
  proof (cases "tx_idle t")
    case True
    have "txBufferLengths t ! j = 0" if j: "j < 4" for j
    proof -
      obtain i where i: "i < 4" "slot t i = j" using slot_surj [OF _ j, of t] t(2) by (auto simp: tx_inv_def)
      then have "slot_len t i = 0" using True by (cases i) (auto simp: tx_idle_def filling_def)
      with i show ?thesis by (simp add: slot_len_def)
    qed
    then have "{i. i < 4 \<and> 0 < txBufferLengths t ! i} = {}" by auto
    then have "in_use t = 0" unfolding in_use_def by (simp only: card.empty)
    then show ?thesis by simp
  next
    case False
    with t(4) Suc.prems(2) show ?thesis by simp
  qed
  from Suc.IH [OF t(2) this] t show ?case by auto
qed

text \<open>
  Whatever order writes that fit, ends of transfers and calls of \<^verbatim>\<open>serviceTxDma\<close> come in, four more
  transfers, each followed by \<^verbatim>\<open>serviceTxDma\<close>, put exactly the bytes written on the line, in order, and
  leave the port idle.
\<close>

lemma sends_drained:
  assumes "sends w s"
  shows "\<exists>s'. tx_cycles 4 s = Inr s' \<and> wire s' = w \<and> tx_idle s'"
proof -
  have "tx_inv s" and w: "wire s @ unsent s = w" using sends_inv [OF assms] by auto
  from tx_cycles_ok [OF this(1) in_use_le] obtain s' where
    s': "tx_cycles 4 s = Inr s'" "tx_idle s'" "wire s' @ unsent s' = w" using w by auto
  have "queued s' i = []" if "i < 4" for i
    using s'(2) that by (cases i) (auto simp: tx_idle_def filling_def queued_def)
  then have "unsent s' = []" using s'(2) by (simp add: unsent_def tx_idle_def in_order_def)
  with s' show ?thesis by simp
qed

lemma usart_start_idle: "tx_shape usart_start" "tx_idle usart_start" "wire usart_start = []"
  by (simp_all add: usart_start_def tx_shape_def tx_idle_def filling_def slot_len_def slot_def nth_Cons')

section \<open>Printed text\<close>

text \<open>
  What \<^verbatim>\<open>printf\<close> hands to the hook of the C library, one text after the other, and the room there is for
  it: an idle port takes the first text into the buffer that is sent at once, the other three remain.
\<close>

fun write_texts :: "u8 list list \<Rightarrow> usart \<Rightarrow> usart cres option" where
  "write_texts [] s = Some (Inr s)"
| "write_texts (x # xs) s =
     (case snd (write_hook x (int (length x)) s) of
        Some (Inr s') \<Rightarrow> write_texts xs s' | r \<Rightarrow> r)"

definition tx_room :: "usart \<Rightarrow> nat" where
  "tx_room s = (if txDmaActive s \<noteq> 0 then tx_free s else 6144)"

lemma queued_length: "tx_shape s \<Longrightarrow> length (queued s i) = slot_len s i"
  using tx_shape_slot [of s i] by (simp add: queued_def)

lemma active_occupied:
  assumes "tx_shape s" and "tx_active s"
  shows "length (behind s) + tx_free s = 6144"
proof -
  obtain k where k: "0 < k" "filling s k" using assms(2) by (auto simp: tx_active_def)
  then have "k \<in> {1, 2, 3}" by (auto simp: filling_def)
  moreover have "length (behind s) = slot_len s 1 + slot_len s 2 + slot_len s 3"
    by (simp add: behind_def upt_rec queued_length [OF assms(1)] numeral_eq_Suc)
  ultimately show ?thesis using k tx_free_filling [OF assms(1) k(2)] by (auto simp: filling_def)
qed

lemma tx_room_fits:
  assumes "tx_inv s" and "n < tx_room s"
  shows "n < tx_free s"
proof (cases "tx_active s")
  case False
  then have "tx_idle s" "tx_shape s" using assms(1) by (auto simp: tx_inv_def)
  then show ?thesis using assms(2) tx_free_filling [of s 0] by (simp add: tx_room_def tx_idle_def)
qed (use assms(2) in \<open>simp add: tx_room_def tx_active_def\<close>)

lemma tx_room_after:
  assumes "tx_inv s" and "length xs + n < tx_room s"
    and "usartWrite xs (of_nat (length xs)) s = Some (Inr s')"
  shows "n < tx_room s'"
proof -
  have "length xs < tx_free s" by (rule tx_room_fits [OF assms(1)]) (use assms(2) in simp)
  from usartWrite_ok [OF assms(1) this] assms(3) have s': "tx_inv s'"
    "if tx_active s then tx_active s' \<and> behind s' = behind s @ xs else xs = [] \<or> in_order s' = xs" by simp_all
  show ?thesis
  proof (cases "tx_active s")
    case True
    then show ?thesis using s' assms(1,2) active_occupied [of s] active_occupied [of s']
      by (simp add: tx_inv_def tx_room_def tx_active_def)
  next
    case False
    then have idle: "tx_idle s" using assms(1) by (simp add: tx_inv_def)
    show ?thesis
    proof (cases "xs = []")
      case True
      with assms(2,3) show ?thesis by (simp add: usartWrite_def)
    next
      case xs: False
      then have "length (behind s') \<le> length xs" using s'(2) False by (auto simp: in_order_Cons)
      moreover have "length xs + n < 6144" using idle assms(2) by (simp add: tx_room_def tx_idle_def)
      moreover have "tx_active s' \<or> txDmaActive s' = 0" "tx_shape s'" using s'(1) by (auto simp: tx_inv_def tx_idle_def)
      ultimately show ?thesis using active_occupied [of s'] by (auto simp: tx_room_def)
    qed
  qed
qed

lemma write_texts_ok:
  assumes "sends w s" and "length (concat texts) < tx_room s"
  shows "\<exists>s'. write_texts texts s = Some (Inr s') \<and> sends (w @ concat texts) s'"
  using assms
proof (induction texts arbitrary: w s)
  case (Cons x texts)
  have inv: "tx_inv s" using sends_inv [OF Cons.prems(1)] by simp
  have fits: "length x < tx_free s" by (rule tx_room_fits [OF inv]) (use Cons.prems(2) in simp)
  obtain t where t: "usartWrite x (of_nat (length x)) s = Some (Inr t)" using usartWrite_ok [OF inv fits] by auto
  from Cons.IH [OF tx_write [OF Cons.prems(1) fits t] tx_room_after [OF inv _ t]] Cons.prems(2) t
  show ?case by (simp add: write_hook_def)
qed simp

text \<open>
  C12. What the program prints reaches the line: texts printed one after the other, whose bytes fit the
  room that is left (any amount below 6144 bytes on an idle port), all come out unchanged and in order,
  after at most four transfers, whatever the port was sending before.
\<close>

theorem printed_text_reaches_line:
  assumes "sends w s" and "length (concat texts) < tx_room s"
  shows "\<exists>s' s''. write_texts texts s = Some (Inr s') \<and> tx_cycles 4 s' = Inr s'' \<and>
     wire s'' = w @ concat texts \<and> tx_idle s''"
  using write_texts_ok [OF assms] sends_drained by blast

theorem printed_text_reaches_line_witness:
  "\<exists>s' s''. write_texts [[0x48, 0x49], [], [0x0D, 0x0A]] usart_start = Some (Inr s') \<and>
     tx_cycles 4 s' = Inr s'' \<and> wire s'' = [0x48, 0x49, 0x0D, 0x0A]"
  using printed_text_reaches_line [OF tx_start [OF usart_start_idle],
    of "[[0x48, 0x49], [], [0x0D, 0x0A]]"]
  by (auto simp: tx_room_def usart_start_def)

section \<open>The loop ends\<close>

lemma round_cases:
  assumes sh: "tx_shape s" and k: "nextTxBuffer s = slot s k" "k < 4"
  obtains (fault) "usartWrite_round data off sz s = Inl OutOfBounds"
  | (last_round) off' t where "usartWrite_round data off sz s = Inr (off', 0, t)"
  | (full) off' t n where
      "usartWrite_round data off sz s =
         Inr (off', (if slot s (Suc k) = dmaTxBuffer s then 0 else sz) - of_nat n, t)"
      "n = 2048 - slot_len s k" "tx_shape t" "dmaTxBuffer t = dmaTxBuffer s" "nextTxBuffer t = slot s (Suc k)"
      "slot_len t k = 2048" "\<forall>i<4. i \<noteq> k \<longrightarrow> slot_len t i = slot_len s i"
proof -
  define n where "n = min (unat sz) (2048 - slot_len s k)"
  have le: "slot_len s k \<le> 2048" using tx_shape_slot(4) [OF sh] .
  show thesis
  proof (cases "off + n \<le> length data")
    case False
    then show thesis using fault round_oob [OF sh k] by (simp add: n_def)
  next
    case True
    define bs where "bs = take n (drop off data)"
    have bs: "length bs = n" using True by (simp add: bs_def)
    note r = round_eq [OF sh k n_def True, folded bs_def, unfolded Let_def]
    show thesis
    proof (cases "slot_len s k + n = 2048")
      case False
      then have "n = unat sz" using le by (auto simp: n_def min_def split: if_splits)
      then show thesis using r False last_round by simp
    next
      case True
      define t where "t = (added s k bs)\<lparr>nextTxBuffer := slot s (Suc k)\<rparr>"
      have "tx_shape t" unfolding t_def
        by (rule tx_shape_next [OF tx_shape_added [OF sh]]) (use True bs in simp_all)
      moreover have "slot_len t k = 2048" "\<forall>i<4. i \<noteq> k \<longrightarrow> slot_len t i = slot_len s i"
        using slot_len_added [OF sh _ k(2), of _ bs] True bs k(2) by (auto simp: t_def)
      moreover have "dmaTxBuffer t = dmaTxBuffer s" "nextTxBuffer t = slot s (Suc k)"
        by (simp_all add: t_def)
      moreover have "n = 2048 - slot_len s k" using True le by simp
      ultimately show thesis using full r True by (simp add: t_def)
    qed
  qed
qed

lemma loop_Suc:
  "usartWrite_round data off sz s = Inr (off', sz', t) \<Longrightarrow>
   usartWrite_loop (Suc fuel) data off sz s =
     (if sz > 0 then usartWrite_loop fuel data off' sz' t else Some (Inr s))"
  by simp

text \<open>Once the last buffer is full, the loop stops when it comes back to the one in flight.\<close>

lemma loop_ends_full:
  assumes "tx_shape s" and "nextTxBuffer s = slot s k" "k < 4" and "slot_len s 3 = 2048" and "4 - k < fuel"
  shows "usartWrite_loop fuel data off sz s \<noteq> None"
  using assms
proof (induction fuel arbitrary: s k off sz)
  case (Suc fuel)
  obtain f where f: "fuel = Suc f" using Suc.prems(3,5) by (cases fuel) auto
  from Suc.prems(1-3) show ?case
  proof (cases rule: round_cases [of s k data off sz])
    case (full off' t n)
    show ?thesis
    proof (cases "k = 3")
      case True
      then have "n = 0" "slot s (Suc k) = dmaTxBuffer s"
        using full(2) Suc.prems(4) slot_4 [OF Suc.prems(1)] by (simp_all add: numeral_eq_Suc)
      then show ?thesis using full(1) f by simp
    next
      case False
      have "slot t = slot s" using full(4) by (simp add: slot_def fun_eq_iff)
      moreover have "slot_len t 3 = 2048" using full(7) Suc.prems(3,4) False by simp
      ultimately have "usartWrite_loop fuel data off' z t \<noteq> None" for z
        using Suc.IH [of t "Suc k" off' z] full(3,5) Suc.prems(3,5) False by simp
      then show ?thesis using full(1) by simp
    qed
  qed (simp_all add: f)
qed simp

lemma loop_ends:
  assumes "tx_shape s" and "nextTxBuffer s = slot s k" "k < 4" and "8 - k < fuel"
  shows "usartWrite_loop fuel data off sz s \<noteq> None"
  using assms
proof (induction fuel arbitrary: s k off sz)
  case (Suc fuel)
  obtain f where f: "fuel = Suc f" using Suc.prems(3,4) by (cases fuel) auto
  from Suc.prems(1-3) show ?case
  proof (cases rule: round_cases [of s k data off sz])
    case (full off' t n)
    have slot: "slot t = slot s" using full(4) by (simp add: slot_def fun_eq_iff)
    have "usartWrite_loop fuel data off' z t \<noteq> None" for z
    proof (cases "k = 3")
      case True
      then have "nextTxBuffer t = slot t 0"
        using full(5) slot slot_4 [OF Suc.prems(1)] slot_0 [OF Suc.prems(1)] by (simp add: numeral_eq_Suc)
      with True show ?thesis
        using loop_ends_full [OF full(3), of 0 fuel] full(6) Suc.prems(4) by simp
    next
      case False
      then show ?thesis using Suc.IH [of t "Suc k" off' z] full(3,5) slot Suc.prems(3,4) by simp
    qed
    then show ?thesis using full(1) by simp
  qed (simp_all add: f)
qed simp

text \<open>
  C29. \<^verbatim>\<open>usartWrite\<close> always returns (or faults): nine rounds of its loop are enough for any data, any size
  and any state of the four buffers, full ones and overruns included.
\<close>

theorem usart_write_returns:
  assumes "tx_shape s"
  shows "\<exists>r. usartWrite data sz s = Some r"
proof -
  have "nextTxBuffer s < 4" using assms unfolding tx_shape_def by blast
  then obtain k where "k < 4" "slot s k = nextTxBuffer s" using slot_surj [OF assms] by blast
  then have "usartWrite_loop WRITE_FUEL data 0 sz s \<noteq> None"
    using loop_ends [OF assms, of k WRITE_FUEL] by (simp add: WRITE_FUEL_def)
  then show ?thesis by (auto simp: usartWrite_def)
qed

theorem usart_write_returns_witness: "\<exists>r. usartWrite [1, 2, 3] 3 usart_start = Some r"
  using usart_write_returns [OF usart_start_idle(1)] .

section \<open>Overruns\<close>

lemma unat_neg_of_nat:
  assumes "n < 65536" and "0 < n"
  shows "unat (0 - of_nat n :: u16) = 65536 - n"
proof -
  have "(of_nat 65536 :: u16) = 0" by simp
  then have eq: "(0 - of_nat n :: u16) = of_nat (65536 - n)"
    using assms of_nat_diff [of n 65536, where ?'a = u16] by simp
  show ?thesis unfolding eq unat_of_nat using assms by simp
qed

lemma loop_overrun:
  assumes "tx_shape s" and "filling s k" and "0 < k" and "slot_len s 0 < 2048"
    and "unat sz + off = length data" and "(4 - k) * 2048 - slot_len s k \<le> unat sz"
    and "unat sz < (4 - k) * 2048 - slot_len s k + (2048 - slot_len s 0)" and "4 - k < fuel"
  shows "usartWrite_loop fuel data off sz s = Some (Inl OutOfBounds)"
  using assms
proof (induction fuel arbitrary: s k off sz)
  case (Suc fuel)
  define n where "n = 2048 - slot_len s k"
  have k: "nextTxBuffer s = slot s k" "k < 4" "slot_len s k < 2048"
    using Suc.prems(2) by (simp_all add: filling_def)
  have "2048 - slot_len s k \<le> (4 - k) * 2048 - slot_len s k" using k(2) by (intro diff_le_mono) simp
  then have n_le: "n \<le> unat sz" "0 < n" using Suc.prems(6) k(3) by (simp_all add: n_def)
  then have pos: "0 < sz" by (simp add: word_gt_0 flip: unat_eq_0)
  have n: "n = min (unat sz) (2048 - slot_len s k)" using n_le by (simp add: n_def)
  have off: "off + n \<le> length data" using Suc.prems(5) n_le by simp
  define bs where "bs = take n (drop off data)"
  have bs: "length bs = n" using off by (simp add: bs_def)
  have fullk: "slot_len s k + n = 2048" "slot_len s k + length bs = 2048" using k(3) bs by (simp_all add: n_def)
  define t where "t = (added s k bs)\<lparr>nextTxBuffer := slot s (Suc k)\<rparr>"
  have r: "usartWrite_round data off sz s =
      Inr (off + n, (if slot s (Suc k) = dmaTxBuffer s then 0 else sz) - of_nat n, t)"
    using round_eq [OF Suc.prems(1) k(1,2) n off] fullk by (simp add: Let_def bs_def t_def)
  have first: "slot_len t 0 = slot_len s 0"
    using slot_len_added [OF Suc.prems(1) _ k(2), of 0 bs] Suc.prems(3) by (simp add: t_def)
  obtain f where f: "fuel = Suc f" using Suc.prems(8) k(2) by (cases fuel) auto
  show ?case
  proof (cases "k = 3")
    case True
    have sht: "tx_shape t" unfolding t_def
      by (rule tx_shape_next [OF tx_shape_added [OF Suc.prems(1)]]) (use fullk in simp_all)
    have dma: "slot s (Suc k) = dmaTxBuffer s" using slot_4 [OF Suc.prems(1)] True by (simp add: numeral_eq_Suc)
    have next0: "nextTxBuffer t = slot t 0"
      using dma slot_0 [OF Suc.prems(1)] by (simp add: t_def)
    have "n < 65536" using n_def by simp
    then have sz': "unat (0 - of_nat n :: u16) = 65536 - n" using n_le(2) by (rule unat_neg_of_nat)
    have "usartWrite_round data (off + n) (0 - of_nat n) t = Inl OutOfBounds"
      by (rule round_oob [OF sht next0])
        (use sz' first Suc.prems(4,5,7) True n_def k(3) in auto)
    moreover have "unat (0 - of_nat n :: u16) \<noteq> 0" using sz' \<open>n < 65536\<close> by linarith
    then have "0 < (0 - of_nat n :: u16)" by (metis unat_0 word_gt_0)
    ultimately show ?thesis using r dma f pos by simp
  next
    case False
    then have Suck: "Suc k < 4" using k(2) by simp
    note t = filling_next [OF Suc.prems(1,2) fullk(2) Suck, folded t_def]
    have "slot s (Suc k) \<noteq> dmaTxBuffer s" using slot_eq_dma [OF Suc.prems(1), of "Suc k"] Suck by simp
    moreover have sz': "unat (sz - of_nat n) = unat sz - n" by (rule unat_sub_of_nat) (rule n_le)
    have "(4 - k) * 2048 = (4 - Suc k) * 2048 + 2048" using Suck by simp
    then have "usartWrite_loop fuel data (off + n) (sz - of_nat n) t = Some (Inl OutOfBounds)"
      using Suc.prems(4-8) n_le first t(4) sz' n_def k(3) Suck
      by (intro Suc.IH [OF t(1,2)]) linarith+
    ultimately show ?thesis using r pos by simp
  qed
qed simp

text \<open>
  An overrun is not dropped as the comment in \<^verbatim>\<open>usartWrite\<close> says: when a transfer of a buffer that is
  not full is under way and the data just fills the free space (or exceeds it by less than the room
  left in the buffer in flight), the reset \<^verbatim>\<open>size = 0\<close> is followed by \<^verbatim>\<open>size -= bytesToWrite\<close>, the
  16-bit size wraps, and the loop goes on copying from beyond the end of the data.
\<close>

theorem usart_overrun_reads_beyond:
  assumes "tx_inv s" and "tx_active s" and "slot_len s 0 < 2048"
    and "tx_free s \<le> length xs" and "length xs < tx_free s + (2048 - slot_len s 0)"
  shows "usartWrite xs (of_nat (length xs)) s = Some (Inl OutOfBounds)"
proof -
  have sh: "tx_shape s" using assms(1) by (simp add: tx_inv_def)
  obtain k where k: "filling s k" "0 < k" using assms(2) by (auto simp: tx_active_def)
  note free = tx_free_filling [OF sh k(1)]
  have "(4 - k) * 2048 \<le> 8192" by simp
  with free assms(5) have "length xs < 65536" by linarith
  then have sz: "unat (of_nat (length xs) :: u16) = length xs" by (simp add: unat_of_nat)
  have "k < 4" "slot_len s k < 2048" using k(1) by (simp_all add: filling_def)
  then have "2048 \<le> (4 - k) * 2048" "slot_len s k < 2048" by (simp_all add: Suc_le_eq)
  with free assms(4) have "0 < length xs" by linarith
  with sz have pos: "0 < (of_nat (length xs) :: u16)" by (simp add: word_gt_0 flip: unat_eq_0)
  have "usartWrite_loop WRITE_FUEL xs 0 (of_nat (length xs)) s = Some (Inl OutOfBounds)"
    by (rule loop_overrun [OF sh k assms(3)])
      (use sz assms(4,5) free \<open>0 < k\<close> in \<open>unfold sz WRITE_FUEL_def, linarith+\<close>)
  with pos show ?thesis by (simp add: usartWrite_def)
qed

text \<open>One byte in flight, and 6144 bytes to follow it.\<close>

lemma one_byte_written:
  "usartWrite [1] 1 usart_start =
     Some (Inr (usart_start\<lparr>txBuffers := [1 # replicate 2047 0, replicate 2048 0, replicate 2048 0, replicate 2048 0],
       txBufferLengths := [1, 0, 0, 0], nextTxBuffer := 1, txDmaActive := 1, txCR := 1, txNDTR := 1\<rparr>))"
proof -
  have rep: "replicate 4 b = [b, b, b, b]" for b :: "u8 list" by (simp add: numeral_eq_Suc)
  have "\<exists>f. WRITE_FUEL = Suc (Suc f)" by (rule exI [of _ 7]) (simp add: WRITE_FUEL_def)
  then obtain f where fuel: "WRITE_FUEL = Suc (Suc f)" by blast
  show ?thesis
    by (simp add: usartWrite_def fuel usartWrite_round_def startTxDma_def usart_start_def usart_sizes
      rep next_tx_def DMA_SxCR_EN_def Let_def)
qed

theorem usart_overrun_reads_beyond_witness:
  "\<exists>s. usartWrite [1] 1 usart_start = Some (Inr s) \<and>
     usartWrite (replicate 6144 0) (of_nat 6144) s = Some (Inl OutOfBounds)"
proof -
  define s where "s = usart_start\<lparr>txBuffers := [1 # replicate 2047 0, replicate 2048 0, replicate 2048 0,
      replicate 2048 0],
    txBufferLengths := [1, 0, 0, 0], nextTxBuffer := 1, txDmaActive := 1, txCR := 1, txNDTR := 1\<rparr>"
  have w: "usartWrite [1] 1 usart_start = Some (Inr s)" unfolding s_def by (rule one_byte_written)
  have inv: "tx_inv usart_start" using usart_start_idle by (simp add: tx_inv_def)
  have "length [1 :: u8] < tx_free usart_start" by (simp add: tx_free_def usart_start_def)
  from usartWrite_ok [OF inv this] w have "tx_inv s" by simp
  moreover from this have "tx_active s" by (auto simp: tx_inv_def tx_idle_def s_def)
  moreover have "tx_free s = 6144" "slot_len s 0 = 1"
    by (simp_all add: s_def tx_free_def slot_len_def slot_def usart_start_def)
  ultimately have "usartWrite (replicate 6144 0) (of_nat (length (replicate 6144 (0 :: u8)))) s =
      Some (Inl OutOfBounds)"
    by (intro usart_overrun_reads_beyond) simp_all
  with w show ?thesis by auto
qed

end
