(* ===== verification/OlympusComms.thy ===== *)
theory OlympusComms
  imports OlympusBoard UsbCdc Crc8
begin

text \<open>
  The packet protocol between the host and Olympus, \<^verbatim>\<open>olympus/drivers/comms.c\<close>, with the part of
  \<^verbatim>\<open>olympus/main.c\<close> that feeds it from the USB buffer and the function of \<^verbatim>\<open>tcp_server.c\<close> that sends
  over Ethernet. A handler collects a packet byte by byte in its 64-byte buffer; an intact packet
  runs the callback of its type and is answered.

  The network stack shows the code, for each attempt to send, the room in the send buffer and
  whether \<^verbatim>\<open>tcp_write\<close> succeeds (\<open>tcp_env\<close>; no entry means no room); \<open>tcp_log\<close> is what it accepted.
\<close>

section \<open>State\<close>

record board = olympus +
  status :: "u8 list"
  inputBuf :: "u8 list"
  sendBuffer :: "u8 list"        \<comment> \<open>the static \<^verbatim>\<open>packetBuffer\<close> of \<^verbatim>\<open>sendResponse\<close>\<close>
  usingUSB :: bool
  usb :: usb_dev
  tcp_env :: "(nat \<times> bool) list"
  tcp_log :: "(nat \<times> u8 list) list"

datatype CommsState_t = WAITING_FOR_START_1 | WAITING_FOR_START_2 | WAITING_FOR_HEADER
  | WAITING_FOR_DATA | WAITING_FOR_CRC

record CommsHandler_t =
  hstate :: CommsState_t
  packetBuffer :: "u8 list"
  packetIdx :: u32
  harg :: nat

definition MAX_PACKET_SIZE :: nat where "MAX_PACKET_SIZE = 64"
definition START_BYTE_1 :: u8 where "START_BYTE_1 = 0xF0"
definition START_BYTE_2 :: u8 where "START_BYTE_2 = 0x5A"

section \<open>The table of packet types\<close>

text \<open>Three callbacks that no entry of the table uses; their packet argument is not read.\<close>

definition toggleLED :: "board \<Rightarrow> board" where
  "toggleLED s = s\<lparr>oregs := HAL_GPIO_TogglePin GPIOA (GPIO_PIN 4) (oregs s)\<rparr>"

definition toggleLED2 :: "board \<Rightarrow> board" where
  "toggleLED2 s = s\<lparr>oregs := HAL_GPIO_TogglePin GPIOA (GPIO_PIN 5) (oregs s)\<rparr>"

definition toggleLED3 :: "board \<Rightarrow> board" where
  "toggleLED3 s = s\<lparr>oregs := HAL_GPIO_TogglePin GPIOA (GPIO_PIN 7) (oregs s)\<rparr>"

text \<open>
  \<open>inputData\<close> tells whether the entry has the input buffer or \<^verbatim>\<open>NULL\<close>; \<open>responseData\<close> reads the array
  the entry points to.
\<close>

record packetResponse_t =
  inputDataLen :: u32
  inputData :: bool
  responseDataLen :: u32
  responseData :: "(board \<Rightarrow> u8 list) option"
  pcallback :: "(u8 list \<Rightarrow> board \<Rightarrow> board stop + board) option"

definition entry where
  "entry inLen inp respLen resp cb = \<lparr>inputDataLen = inLen, inputData = inp, responseDataLen = respLen,
     responseData = resp, pcallback = cb\<rparr>"

lemma entry_simps [simp]:
  "inputDataLen (entry a b c d e) = a" "inputData (entry a b c d e) = b" "responseDataLen (entry a b c d e) = c"
  "responseData (entry a b c d e) = d" "pcallback (entry a b c d e) = e"
  by (simp_all add: entry_def)

definition commsSetTurnSignal :: "u8 list \<Rightarrow> board \<Rightarrow> board stop + board" where
  "commsSetTurnSignal data s = Inr s"

definition commsSetHeadlights :: "u8 list \<Rightarrow> board \<Rightarrow> board stop + board" where
  "commsSetHeadlights data s = Inr s"

definition commsSetMiscLights :: "u8 list \<Rightarrow> board \<Rightarrow> board stop + board" where
  "commsSetMiscLights data s = Inr s"

definition commsSetBrake :: "u8 list \<Rightarrow> board \<Rightarrow> board stop + board" where
  "commsSetBrake data s = Inr s"

definition response :: "packetResponse_t list" where
  "response = [
     entry 0 False 5 (Some status) None,
     entry 0 False 2 (Some hermesSpeed) None,
     entry 0 False 2 None None,
     entry 0 False 0 None None,
     entry 1 True 0 None (Some commsSetTurnSignal),
     entry 2 True 0 None (Some commsSetHeadlights),
     entry 2 True 0 None (Some commsSetMiscLights),
     entry 0 False 1 None None,
     entry 0 False 1 None None,
     entry 1 True 0 None (Some commsSetFNR),
     entry 1 True 0 None (Some commsSetSteering),
     entry 2 True 0 None (Some commsSetBrake),
     entry 0 False 0 None None,
     entry 2 True 0 None (Some commsSetSpeed),
     entry 2 True 0 None (Some (\<lambda>data s. ckd (commsSetLeds data s))),
     entry 0 False 16 (Some power) (Some (\<lambda>data s. ckd (commsPwradcCallback s))),
     entry 0 False 0 None (Some (\<lambda>data. killBoard)),
     entry 4 True 0 None (Some resetBoard)]"

section \<open>Packets\<close>

text \<open>A packet lies at the start of the buffer: two start bytes, type, sequence number, length, data.\<close>

definition checkPacket :: "u8 list \<Rightarrow> bool cres" where
  "checkPacket pb = bindE (rd pb 4) (\<lambda>len. bindE (crc8 pb (ucast len)) (\<lambda>c. Inr (c = 0)))"

definition runPacket :: "u8 list \<Rightarrow> board \<Rightarrow> board stop + board" where
  "runPacket pb s =
     bindE (ckd (rd pb 2)) (\<lambda>msgType. bindE (ckd (rd pb 4)) (\<lambda>len.
     let packetType = drop_bit 1 msgType; dataLen = len - 5 - 1 in
     bindE (ckd (rd response (unat packetType))) (\<lambda>r.
     bindE (if inputDataLen r > 0 then
              let bytesToCopy = (if inputDataLen r > ucast dataLen then ucast dataLen else inputDataLen r) in
              if inputData r then
                bindE (ckd (rd_range pb 5 (unat bytesToCopy))) (\<lambda>d.
                bindE (ckd (wr_range (inputBuf s) 0 d)) (\<lambda>b. Inr (s\<lparr>inputBuf := b\<rparr>)))
              else if bytesToCopy = 0 then Inr s else Inl (Faulted NullDeref)
            else Inr s) (\<lambda>s.
     case pcallback r of
       None \<Rightarrow> Inr s
     | Some cb \<Rightarrow> cb (if inputData r then inputBuf s else []) s))))"

text \<open>\<^verbatim>\<open>tcp_server_send\<close> of \<^verbatim>\<open>tcp_server.c\<close>.\<close>

definition tcp_server_send :: "nat \<Rightarrow> u8 list \<Rightarrow> board \<Rightarrow> board" where
  "tcp_server_send tpcb data s =
     (let (room, ok) = (case tcp_env s of [] \<Rightarrow> (0, False) | x # _ \<Rightarrow> x);
          s = s\<lparr>tcp_env := tl (tcp_env s)\<rparr>
      in if length data \<le> room then
           if ok then s\<lparr>tcp_log := tcp_log s @ [(tpcb, data)]\<rparr>
           else printf (''Failed to send ethernet data of size '' @ decimal (length data) @ '' {failed write)'') s
         else printf (''Failed to send ethernet data of size '' @ decimal (length data) @ '' (sndbuf full)'') s)"

definition sendResponse :: "nat \<Rightarrow> u8 list \<Rightarrow> board \<Rightarrow> board stop + board" where
  "sendResponse arg pb s =
     bindE (ckd (rd pb 2)) (\<lambda>msgType. bindE (ckd (rd pb 3)) (\<lambda>seqNumber.
     let packetType = drop_bit 1 msgType in
     bindE (ckd (rd response (unat packetType))) (\<lambda>r.
     let packetLen = (ucast (responseDataLen r + 5 + 1) :: u8) in
     bindE (ckd (wr_range (sendBuffer s) 0
              [START_BYTE_1, START_BYTE_2, msgType OR 1, seqNumber, packetLen])) (\<lambda>out.
     bindE (if responseDataLen r = 0 then Inr out
            else (case responseData r of
                    None \<Rightarrow> Inl (Faulted NullDeref)
                  | Some f \<Rightarrow> bindE (ckd (rd_range (f s) 0 (unat (responseDataLen r)))) (\<lambda>d.
                              ckd (wr_range out 5 d)))) (\<lambda>out.
     bindE (ckd (crc8 out (ucast (packetLen - 1)))) (\<lambda>c.
     bindE (ckd (wr out (5 + unat (responseDataLen r)) c)) (\<lambda>out.
     let s = s\<lparr>sendBuffer := out\<rparr> in
     if usingUSB s
     then bindE (ckd (usbWrite (usb s) out (ucast packetLen))) (\<lambda>(_, dev). Inr (s\<lparr>usb := dev\<rparr>))
     else bindE (ckd (rd_range out 0 (unat packetLen))) (\<lambda>bytes. Inr (tcp_server_send arg bytes s)))))))))"

section \<open>The state machine\<close>

definition for_handler :: "CommsHandler_t \<Rightarrow> board stop + 'b \<Rightarrow> (CommsHandler_t \<times> board) stop + 'b" where
  "for_handler h r = (case r of Inl e \<Rightarrow> Inl (map_stop (\<lambda>s. (h, s)) e) | Inr x \<Rightarrow> Inr x)"

lemma for_handler_simps [simp]: "for_handler h (Inr x) = Inr x"
  "for_handler h (Inl e) = Inl (map_stop (\<lambda>s. (h, s)) e)"
  by (simp_all add: for_handler_def)

text \<open>The comparison \<^verbatim>\<open>packetIdx == packetLen - 1\<close> is on 32-bit unsigned values.\<close>

definition comms_byte :: "u8 \<Rightarrow> CommsHandler_t \<times> board \<Rightarrow> (CommsHandler_t \<times> board) stop + (CommsHandler_t \<times> board)" where
  "comms_byte data hs = (case hs of (h, s) \<Rightarrow>
     (case hstate h of
        WAITING_FOR_START_1 \<Rightarrow>
          let h = h\<lparr>packetIdx := 0\<rparr> in
          if data = START_BYTE_1
          then bindE (ckd (wr (packetBuffer h) 0 data)) (\<lambda>pb.
               Inr (h\<lparr>hstate := WAITING_FOR_START_2, packetBuffer := pb, packetIdx := 1\<rparr>, s))
          else Inr (h, s)
      | WAITING_FOR_START_2 \<Rightarrow>
          if data = START_BYTE_2
          then bindE (ckd (wr (packetBuffer h) 1 data)) (\<lambda>pb.
               Inr (h\<lparr>hstate := WAITING_FOR_HEADER, packetBuffer := pb, packetIdx := 2\<rparr>, s))
          else Inr (h\<lparr>hstate := WAITING_FOR_START_1\<rparr>, s)
      | WAITING_FOR_HEADER \<Rightarrow>
          bindE (ckd (wr (packetBuffer h) (unat (packetIdx h)) data)) (\<lambda>pb.
          let h = h\<lparr>packetBuffer := pb, packetIdx := packetIdx h + 1\<rparr> in
          if packetIdx h = 5 - 1 then
            bindE (ckd (rd (packetBuffer h) 4)) (\<lambda>len.
            Inr (h\<lparr>hstate := if packetIdx h = ucast len - 1 then WAITING_FOR_CRC else WAITING_FOR_DATA\<rparr>, s))
          else Inr (h, s))
      | WAITING_FOR_DATA \<Rightarrow>
          bindE (ckd (wr (packetBuffer h) (unat (packetIdx h)) data)) (\<lambda>pb.
          let h = h\<lparr>packetBuffer := pb, packetIdx := packetIdx h + 1\<rparr> in
          bindE (ckd (rd (packetBuffer h) 4)) (\<lambda>len.
          Inr (if packetIdx h = ucast len - 1 then h\<lparr>hstate := WAITING_FOR_CRC\<rparr>
               else if packetIdx h \<ge> of_nat MAX_PACKET_SIZE - 1 then h\<lparr>hstate := WAITING_FOR_START_1\<rparr>
               else h, s)))
      | WAITING_FOR_CRC \<Rightarrow>
          bindE (ckd (wr (packetBuffer h) (unat (packetIdx h)) data)) (\<lambda>pb.
          let h = h\<lparr>packetBuffer := pb\<rparr> in
          bindE (ckd (checkPacket pb)) (\<lambda>ok.
          if \<not> ok then Inr (h\<lparr>hstate := WAITING_FOR_START_1\<rparr>, s)
          else
            bindE (for_handler h (bindE (runPacket pb s) (sendResponse (harg h) pb))) (\<lambda>s.
            Inr (h\<lparr>hstate := WAITING_FOR_START_1\<rparr>, s))))))"

definition runCommsFSM :: "u8 list \<Rightarrow> CommsHandler_t \<times> board \<Rightarrow> (CommsHandler_t \<times> board) stop + (CommsHandler_t \<times> board)" where
  "runCommsFSM buf hs = foldE comms_byte buf hs"

definition initCommsHandler :: "nat \<Rightarrow> CommsHandler_t \<Rightarrow> CommsHandler_t" where
  "initCommsHandler arg h = h\<lparr>hstate := WAITING_FOR_START_1, packetIdx := 0, harg := arg\<rparr>"

text \<open>
  The USB branch of the main loop, \<^verbatim>\<open>while (doubleBuffer_read(&usbReceiveBuffer, &dataIn, 1))\<close>, with the
  fuel of \<open>drain\<close>.
\<close>

definition usb_loop :: "nat \<Rightarrow> CommsHandler_t \<times> board \<Rightarrow> ((CommsHandler_t \<times> board) stop + (CommsHandler_t \<times> board)) option" where
  "usb_loop fuel hs =
     (case drain fuel (\<lambda>b. ckd (doubleBuffer_read1 b)) (\<lambda>d. runCommsFSM [d])
             (usbReceiveBuffer (usb (snd hs))) hs of
        None \<Rightarrow> None
      | Some (Inl e) \<Rightarrow> Some (Inl e)
      | Some (Inr (b, h, s)) \<Rightarrow> Some (Inr (h, s\<lparr>usb := (usb s)\<lparr>usbReceiveBuffer := b\<rparr>\<rparr>)))"

section \<open>The handler's buffer\<close>

text \<open>
  What always holds of a handler: its buffer has 64 bytes, the index stays inside it, and past the
  header the length byte of the packet is either the one the state machine is counting to or not yet
  received.
\<close>

definition hdl_ok :: "CommsHandler_t \<Rightarrow> bool" where
  "hdl_ok h \<longleftrightarrow> length (packetBuffer h) = MAX_PACKET_SIZE \<and>
     (case hstate h of
        WAITING_FOR_START_1 \<Rightarrow> True
      | WAITING_FOR_START_2 \<Rightarrow> True
      | WAITING_FOR_HEADER \<Rightarrow> packetIdx h = 2 \<or> packetIdx h = 3
      | WAITING_FOR_DATA \<Rightarrow> 4 \<le> unat (packetIdx h) \<and> unat (packetIdx h) < 63
      | WAITING_FOR_CRC \<Rightarrow> packetIdx h = 4 \<or>
          5 \<le> unat (packetIdx h) \<and> unat (packetIdx h) < 64 \<and>
          unat (packetBuffer h ! 4) = unat (packetIdx h) + 1)"

lemma counted_iff:
  assumes "unat i < 255"
  shows "(i :: u32) = ucast (len :: u8) - 1 \<longleftrightarrow> unat len = unat i + 1"
proof -
  have "i = ucast len - 1 \<longleftrightarrow> i + 1 = ucast len" by (auto simp: algebra_simps)
  also have "\<dots> \<longleftrightarrow> unat (i + 1) = unat len" by (simp add: word_unat_eq_iff)
  finally show ?thesis using assms by (auto simp: unat_simps)
qed

lemma index_below_63: "unat i < 63 \<Longrightarrow> unat (i + 1 :: u32) = unat i + 1"
  by (simp add: unat_simps)

lemma last_index_iff: "of_nat MAX_PACKET_SIZE - 1 \<le> (i :: u32) \<longleftrightarrow> 63 \<le> unat i"
  by (simp add: MAX_PACKET_SIZE_def word_le_nat_alt)

lemma comms_start1:
  "hstate h = WAITING_FOR_START_1 \<Longrightarrow> length (packetBuffer h) = 64 \<Longrightarrow>
   comms_byte d (h, s) = Inr (if d = START_BYTE_1
     then (h\<lparr>hstate := WAITING_FOR_START_2, packetBuffer := (packetBuffer h)[0 := d], packetIdx := 1\<rparr>, s)
     else (h\<lparr>packetIdx := 0\<rparr>, s))"
  by (simp add: comms_byte_def Let_def)

lemma comms_start2:
  "hstate h = WAITING_FOR_START_2 \<Longrightarrow> length (packetBuffer h) = 64 \<Longrightarrow>
   comms_byte d (h, s) = Inr (if d = START_BYTE_2
     then (h\<lparr>hstate := WAITING_FOR_HEADER, packetBuffer := (packetBuffer h)[1 := d], packetIdx := 2\<rparr>, s)
     else (h\<lparr>hstate := WAITING_FOR_START_1\<rparr>, s))"
  by (simp add: comms_byte_def)

lemma comms_header2:
  "hstate h = WAITING_FOR_HEADER \<Longrightarrow> length (packetBuffer h) = 64 \<Longrightarrow> packetIdx h = 2 \<Longrightarrow>
   comms_byte d (h, s) = Inr (h\<lparr>packetBuffer := (packetBuffer h)[2 := d], packetIdx := 3\<rparr>, s)"
  by (simp add: comms_byte_def)

lemma comms_header3:
  "hstate h = WAITING_FOR_HEADER \<Longrightarrow> length (packetBuffer h) = 64 \<Longrightarrow> packetIdx h = 3 \<Longrightarrow>
   comms_byte d (h, s) = Inr (h\<lparr>hstate := if packetBuffer h ! 4 = 5 then WAITING_FOR_CRC else WAITING_FOR_DATA,
     packetBuffer := (packetBuffer h)[3 := d], packetIdx := 4\<rparr>, s)"
  using counted_iff [of 4 "packetBuffer h ! 4"]
  by (simp add: comms_byte_def word_unat_eq_iff [of "packetBuffer h ! 4" 5])

lemma comms_data:
  "hstate h = WAITING_FOR_DATA \<Longrightarrow> length (packetBuffer h) = 64 \<Longrightarrow> unat (packetIdx h) < 63 \<Longrightarrow>
   comms_byte d (h, s) =
     (let pb = (packetBuffer h)[unat (packetIdx h) := d] in
      Inr (h\<lparr>hstate := (if unat (pb ! 4) = unat (packetIdx h) + 2 then WAITING_FOR_CRC
                        else if unat (packetIdx h) = 62 then WAITING_FOR_START_1 else WAITING_FOR_DATA),
             packetBuffer := pb, packetIdx := packetIdx h + 1\<rparr>, s))"
  using counted_iff [of "packetIdx h + 1" "(packetBuffer h)[unat (packetIdx h) := d] ! 4"]
  by (simp add: comms_byte_def Let_def index_below_63 last_index_iff)

lemma checkPacket_eq:
  "length pb = 64 \<Longrightarrow> checkPacket pb =
     (if unat (pb ! 4) \<le> 64 then Inr (crc8_of (take (unat (pb ! 4)) pb) = 0) else Inl OutOfBounds)"
  by (simp add: checkPacket_def crc8_eq crc8_oob not_le)

lemma comms_crc:
  assumes "hstate h = WAITING_FOR_CRC" "length (packetBuffer h) = 64" "unat (packetIdx h) < 64"
    and "pb = (packetBuffer h)[unat (packetIdx h) := d]"
  shows "comms_byte d (h, s) =
    (if 64 < unat (pb ! 4) then Inl (Faulted OutOfBounds)
     else if crc8_of (take (unat (pb ! 4)) pb) \<noteq> 0 then Inr (h\<lparr>packetBuffer := pb, hstate := WAITING_FOR_START_1\<rparr>, s)
     else bindE (for_handler (h\<lparr>packetBuffer := pb\<rparr>) (bindE (runPacket pb s) (sendResponse (harg h) pb)))
            (\<lambda>s. Inr (h\<lparr>packetBuffer := pb, hstate := WAITING_FOR_START_1\<rparr>, s)))"
  using assms by (simp add: comms_byte_def checkPacket_eq Let_def)

lemmas comms_steps = comms_start1 comms_start2 comms_header2 comms_header3 comms_data comms_crc [OF _ _ _ refl]

section \<open>Collecting a packet\<close>

text \<open>A packet as host and board build it: header, data and the checksum of what precedes it.\<close>

definition body :: "u8 \<Rightarrow> u8 \<Rightarrow> u8 list \<Rightarrow> u8 list" where
  "body t q data = [START_BYTE_1, START_BYTE_2, t, q, of_nat (6 + length data)] @ data"

definition packet :: "u8 \<Rightarrow> u8 \<Rightarrow> u8 list \<Rightarrow> u8 list" where
  "packet t q data = body t q data @ [crc8_of (body t q data)]"

text \<open>
  A handler between packets. The condition on the fifth byte excludes the length a previous packet
  may have left behind that would end the header too early.
\<close>

definition idle :: "CommsHandler_t \<Rightarrow> bool" where
  "idle h \<longleftrightarrow> hstate h = WAITING_FOR_START_1 \<and> length (packetBuffer h) = MAX_PACKET_SIZE \<and> packetBuffer h ! 4 \<noteq> 5"

lemma length_body [simp]: "length (body t q data) = 5 + length data"
  by (simp add: body_def)

lemma length_packet [simp]: "length (packet t q data) = 6 + length data"
  by (simp add: packet_def)

lemma body_4 [simp]: "body t q data ! 4 = of_nat (6 + length data)"
  by (simp add: body_def)

lemma unat_len: "length data \<le> 58 \<Longrightarrow> unat (of_nat (6 + length data) :: u8) = 6 + length data"
  by (rule unat_of_nat_u8) simp

lemma collect_packet_data:
  assumes "hstate h = WAITING_FOR_DATA" "length (packetBuffer h) = 64" "unat (packetIdx h) = k" "5 \<le> k"
    and "unat (packetBuffer h ! 4) = k + length ds + 1" "ds \<noteq> []" "k + length ds < 64"
  shows "foldE comms_byte ds (h, s) = Inr (h\<lparr>hstate := WAITING_FOR_CRC,
    packetBuffer := take k (packetBuffer h) @ ds @ drop (k + length ds) (packetBuffer h),
    packetIdx := of_nat (k + length ds)\<rparr>, s)"
  using assms
proof (induction ds arbitrary: h k)
  case (Cons d ds)
  let ?pb = "(packetBuffer h)[k := d]"
  have k: "k < 63" "unat (packetBuffer h ! 4) = k + length ds + 2" using Cons.prems by auto
  then have idx: "packetIdx h + 1 = of_nat (k + 1)" "unat (packetIdx h + 1) = k + 1"
      "unat (of_nat (k + 1) :: u32) = k + 1"
    using Cons.prems(3) by (auto simp: word_unat_eq_iff unat_simps)
  have pb: "?pb = take k (packetBuffer h) @ d # drop (Suc k) (packetBuffer h)"
    using Cons.prems(2,7) by (simp add: upd_conv_take_nth_drop)
  have step: "comms_byte d (h, s) = Inr (h\<lparr>hstate := if ds = [] then WAITING_FOR_CRC else WAITING_FOR_DATA,
      packetBuffer := ?pb, packetIdx := of_nat (k + 1)\<rparr>, s)"
    using Cons.prems k idx by (auto simp: comms_data Let_def)
  show ?case
  proof (cases "ds = []")
    case True
    with step pb show ?thesis by simp
  next
    case False
    let ?h = "h\<lparr>packetBuffer := ?pb, packetIdx := of_nat (k + 1)\<rparr>"
    have "foldE comms_byte ds (?h, s) = Inr (?h\<lparr>hstate := WAITING_FOR_CRC,
        packetBuffer := take (k + 1) ?pb @ ds @ drop (k + 1 + length ds) ?pb,
        packetIdx := of_nat (k + 1 + length ds)\<rparr>, s)"
      using Cons.IH [of ?h "k + 1"] Cons.prems k idx False by simp
    moreover have "take (k + 1) ?pb = take k (packetBuffer h) @ [d]"
      using Cons.prems by (simp add: take_Suc_update)
    moreover have "h\<lparr>hstate := WAITING_FOR_DATA, packetBuffer := ?pb, packetIdx := of_nat (k + 1)\<rparr> = ?h"
      using Cons.prems(1) by simp
    ultimately show ?thesis using step False by simp
  qed
qed simp

lemma collect_header:
  assumes "idle h"
  shows "foldE comms_byte [START_BYTE_1, START_BYTE_2, t, q] (h, s) = Inr (h\<lparr>hstate := WAITING_FOR_DATA,
    packetBuffer := [START_BYTE_1, START_BYTE_2, t, q] @ drop 4 (packetBuffer h), packetIdx := 4\<rparr>, s)"
proof -
  from assms obtain b0 b1 b2 b3 b4 bs where "packetBuffer h = b0 # b1 # b2 # b3 # b4 # bs" "length bs = 59" "b4 \<noteq> 5"
    by (auto simp: idle_def MAX_PACKET_SIZE_def length_Suc_conv eval_nat_numeral)
  with assms show ?thesis by (simp add: idle_def comms_steps START_BYTE_1_def START_BYTE_2_def)
qed

lemma drop_5_more: "drop (5 + n) (a # b # c # d # e # drop 5 xs) = drop (5 + n) xs"
proof -
  have "5 + n = Suc (Suc (Suc (Suc (Suc n))))" by simp
  then have "drop (5 + n) (a # b # c # d # e # drop 5 xs) = drop n (drop 5 xs)" by (simp only: drop_Suc_Cons)
  then show ?thesis by (simp add: add.commute)
qed

lemma collect_body:
  assumes "idle h" "length data \<le> 58"
  shows "foldE comms_byte (body t q data) (h, s) = Inr (h\<lparr>hstate := WAITING_FOR_CRC,
    packetBuffer := body t q data @ drop (5 + length data) (packetBuffer h),
    packetIdx := of_nat (5 + length data)\<rparr>, s)"
proof -
  let ?len = "of_nat (6 + length data) :: u8"
  let ?pre = "[START_BYTE_1, START_BYTE_2, t, q]"
  define h4 where "h4 = h\<lparr>hstate := WAITING_FOR_DATA, packetBuffer := ?pre @ drop 4 (packetBuffer h), packetIdx := 4\<rparr>"
  have len: "length (packetBuffer h) = 64" using assms(1) by (simp add: idle_def MAX_PACKET_SIZE_def)
  then have d4: "drop 4 (packetBuffer h) = packetBuffer h ! 4 # drop 5 (packetBuffer h)"
    by (simp add: Cons_nth_drop_Suc [symmetric])
  define h5 where "h5 = h4\<lparr>hstate := if data = [] then WAITING_FOR_CRC else WAITING_FOR_DATA,
    packetBuffer := ?pre @ [?len] @ drop 5 (packetBuffer h), packetIdx := 5\<rparr>"
  have 5: "comms_byte ?len (h4, s) = Inr (h5, s)"
    using len d4 unat_len [OF assms(2)] by (simp add: comms_data h4_def h5_def)
  have "foldE comms_byte (?len # data) (h4, s) = Inr (h\<lparr>hstate := WAITING_FOR_CRC,
      packetBuffer := body t q data @ drop (5 + length data) (packetBuffer h),
      packetIdx := of_nat (5 + length data)\<rparr>, s)"
  proof (cases "data = []")
    case True
    with 5 show ?thesis by (simp add: h5_def h4_def body_def)
  next
    case False
    with collect_packet_data [of h5 5 data s] len unat_len [OF assms(2)] assms(2) 5 show ?thesis
      by (simp add: h5_def h4_def body_def drop_5_more)
  qed
  moreover have "body t q data = ?pre @ ?len # data" by (simp add: body_def)
  ultimately show ?thesis
    by (simp only: foldE_append collect_header [OF assms(1)] h4_def [symmetric] bindE_Inr)
qed

text \<open>What the buffer holds when the checksum byte \<open>c\<close> has arrived, and what is done then.\<close>

definition received :: "u8 list \<Rightarrow> u8 list \<Rightarrow> u8 list" where
  "received bytes old = bytes @ drop (length bytes) old"

lemma received_props:
  assumes "length old = 64" "length data \<le> 58"
  shows "length (received (body t q data @ [c]) old) = 64"
    and "received (body t q data @ [c]) old ! 4 = of_nat (6 + length data)"
    and "take (6 + length data) (received (body t q data @ [c]) old) = body t q data @ [c]"
  using assms by (simp_all add: received_def nth_append)

lemma packet_dispatched:
  assumes "idle h" "length data \<le> 58" and pb: "pb = received (body t q data @ [c]) (packetBuffer h)"
    and h': "h' = h\<lparr>hstate := WAITING_FOR_CRC, packetBuffer := pb, packetIdx := of_nat (5 + length data)\<rparr>"
  shows "runCommsFSM (body t q data @ [c]) (h, s) =
    (if c \<noteq> crc8_of (body t q data) then Inr (h'\<lparr>hstate := WAITING_FOR_START_1\<rparr>, s)
     else bindE (for_handler h' (bindE (runPacket pb s) (sendResponse (harg h) pb)))
            (\<lambda>s. Inr (h'\<lparr>hstate := WAITING_FOR_START_1\<rparr>, s)))"
proof -
  let ?n = "5 + length data"
  define hC where "hC = h\<lparr>hstate := WAITING_FOR_CRC, packetBuffer := body t q data @ drop ?n (packetBuffer h), packetIdx := of_nat ?n\<rparr>"
  have len: "length (packetBuffer h) = 64" using assms(1) by (simp add: idle_def MAX_PACKET_SIZE_def)
  have n: "unat (of_nat ?n :: u32) = ?n" by (rule unat_of_nat_u32) (use assms(2) in simp)
  have "pb = (body t q data @ drop ?n (packetBuffer h))[?n := c]"
    using len assms(2) by (simp add: pb received_def Cons_nth_drop_Suc [symmetric])
  with n have pbC: "pb = (packetBuffer hC)[unat (packetIdx hC) := c]" by (simp add: hC_def)
  have "comms_byte c (hC, s) =
    (if crc8_of (body t q data @ [c]) \<noteq> 0 then Inr (hC\<lparr>packetBuffer := pb, hstate := WAITING_FOR_START_1\<rparr>, s)
     else bindE (for_handler (hC\<lparr>packetBuffer := pb\<rparr>) (bindE (runPacket pb s) (sendResponse (harg h) pb)))
            (\<lambda>s. Inr (hC\<lparr>packetBuffer := pb, hstate := WAITING_FOR_START_1\<rparr>, s)))"
    using comms_crc [OF _ _ _ pbC, of s] n len assms(2) received_props [OF len assms(2), of t q c, folded pb]
      unat_len [OF assms(2)] by (simp add: hC_def)
  moreover have "hC\<lparr>packetBuffer := pb\<rparr> = h'"
    "hC\<lparr>packetBuffer := pb, hstate := WAITING_FOR_START_1\<rparr> = h'\<lparr>hstate := WAITING_FOR_START_1\<rparr>"
    by (simp_all add: h' hC_def)
  ultimately show ?thesis
    by (simp add: runCommsFSM_def foldE_append collect_body [OF assms(1,2)] hC_def [symmetric] crc_zero_iff
        foldE_single del: of_nat_add foldE.simps)
qed

section \<open>Running and answering a packet\<close>

text \<open>
  What \<^verbatim>\<open>runPacket\<close> comes to for a packet with data \<open>data\<close>: the bytes the entry asks for, as far as the
  packet has them, go to the input buffer, and the callback runs on it.
\<close>

definition dispatch :: "packetResponse_t \<Rightarrow> u8 list \<Rightarrow> board \<Rightarrow> board stop + board" where
  "dispatch r data s =
     (let d = take (unat (inputDataLen r)) data;
          s = s\<lparr>inputBuf := d @ drop (length d) (inputBuf s)\<rparr>
      in case pcallback r of None \<Rightarrow> Inr s | Some cb \<Rightarrow> cb (if inputData r then inputBuf s else []) s)"

lemma length_response [simp]: "length response = 18"
  by (simp add: response_def)

lemma response_entries: "r \<in> set response \<Longrightarrow> unat (inputDataLen r) \<le> 4 \<and> (inputDataLen r > 0 \<longrightarrow> inputData r) \<and>
    unat (responseDataLen r) \<le> 16"
  by (auto simp: response_def)

lemma received_nth:
  assumes "length old = 64" "length data \<le> 58"
  shows "received (packet t q data) old ! 2 = t" "received (packet t q data) old ! 3 = q"
    "received (packet t q data) old ! 4 = of_nat (6 + length data)"
    "n \<le> length data \<Longrightarrow> take n (drop 5 (received (packet t q data) old)) = take n data"
  by (simp_all add: received_def packet_def body_def)

lemma runPacket_dispatch:
  assumes "length old = 64" "length data \<le> 58" "length (inputBuf s) = 256"
    and "unat (drop_bit 1 t :: u8) < 18" and r: "r = response ! unat (drop_bit 1 t :: u8)"
    and pb: "pb = received (packet t q data) old"
  shows "runPacket pb s = dispatch r data s"
proof -
  define n where "n = min (unat (inputDataLen r)) (length data)"
  define L where "L = pb ! 4 - 5 - 1"
  define bc where "bc = (if inputDataLen r > ucast L then ucast L else inputDataLen r)"
  have len: "length pb = 64" using assms(1,2) by (simp add: pb received_def)
  note nths = received_nth [OF assms(1,2), where t = t and q = q, folded pb]
  have r': "unat (inputDataLen r) \<le> 4" "inputDataLen r > 0 \<Longrightarrow> inputData r"
    using response_entries [of r] assms(4) by (simp_all add: r)
  have "unat L = length data" using assms(2) nths(3) by (simp add: L_def unat_of_nat)
  then have bc: "unat bc = n" by (simp add: bc_def n_def word_less_nat_alt)
  have rds: "rd pb 2 = Inr t" "rd pb 4 = Inr (pb ! 4)" "rd response (unat (drop_bit 1 t)) = Inr r"
    using len nths(1) assms(4) by (simp_all add: r)
  have copy: "rd_range pb 5 n = Inr (take n data)" "wr_range (inputBuf s) 0 (take n data) =
      Inr (take n data @ drop n (inputBuf s))"
    using len assms(2,3) nths(4) by (simp_all add: n_def)
  have "runPacket pb s = (if inputDataLen r > 0
     then (case pcallback r of None \<Rightarrow> Inr (s\<lparr>inputBuf := take n data @ drop n (inputBuf s)\<rparr>)
           | Some cb \<Rightarrow> cb (take n data @ drop n (inputBuf s)) (s\<lparr>inputBuf := take n data @ drop n (inputBuf s)\<rparr>))
     else case pcallback r of None \<Rightarrow> Inr s | Some cb \<Rightarrow> cb (if inputData r then inputBuf s else []) s)"
    unfolding runPacket_def Let_def rds ckd_simps bindE_Inr L_def [symmetric] bc_def [symmetric] bc copy
    using r'(2) by (cases "inputDataLen r > 0") (simp_all add: copy split: option.split)
  then show ?thesis
    using r'(2) by (auto simp: dispatch_def Let_def n_def min_def word_gt_0 split: option.splits)
qed

text \<open>The data an entry answers with in state \<open>s\<close>.\<close>

definition answer :: "packetResponse_t \<Rightarrow> board \<Rightarrow> u8 list \<Rightarrow> bool" where
  "answer r s resp \<longleftrightarrow> length resp = unat (responseDataLen r) \<and>
     (resp = [] \<or> (\<exists>f. responseData r = Some f \<and> length resp \<le> length (f s) \<and> resp = take (length resp) (f s)))"

lemma wr_range_front: "length xs = k \<Longrightarrow> k \<le> length a \<Longrightarrow> wr_range a 0 xs = Inr (xs @ drop k a)"
  by auto

lemma sendResponse_eq:
  assumes "length old = 64" "length data \<le> 58" "length (sendBuffer s) = 64"
    and "unat (drop_bit 1 t :: u8) < 18" and r: "r = response ! unat (drop_bit 1 t :: u8)"
    and pb: "pb = received (packet t q data) old" and "answer r s resp"
    and out: "out = received (packet (t OR 1) q resp) (sendBuffer s)"
  shows "sendResponse arg pb s =
    (if usingUSB s
     then bindE (ckd (usbWrite (usb s) out (of_nat (6 + length resp)))) (\<lambda>(_, dev). Inr (s\<lparr>sendBuffer := out, usb := dev\<rparr>))
     else Inr (tcp_server_send arg (packet (t OR 1) q resp) (s\<lparr>sendBuffer := out\<rparr>)))"
proof -
  let ?hd = "[START_BYTE_1, START_BYTE_2, t OR 1, q, of_nat (6 + length resp)]"
  define n where "n = length resp"
  have n: "unat (responseDataLen r) = n" "n \<le> 16"
    using assms(4,7) response_entries [of r] by (auto simp: answer_def n_def r)
  have rl: "responseDataLen r = of_nat n" by (simp add: n(1) [symmetric])
  have "unat (responseDataLen r + 5 + 1) = 6 + n"
    using n by (simp add: unat_simps)
  then have pl: "(ucast (responseDataLen r + 5 + 1) :: u8) = of_nat (6 + n)"
    by (metis of_nat_unat)
  have "(of_nat (6 + n) - 1 :: u8) = of_nat (5 + n)" by simp
  then have pl1: "unat (ucast (of_nat (6 + n) - 1 :: u8) :: u32) = 5 + n"
    using n(2) unat_of_nat_u8 [of "5 + n"] by (simp only: unat_ucast_u8_u32)
  have u6: "unat (of_nat (6 + n) :: u8) = 6 + n" using n(2) by (intro unat_of_nat_u8) simp
  have rds: "rd pb 2 = Inr t" "rd pb 3 = Inr q" "rd response (unat (drop_bit 1 t)) = Inr r"
    using assms(1,2,4) received_nth [OF assms(1,2), where t = t and q = q, folded pb]
    by (simp_all add: r) (simp_all add: rd_def pb received_def)
  define o1 where "o1 = ?hd @ drop 5 (sendBuffer s)"
  have w1: "wr_range (sendBuffer s) 0 [START_BYTE_1, START_BYTE_2, t OR 1, q, of_nat (6 + n)] = Inr o1"
    unfolding o1_def n_def by (rule wr_range_front) (simp_all add: assms(3))
  define o2 where "o2 = body (t OR 1) q resp @ drop (5 + n) (sendBuffer s)"
  have w2: "(if responseDataLen r = 0 then Inr o1
            else (case responseData r of
                    None \<Rightarrow> Inl (Faulted NullDeref)
                  | Some f \<Rightarrow> bindE (ckd (rd_range (f s) 0 n)) (\<lambda>d.
                              ckd (wr_range o1 5 d)))) = Inr o2"
  proof (cases "resp = []")
    case True
    then show ?thesis by (simp add: rl n_def o1_def o2_def body_def)
  next
    case False
    with assms(7) obtain f where f: "responseData r = Some f" "n \<le> length (f s)" "resp = take n (f s)"
      unfolding answer_def n_def by blast
    have "responseDataLen r \<noteq> 0" using False n(1) by (auto simp: n_def)
    moreover have "wr_range o1 5 resp = Inr o2"
      using assms(3) n(2) drop_5_more by (simp add: o1_def o2_def body_def n_def)
    ultimately show ?thesis using f(1,2) n(1) by (simp add: f(3) [symmetric])
  qed
  have l2: "length o2 = 64" using assms(3) n(2) by (simp add: o2_def n_def)
  then have c: "crc8 o2 (ucast (of_nat (6 + n) - 1 :: u8)) = Inr (crc8_of (body (t OR 1) q resp))"
    using n(2) pl1 by (simp add: crc8_eq) (simp add: o2_def n_def)
  have w3: "wr o2 (5 + n) (crc8_of (body (t OR 1) q resp)) = Inr out"
  proof -
    have "drop (5 + n) (sendBuffer s) = sendBuffer s ! (5 + n) # drop (6 + n) (sendBuffer s)"
      using Cons_nth_drop_Suc [of "5 + n" "sendBuffer s"] n(2) assms(3) by simp
    then have "o2[5 + n := c] = body (t OR 1) q resp @ c # drop (6 + n) (sendBuffer s)" for c
      unfolding o2_def by (simp add: n_def)
    with l2 n(2) show ?thesis
      by (simp only: wr_def out received_def packet_def length_append length_body n_def) simp
  qed
  have w4: "rd_range out 0 (unat (of_nat (6 + n) :: u8)) = Inr (packet (t OR 1) q resp)"
    unfolding u6 using n(2) assms(3) by (simp add: out received_def n_def)
  have w5: "(ucast (of_nat (6 + n) :: u8) :: u16) = of_nat (6 + length resp)"
    by (metis of_nat_unat u6 n_def)
  show ?thesis
    unfolding sendResponse_def Let_def rds ckd_simps bindE_Inr pl w1 n(1) w2 c w3 w4 w5
    by simp
qed

lemma usbWrite_sends:
  assumes "pClassData dev = Some hcdc" "TxState hcdc = 0" "unat len = length p"
  shows "\<exists>dev'. usbWrite dev (received p old) len = Inr (USBD_OK, dev') \<and> transmitted dev' = transmitted dev @ [p] \<and>
    usbReceiveBuffer dev' = usbReceiveBuffer dev"
  using assms
  by (simp add: usbWrite_def USBD_CDC_SetTxBuffer_def USBD_CDC_TransmitPacket_def received_def
      unsigned_ucast_eq take_bit_nat_eq_self_iff order_less_trans [OF u16_less])

text \<open>The board and its handler before the first packet.\<close>

definition board_start :: "mspi \<Rightarrow> usb_dev \<Rightarrow> board" where
  "board_start m dev = olympus.extend (olympus_start m)
     (board.fields (replicate 5 0) (replicate 256 0) (replicate 64 0) True dev [] [])"

definition handler_start :: CommsHandler_t where
  "handler_start = initCommsHandler 0 \<lparr>hstate = WAITING_FOR_START_1, packetBuffer = replicate 64 0, packetIdx = 0, harg = 0\<rparr>"

definition usb_idle :: usb_dev where
  "usb_idle = \<lparr>pClassData = Some \<lparr>cdata = replicate 512 0, CmdOpCode = 0, CmdLength = 0, RxBuffer = 0, TxBuffer = [], RxLength = 0, TxLength = 0,
     TxState = 0, RxState = 0\<rparr>, high_speed = False, usbReceiveBuffer = doubleBuffer_init (replicate 2048 0) 2048,
     rxArmed = Some 64, transmitted = []\<rparr>"

lemmas board_start_simps = board_start_def olympus_start_def olympus.extend_def board.fields_def

lemma handler_start_idle: "idle handler_start"
  by (simp add: idle_def handler_start_def initCommsHandler_def MAX_PACKET_SIZE_def)

lemma received_idle:
  assumes "length old = 64" "length data \<le> 58" "hstate h = WAITING_FOR_START_1"
    and "packetBuffer h = received (body t q data @ [c]) old"
  shows "idle h"
proof -
  have "of_nat (6 + length data) \<noteq> (5 :: u8)"
    using unat_len [OF assms(2)] by (auto simp del: of_nat_add)
  with received_props [OF assms(1,2), of t q c] assms(3,4) show ?thesis by (simp add: idle_def MAX_PACKET_SIZE_def)
qed

lemma comms_byte_ok:
  assumes "hdl_ok h" "comms_byte d (h, s) = Inr (h', s')"
  shows "hdl_ok h'"
proof (cases "hstate h")
  case WAITING_FOR_DATA
  with assms show ?thesis
    by (auto simp: hdl_ok_def MAX_PACKET_SIZE_def comms_data Let_def index_below_63 split: if_splits)
next
  case WAITING_FOR_CRC
  with assms show ?thesis
    by (auto simp: hdl_ok_def MAX_PACKET_SIZE_def comms_crc [OF _ _ _ refl] bindE_eq_Inr split: if_splits)
qed (use assms in \<open>auto simp: hdl_ok_def MAX_PACKET_SIZE_def comms_steps split: if_splits\<close>)

lemma comms_byte_stops:
  assumes "hdl_ok h" "comms_byte d (h, s) = Inl e"
  shows "hstate h = WAITING_FOR_CRC \<and>
    (packetIdx h = 4 \<or> checkPacket ((packetBuffer h)[unat (packetIdx h) := d]) = Inr True)"
proof (cases "hstate h")
  case WAITING_FOR_DATA
  with assms show ?thesis by (auto simp: hdl_ok_def MAX_PACKET_SIZE_def comms_data Let_def)
next
  case WAITING_FOR_CRC
  with assms show ?thesis
    by (auto simp: hdl_ok_def MAX_PACKET_SIZE_def comms_crc [OF _ _ _ refl] checkPacket_eq split: if_splits)
qed (use assms in \<open>auto simp: hdl_ok_def MAX_PACKET_SIZE_def comms_steps\<close>)

lemma packet_answered_ok:
  assumes "idle h" and "length data \<le> 58" and "unat (drop_bit 1 t :: u8) < 18" and "length (inputBuf s) = 256"
    and "dispatch (response ! unat (drop_bit 1 t :: u8)) data s = Inr s1"
    and "answer (response ! unat (drop_bit 1 t :: u8)) s1 resp" and "length (sendBuffer s1) = 64"
    and "usingUSB s1" and "pClassData (usb s1) = Some hcdc" and "TxState hcdc = 0"
  shows "\<exists>h' out dev. runCommsFSM (packet t q data) (h, s) = Inr (h', s1\<lparr>sendBuffer := out, usb := dev\<rparr>) \<and> idle h' \<and>
    transmitted dev = transmitted (usb s1) @ [packet (t OR 1) q resp]"
proof -
  let ?r = "response ! unat (drop_bit 1 t :: u8)"
  define pb where "pb = received (packet t q data) (packetBuffer h)"
  define out where "out = received (packet (t OR 1) q resp) (sendBuffer s1)"
  have len: "length (packetBuffer h) = 64" using assms(1) by (simp add: idle_def MAX_PACKET_SIZE_def)
  have run: "runPacket pb s = Inr s1"
    using runPacket_dispatch [OF len assms(2,4,3) refl pb_def] assms(5) by simp
  have "?r \<in> set response" using assms(3) by simp
  then have "length resp \<le> 16" using assms(6) response_entries by (auto simp: answer_def)
  then have "unat (of_nat (6 + length resp) :: u16) = length (packet (t OR 1) q resp)"
    by (simp only: length_packet unat_of_nat take_bit_eq_mod) simp
  from usbWrite_sends [OF assms(9,10) this] obtain dev where
    dev: "usbWrite (usb s1) out (of_nat (6 + length resp)) = Inr (USBD_OK, dev)"
      "transmitted dev = transmitted (usb s1) @ [packet (t OR 1) q resp]" by (auto simp: out_def)
  have send: "sendResponse (harg h) pb s1 = Inr (s1\<lparr>sendBuffer := out, usb := dev\<rparr>)"
    using sendResponse_eq [OF len assms(2,7,3) refl pb_def assms(6) out_def, of "harg h"] assms(8) dev(1)
    by (simp del: of_nat_add)
  have pb: "pb = received (body t q data @ [crc8_of (body t q data)]) (packetBuffer h)" by (simp add: pb_def packet_def)
  define h' where "h' = h\<lparr>hstate := WAITING_FOR_START_1, packetBuffer := pb, packetIdx := of_nat (5 + length data)\<rparr>"
  have "runCommsFSM (packet t q data) (h, s) = Inr (h', s1\<lparr>sendBuffer := out, usb := dev\<rparr>)"
    using packet_dispatched [OF assms(1,2) pb refl, of s] run send by (simp add: packet_def h'_def)
  moreover have "idle h'" by (rule received_idle [OF len assms(2)]) (simp_all add: h'_def pb)
  ultimately show ?thesis using dev(2) by blast
qed

lemma entry_at:
  "response ! 0 = entry 0 False 5 (Some status) None"
  "response ! 9 = entry 1 True 0 None (Some commsSetFNR)"
  "response ! 13 = entry 2 True 0 None (Some commsSetSpeed)"
  "response ! 15 = entry 0 False 16 (Some power) (Some (\<lambda>data s. ckd (commsPwradcCallback s)))"
  "response ! 17 = entry 4 True 0 None (Some resetBoard)"
  by (simp_all add: response_def)

lemma key_bytes: "of_le32 a b c d = RESET_KEY \<longleftrightarrow> a = 0x50 \<and> b = 0x41 \<and> c = 0x4C \<and> d = 0x46"
proof -
  have "RESET_KEY = of_le32 0x50 0x41 0x4C 0x46" by (simp add: RESET_KEY_def of_le32_def)
  then show ?thesis using of_le32_inj [of a b c d "0x50" "0x41" "0x4C" "0x46"] by simp
qed

text \<open>A packet that the dispatch of its type stops at, with the checksum in order.\<close>

lemma packet_stops:
  assumes "idle h" "length data \<le> 58" "unat (drop_bit 1 t :: u8) < 18" "length (inputBuf s) = 256"
    and "dispatch (response ! unat (drop_bit 1 t :: u8)) data s = Inl e"
  shows "\<exists>h'. runCommsFSM (packet t q data) (h, s) = Inl (map_stop (\<lambda>s. (h', s)) e)"
proof -
  have len: "length (packetBuffer h) = 64" using assms(1) by (simp add: idle_def MAX_PACKET_SIZE_def)
  note run = runPacket_dispatch [OF len assms(2,4,3) refl refl, of q, unfolded assms(5)]
  show ?thesis
    using packet_dispatched [OF assms(1,2) refl refl, of t q "crc8_of (body t q data)" s] run
    by (auto simp: packet_def)
qed

text \<open>A byte stream that announces a length below 6 runs the buffer full and is then forgotten.\<close>

lemma collect_junk:
  assumes "hstate h = WAITING_FOR_DATA" "length (packetBuffer h) = 64" "unat (packetIdx h) = k" "5 \<le> k"
    and "unat (packetBuffer h ! 4) < 6" "ds \<noteq> []" "k + length ds = 63"
  shows "\<exists>h'. foldE comms_byte ds (h, s) = Inr (h', s) \<and> hstate h' = WAITING_FOR_START_1 \<and>
    length (packetBuffer h') = 64 \<and> packetBuffer h' ! 4 = packetBuffer h ! 4"
  using assms
proof (induction ds arbitrary: h k)
  case (Cons d ds)
  let ?h = "h\<lparr>hstate := if ds = [] then WAITING_FOR_START_1 else WAITING_FOR_DATA,
    packetBuffer := (packetBuffer h)[k := d], packetIdx := packetIdx h + 1\<rparr>"
  have k: "k < 63" "k = 62 \<longleftrightarrow> ds = []" "unat (packetIdx h + 1) = k + 1"
    using Cons.prems(3,7) by (auto simp: unat_simps)
  have step: "comms_byte d (h, s) = Inr (?h, s)"
    using Cons.prems k by (auto simp: comms_data Let_def)
  show ?case
  proof (cases "ds = []")
    case True
    with step Cons.prems show ?thesis by simp
  next
    case False
    have "\<exists>h'. foldE comms_byte ds (?h, s) = Inr (h', s) \<and> hstate h' = WAITING_FOR_START_1 \<and>
        length (packetBuffer h') = 64 \<and> packetBuffer h' ! 4 = packetBuffer ?h ! 4"
      using Cons.prems k False by (intro Cons.IH [of _ "k + 1"]) auto
    with step Cons.prems show ?thesis by simp
  qed
qed simp

section \<open>The loop over the USB buffer\<close>

interpretation usbq: byte_queue db_wf db_content "\<lambda>b. ckd (doubleBuffer_read1 b)"
proof
  fix b assume "db_wf b" "db_content b = []"
  from db.get_Nil [OF this] show "\<exists>b'. ckd (doubleBuffer_read1 b) = Inr (None, b') \<and> db_wf b' \<and> db_content b' = []" by auto
next
  fix b x xs assume "db_wf b" "db_content b = x # xs"
  from db.get_Cons [OF this] show "\<exists>b'. ckd (doubleBuffer_read1 b) = Inr (Some x, b') \<and> db_wf b' \<and> db_content b' = xs" by auto
qed

lemma bytewise: "foldE (\<lambda>d. runCommsFSM [d]) bytes hs = runCommsFSM bytes hs"
  unfolding runCommsFSM_def foldE_single ..

section \<open>Properties\<close>

text \<open>
  C2. A packet from the host is carried out and answered: if a handler between packets receives an intact
  packet of a known type whose callback returns, and the USB link is free, then the callback has
  run on exactly the data of the packet, one frame has been sent, with the type marked as response,
  the same sequence number, the data of the table entry and a valid checksum, nothing else of the
  board has changed, and the handler is again between packets.
\<close>
theorem packet_answered:
  assumes "idle h" and "length data \<le> 58" and "unat (drop_bit 1 t :: u8) < 18" and "length (inputBuf s) = 256"
    and "dispatch (response ! unat (drop_bit 1 t :: u8)) data s = Inr s1"
    and "answer (response ! unat (drop_bit 1 t :: u8)) s1 resp" and "length (sendBuffer s1) = 64"
    and "usingUSB s1" and "pClassData (usb s1) = Some hcdc" and "TxState hcdc = 0"
  shows "\<exists>h' out dev. runCommsFSM (packet t q data) (h, s) = Inr (h', s1\<lparr>sendBuffer := out, usb := dev\<rparr>) \<and> idle h' \<and>
    transmitted dev = transmitted (usb s1) @ [packet (t OR 1) q resp]"
  by (rule packet_answered_ok [OF assms])

theorem packet_answered_witness:
  "\<exists>h' out dev. runCommsFSM (packet 0 7 []) (handler_start, board_start (mspi_idle [] [] []) usb_idle) =
     Inr (h', (board_start (mspi_idle [] [] []) usb_idle)\<lparr>sendBuffer := out, usb := dev\<rparr>) \<and> idle h' \<and>
     transmitted dev = [packet 1 7 [0, 0, 0, 0, 0]]"
proof -
  let ?s = "board_start (mspi_idle [] [] []) usb_idle"
  have "dispatch (response ! unat (drop_bit 1 0 :: u8)) [] ?s = Inr ?s"
    by (simp add: dispatch_def entry_at)
  moreover have "replicate 5 (0 :: u8) = [0, 0, 0, 0, 0]" by (simp add: eval_nat_numeral)
  then have "answer (response ! unat (drop_bit 1 0 :: u8)) ?s [0, 0, 0, 0, 0]"
    by (simp add: answer_def entry_at board_start_simps)
  ultimately show ?thesis
    using packet_answered [OF handler_start_idle, of "[]" 0 ?s ?s "[0, 0, 0, 0, 0]"]
    by (simp add: board_start_simps usb_idle_def)
qed

text \<open>
  C15. A packet whose checksum byte is wrong is dropped: nothing of the board changes, no callback runs and
  nothing is sent, and the handler is ready for the next packet.
\<close>
theorem corrupted_packet_dropped:
  assumes "idle h" and "length data \<le> 58" and "c \<noteq> crc8_of (body t q data)"
  shows "\<exists>h'. runCommsFSM (body t q data @ [c]) (h, s) = Inr (h', s) \<and> idle h'"
proof -
  have len: "length (packetBuffer h) = 64" using assms(1) by (simp add: idle_def MAX_PACKET_SIZE_def)
  define h' where "h' = h\<lparr>hstate := WAITING_FOR_START_1, packetBuffer := received (body t q data @ [c]) (packetBuffer h),
    packetIdx := of_nat (5 + length data)\<rparr>"
  have "runCommsFSM (body t q data @ [c]) (h, s) = Inr (h', s)"
    using packet_dispatched [OF assms(1,2) refl refl, of t q c s] assms(3) by (simp add: h'_def)
  moreover have "idle h'" by (rule received_idle [OF len assms(2)]) (simp_all add: h'_def)
  ultimately show ?thesis by blast
qed


theorem corrupted_packet_dropped_witness:
  "\<exists>h'. runCommsFSM [0xF0, 0x5A, 0x12, 7, 7, 1, 0] (handler_start, board_start (mspi_idle [] [] []) usb_idle) =
     Inr (h', board_start (mspi_idle [] [] []) usb_idle) \<and> idle h'"
proof -
  have "crc8_of (body 0x12 7 [1]) \<noteq> 0" by code_simp
  from corrupted_packet_dropped [OF handler_start_idle _ this [symmetric]] show ?thesis
    by (simp add: body_def START_BYTE_1_def START_BYTE_2_def)
qed

text \<open>
  C14. The invariant of the handler: from a state where it holds, every stream of bytes is either processed
  to its end, with the invariant kept, or stops at a byte received in state \<^verbatim>\<open>WAITING_FOR_CRC\<close>; and there
  only if the checksum matched, so that a command ran, or if the byte at the place of the length
  was itself taken as the checksum.
\<close>
theorem comms_stream_safe:
  assumes "hdl_ok h"
  shows "(\<exists>h' s'. runCommsFSM bytes (h, s) = Inr (h', s') \<and> hdl_ok h') \<or>
    (\<exists>pre d post h1 s1 e. bytes = pre @ d # post \<and> runCommsFSM pre (h, s) = Inr (h1, s1) \<and> hdl_ok h1 \<and>
       hstate h1 = WAITING_FOR_CRC \<and> runCommsFSM bytes (h, s) = Inl e \<and>
       (packetIdx h1 = 4 \<or> checkPacket ((packetBuffer h1)[unat (packetIdx h1) := d]) = Inr True))"
  using assms
proof (induction bytes arbitrary: h s)
  case Nil
  then show ?case by (simp add: runCommsFSM_def)
next
  case (Cons d bytes)
  show ?case
  proof (cases "comms_byte d (h, s)")
    case (Inr hs)
    then obtain h1 s1 where 1: "comms_byte d (h, s) = Inr (h1, s1)" by (cases hs) auto
    with Cons.prems have "hdl_ok h1" by (rule comms_byte_ok)
    have step: "runCommsFSM (d # xs) (h, s) = runCommsFSM xs (h1, s1)" for xs using 1 by (simp add: runCommsFSM_def)
    from Cons.IH [OF \<open>hdl_ok h1\<close>, of s1] show ?thesis
    proof (elim disjE exE conjE, goal_cases)
      case 1
      then show ?case using step by auto
    next
      case (2 pre d' post h2 s2 e)
      then show ?case using step by (intro disjI2 exI [of _ "d # pre"] exI [of _ d'] exI [of _ post]) auto
    next
      case (3 pre d' post h2 s2 e)
      then show ?case using step by (intro disjI2 exI [of _ "d # pre"] exI [of _ d'] exI [of _ post]) auto
    qed
  next
    case (Inl e)
    with comms_byte_stops [OF Cons.prems this] Cons.prems show ?thesis
      by (intro disjI2 exI [of _ "[]"]) (simp add: runCommsFSM_def)
  qed
qed


theorem comms_stream_safe_witness:
  "hdl_ok handler_start \<and>
   ((\<exists>h' s'. runCommsFSM [0xF0, 0x5A, 1] (handler_start, board_start (mspi_idle [] [] []) usb_idle) = Inr (h', s') \<and> hdl_ok h') \<or>
    (\<exists>pre d post h1 s1 e. [0xF0, 0x5A, 1] = pre @ d # post \<and>
       runCommsFSM pre (handler_start, board_start (mspi_idle [] [] []) usb_idle) = Inr (h1, s1) \<and> hdl_ok h1 \<and>
       hstate h1 = WAITING_FOR_CRC \<and>
       runCommsFSM [0xF0, 0x5A, 1] (handler_start, board_start (mspi_idle [] [] []) usb_idle) = Inl e \<and>
       (packetIdx h1 = 4 \<or> checkPacket ((packetBuffer h1)[unat (packetIdx h1) := d]) = Inr True)))"
proof -
  have ok: "hdl_ok handler_start" by (simp add: hdl_ok_def handler_start_def initCommsHandler_def MAX_PACKET_SIZE_def)
  from comms_stream_safe [OF ok] ok show ?thesis by blast
qed

text \<open>
  C24. The reset command needs its key: a packet of type 0x22 with four data bytes resets the processor if
  they are the little-endian key 0x464C4150, and otherwise does nothing but answer.
\<close>
theorem reset_packet_needs_key:
  assumes "idle h" and "length data = 4" and "length (inputBuf s) = 256" and "length (sendBuffer s) = 64"
    and "usingUSB s" and "pClassData (usb s) = Some hcdc" and "TxState hcdc = 0"
  shows "if data = [0x50, 0x41, 0x4C, 0x46]
    then \<exists>h' s'. runCommsFSM (packet 0x22 q data) (h, s) = Inl (SystemReset (h', s'))
    else \<exists>h' s'. runCommsFSM (packet 0x22 q data) (h, s) = Inr (h', s') \<and> idle h' \<and> oregs s' = oregs s \<and>
      transmitted (usb s') = transmitted (usb s) @ [packet 0x23 q []]"
proof -
  define s0 where "s0 = s\<lparr>inputBuf := data @ drop 4 (inputBuf s)\<rparr>"
  obtain a b c d where data: "data = [a, b, c, d]" using assms(2) by (auto simp: length_Suc_conv eval_nat_numeral)
  have 17: "unat (drop_bit 1 0x22 :: u8) = 17" by simp
  have "take 4 data = data" "data @ drop (length data) (inputBuf s) = inputBuf s0" using assms(2) by (simp_all add: s0_def)
  then have "dispatch (response ! 17) data s = resetBoard (inputBuf s0) s0"
    by (simp add: dispatch_def entry_at s0_def assms(2))
  moreover have "rd_range (inputBuf s0) 0 4 = Inr data" using assms(2,3) by (simp add: s0_def)
  ultimately have disp: "dispatch (response ! unat (drop_bit 1 0x22 :: u8)) data s =
      (if data = [0x50, 0x41, 0x4C, 0x46]
       then Inl (SystemReset (s0\<lparr>oregs := set_bits (Rcc CSR) 0x01000000 (oregs s0)\<rparr>)) else Inr s0)"
    unfolding 17 by (simp add: resetBoard_def data key_bytes)
  have d58: "length data \<le> 58" "unat (drop_bit 1 0x22 :: u8) < 18" using assms(2) by simp_all
  show ?thesis
  proof (cases "data = [0x50, 0x41, 0x4C, 0x46]")
    case True
    with packet_stops [OF assms(1) d58 assms(3), of "SystemReset (s0\<lparr>oregs := set_bits (Rcc CSR) 0x01000000 (oregs s0)\<rparr>)" q] disp
    show ?thesis by auto
  next
    case False
    have "answer (response ! unat (drop_bit 1 0x22 :: u8)) s0 []" unfolding 17 by (simp add: answer_def entry_at)
    moreover have "length (sendBuffer s0) = 64" "usingUSB s0" "pClassData (usb s0) = Some hcdc"
      using assms(4-6) by (simp_all add: s0_def)
    ultimately have "\<exists>h' out dev. runCommsFSM (packet 0x22 q data) (h, s) = Inr (h', s0\<lparr>sendBuffer := out, usb := dev\<rparr>) \<and>
        idle h' \<and> transmitted dev = transmitted (usb s0) @ [packet (0x22 OR 1) q []]"
      using packet_answered_ok [OF assms(1) d58 assms(3), of s0 "[]" hcdc q] disp False assms(7) by simp
    with False show ?thesis by (fastforce simp: s0_def)
  qed
qed

theorem reset_packet_needs_key_witness:
  "(\<exists>h' s'. runCommsFSM (packet 0x22 7 [0x50, 0x41, 0x4C, 0x46])
       (handler_start, board_start (mspi_idle [] [] []) usb_idle) = Inl (SystemReset (h', s'))) \<and>
   (\<exists>h' s'. runCommsFSM (packet 0x22 7 [0x50, 0x41, 0x4C, 0x47])
       (handler_start, board_start (mspi_idle [] [] []) usb_idle) = Inr (h', s') \<and>
     transmitted (usb s') = [packet 0x23 7 []])"
proof -
  let ?s = "board_start (mspi_idle [] [] []) usb_idle"
  have s: "length (inputBuf ?s) = 256" "length (sendBuffer ?s) = 64" "usingUSB ?s" "transmitted (usb ?s) = []"
      "pClassData (usb ?s) = Some (the (pClassData usb_idle))" "TxState (the (pClassData usb_idle)) = 0"
    by (simp_all add: board_start_simps usb_idle_def)
  show ?thesis
    using reset_packet_needs_key [OF handler_start_idle _ s(1-3,5,6), of "[0x50, 0x41, 0x4C, 0x46]" 7]
      reset_packet_needs_key [OF handler_start_idle _ s(1-3,5,6), of "[0x50, 0x41, 0x4C, 0x47]" 7] s(4) by auto
qed

text \<open>
  The packet type is not checked: the table has 18 entries, and every intact packet with a type of 0x24
  or more makes \<^verbatim>\<open>runPacket\<close> read beyond it.
\<close>
theorem unknown_type_reads_beyond_table:
  assumes "idle h" and "length data \<le> 58" and "0x24 \<le> t"
  shows "runCommsFSM (packet t q data) (h, s) = Inl (Faulted OutOfBounds)"
proof -
  let ?pb = "received (packet t q data) (packetBuffer h)"
  have len: "length (packetBuffer h) = 64" using assms(1) by (simp add: idle_def MAX_PACKET_SIZE_def)
  have "18 \<le> unat (drop_bit 1 t :: u8)"
    using assms(3) by (simp add: word_le_nat_alt drop_bit_eq_div unat_div)
  then have "rd response (unat (drop_bit 1 t :: u8)) = Inl OutOfBounds" by simp
  moreover have "rd ?pb 2 = Inr t" "rd ?pb 4 = Inr (?pb ! 4)"
    using received_nth [OF len assms(2), where t = t and q = q] len assms(2) by (simp_all add: rd_def received_def)
  ultimately have "runPacket ?pb s = Inl (Faulted OutOfBounds)"
    unfolding runPacket_def Let_def by simp
  with packet_dispatched [OF assms(1,2) refl refl, of t q "crc8_of (body t q data)" s] show ?thesis
    by (simp add: packet_def)
qed

theorem unknown_type_reads_beyond_table_witness:
  "runCommsFSM (packet 0x24 7 []) (handler_start, board_start (mspi_idle [] [] []) usb_idle) = Inl (Faulted OutOfBounds)"
  by (rule unknown_type_reads_beyond_table [OF handler_start_idle]) simp_all

text \<open>
  Three read requests have no data behind them: for the types 0x04, 0x0E and 0x10 the table gives a
  response length but no array, and answering an intact packet reads through \<^verbatim>\<open>NULL\<close>.
\<close>
theorem read_requests_without_data:
  assumes "idle h" and "length data \<le> 58" and "t = 0x04 \<or> t = 0x0E \<or> t = 0x10"
    and "length (inputBuf s) = 256" and "length (sendBuffer s) = 64"
  shows "runCommsFSM (packet t q data) (h, s) = Inl (Faulted NullDeref)"
proof -
  let ?pb = "received (packet t q data) (packetBuffer h)"
  let ?r = "response ! unat (drop_bit 1 t :: u8)"
  have len: "length (packetBuffer h) = 64" using assms(1) by (simp add: idle_def MAX_PACKET_SIZE_def)
  have k: "unat (drop_bit 1 t :: u8) < 18" "responseDataLen ?r \<noteq> 0" "responseData ?r = None"
      "inputDataLen ?r = 0" "pcallback ?r = None"
    using assms(3) by (auto simp: response_def)
  have "dispatch ?r data s = Inr s" using k by (simp add: dispatch_def)
  then have run: "runPacket ?pb s = Inr s" using runPacket_dispatch [OF len assms(2,4) k(1) refl refl] by simp
  have "rd ?pb 2 = Inr t" "rd ?pb 3 = Inr q"
    using received_nth [OF len assms(2), where t = t and q = q] len assms(2) by (simp_all add: rd_def received_def)
  with k assms(5) have "sendResponse a ?pb s = Inl (Faulted NullDeref)" for a
    by (simp add: sendResponse_def Let_def)
  with run packet_dispatched [OF assms(1,2) refl refl, of t q "crc8_of (body t q data)" s] show ?thesis
    by (simp add: packet_def)
qed

theorem read_requests_without_data_witness:
  "runCommsFSM (packet 0x0E 7 []) (handler_start, board_start (mspi_idle [] [] []) usb_idle) = Inl (Faulted NullDeref)"
  by (rule read_requests_without_data [OF handler_start_idle]) (simp_all add: board_start_simps)

text \<open>
  C37. A length left over from an earlier packet ends the header of the next one: the state machine compares
  with \<^verbatim>\<open>packetLen\<close> one byte before it has received it. After a packet with the length byte 5 has run
  the buffer full, the length byte of the next packet is taken for its checksum, and a length above
  64 makes \<^verbatim>\<open>checkPacket\<close> read beyond the buffer.
\<close>
theorem stale_length_reads_beyond_buffer:
  assumes "idle h" and "length junk = 58" and "64 < unat len"
  shows "runCommsFSM ([0xF0, 0x5A, t, q, 5] @ junk @ [0xF0, 0x5A, t', q', len]) (h, s) = Inl (Faulted OutOfBounds)"
proof -
  define h4 where "h4 = h\<lparr>hstate := WAITING_FOR_DATA,
    packetBuffer := [0xF0, 0x5A, t, q] @ drop 4 (packetBuffer h), packetIdx := 4\<rparr>"
  have len: "length (packetBuffer h) = 64" using assms(1) by (simp add: idle_def MAX_PACKET_SIZE_def)
  have "foldE comms_byte [0xF0, 0x5A, t, q] (h, s) = Inr (h4, s)"
    using collect_header [OF assms(1), of t q s] unfolding START_BYTE_1_def START_BYTE_2_def h4_def by simp
  moreover have "comms_byte 5 (h4, s) = Inr (h4\<lparr>packetBuffer := (packetBuffer h4)[4 := 5], packetIdx := 5\<rparr>, s)"
    using len by (simp add: comms_data h4_def)
  moreover obtain h' where h': "foldE comms_byte junk (h4\<lparr>packetBuffer := (packetBuffer h4)[4 := 5], packetIdx := 5\<rparr>, s) = Inr (h', s)"
      "hstate h' = WAITING_FOR_START_1" "length (packetBuffer h') = 64" "packetBuffer h' ! 4 = 5"
    using collect_junk [of "h4\<lparr>packetBuffer := (packetBuffer h4)[4 := 5], packetIdx := 5\<rparr>" 5 junk s] len assms(2)
    by (cases "junk = []") (auto simp: h4_def)
  moreover from h' obtain b0 b1 b2 b3 bs where "packetBuffer h' = b0 # b1 # b2 # b3 # 5 # bs" "length bs = 59"
    by (auto simp: length_Suc_conv eval_nat_numeral)
  with h'(2) assms(3) have "foldE comms_byte [0xF0, 0x5A, t', q', len] (h', s) = Inl (Faulted OutOfBounds)"
    by (simp add: comms_steps START_BYTE_1_def START_BYTE_2_def)
  moreover have "[0xF0, 0x5A, t, q, 5] @ junk @ [0xF0, 0x5A, t', q', len] =
      [0xF0, 0x5A, t, q] @ [5] @ junk @ [0xF0, 0x5A, t', q', len]" by simp
  ultimately show ?thesis
    by (simp only: runCommsFSM_def foldE_append foldE_single bindE_Inr)
qed

theorem stale_length_reads_beyond_buffer_witness:
  "runCommsFSM ([0xF0, 0x5A, 0, 0, 5] @ replicate 58 0 @ [0xF0, 0x5A, 0, 1, 100])
     (handler_start, board_start (mspi_idle [] [] []) usb_idle) = Inl (Faulted OutOfBounds)"
  by (rule stale_length_reads_beyond_buffer [OF handler_start_idle]) simp_all

lemma usb_loop_ok:
  assumes "db_wf (usbReceiveBuffer (usb s))" and "length (db_content (usbReceiveBuffer (usb s))) < fuel"
  shows "\<exists>b. db_wf b \<and> db_content b = [] \<and>
    usb_loop fuel (h, s) = Some (case runCommsFSM (db_content (usbReceiveBuffer (usb s))) (h, s) of
        Inl e \<Rightarrow> Inl e | Inr (h', s') \<Rightarrow> Inr (h', s'\<lparr>usb := (usb s')\<lparr>usbReceiveBuffer := b\<rparr>\<rparr>))"
proof -
  let ?c = "db_content (usbReceiveBuffer (usb s))"
  obtain b where b: "db_wf b" "db_content b = []"
    "\<And>hs. runCommsFSM ?c (h, s) = Inr hs \<Longrightarrow>
      drain fuel (\<lambda>b. ckd (doubleBuffer_read1 b)) (\<lambda>d. runCommsFSM [d]) (usbReceiveBuffer (usb s)) (h, s) = Some (Inr (b, hs))"
    using usbq.drain_all [OF assms, of "\<lambda>d. runCommsFSM [d]" "(h, s)"] unfolding bytewise by blast
  show ?thesis
  proof (cases "runCommsFSM ?c (h, s)")
    case (Inl e)
    with usbq.drain_fails [OF assms, of "\<lambda>d. runCommsFSM [d]" "(h, s)" e] b(1,2) show ?thesis
      by (auto simp: usb_loop_def bytewise)
  next
    case (Inr hs)
    with b show ?thesis by (cases hs) (auto simp: usb_loop_def)
  qed
qed

text \<open>
  The main loop hands the buffered bytes to the state machine: with a fuel above the number of bytes in
  the USB buffer the loop ends, the state machine has processed exactly these bytes in the order of
  their arrival, with the outcome it has on them as one stream, and the buffer is empty.
\<close>
theorem usb_loop_processes_buffer:
  assumes "db_wf (usbReceiveBuffer (usb s))" and "length (db_content (usbReceiveBuffer (usb s))) < fuel"
  shows "\<exists>b. db_wf b \<and> db_content b = [] \<and>
    usb_loop fuel (h, s) = Some (case runCommsFSM (db_content (usbReceiveBuffer (usb s))) (h, s) of
        Inl e \<Rightarrow> Inl e | Inr (h', s') \<Rightarrow> Inr (h', s'\<lparr>usb := (usb s')\<lparr>usbReceiveBuffer := b\<rparr>\<rparr>))"
  using assms by (rule usb_loop_ok)

theorem usb_loop_processes_buffer_witness:
  "\<exists>b. db_wf b \<and> db_content b = [] \<and>
    usb_loop 1 (handler_start, board_start (mspi_idle [] [] []) usb_idle) =
      Some (Inr (handler_start, (board_start (mspi_idle [] [] []) usb_idle)\<lparr>usb := usb_idle\<lparr>usbReceiveBuffer := b\<rparr>\<rparr>))"
proof -
  let ?s = "board_start (mspi_idle [] [] []) usb_idle"
  have u: "usb ?s = usb_idle" by (simp add: board_start_simps)
  have "db_wf (usbReceiveBuffer (usb ?s))" "db_content (usbReceiveBuffer (usb ?s)) = []"
    unfolding u using db_init_wf [of 2048 "replicate 2048 0"] by (simp_all add: usb_idle_def db_init_content)
  with usb_loop_processes_buffer [of ?s 1 handler_start] u show ?thesis
    by (simp add: runCommsFSM_def)
qed

end
