(* ===== verification/OlympusMain.thy ===== *)
theory OlympusMain
  imports ConsoleLines UsartSend OlympusComms
begin

text \<open>
  The program of the main board, \<^verbatim>\<open>olympus/main.c\<close>: the set-up of the board behind that of the link to the
  host, and one round of the endless loop, which serves the serial port, the timers, the console and
  the host in this order. The record \<open>olympus_main\<close> holds what the round works on.
\<close>

section \<open>Set-up and loop\<close>

record olympus_main =
  serial :: usart
  con :: console
  chdl :: CommsHandler_t
  brd :: board

definition adc_init :: "'z olympus_scheme \<Rightarrow> 'z olympus_scheme" where
  "adc_init s = s"

definition main_setup :: "'z olympus_scheme \<Rightarrow> 'z olympus_scheme stop + 'z olympus_scheme" where
  "main_setup s =
     bindE (ckd (setSevenSeg ''42'' (initSevenSeg (initSpeedDAC s)))) (\<lambda>s.
     bindE (checkAllSubmodules (adc_init s)) (\<lambda>s.
     let s = runStartupSong s;
         s = snd (addCallbackTimer 1000 (Some Heartbeat) 0 s)
     in Inr (printf ''Hello.'' s)))"

text \<open>
  The round. \<open>net_input\<close> is what the network interface and its stack do with the frames that have
  arrived, when the board is not on USB.
\<close>

definition main_turn :: "nat \<Rightarrow> (olympus_main \<Rightarrow> (olympus_main stop + olympus_main) option) \<Rightarrow>
    olympus_main \<Rightarrow> (olympus_main stop + olympus_main) option" where
  "main_turn fuel net_input m =
     (case serviceTxDma (serial m) of
        Inl e \<Rightarrow> Some (Inl (Faulted e))
      | Inr u \<Rightarrow>
     (case serviceCallbackTimer run_timer (brd m) of
        Inl e \<Rightarrow> Some (Inl (map_stop (\<lambda>s. m\<lparr>serial := u, brd := s\<rparr>) e))
      | Inr s \<Rightarrow>
     (case consoleProcessBytes fuel u (con m, s) of
        None \<Rightarrow> None
      | Some (Inl e) \<Rightarrow> Some (Inl (map_stop (\<lambda>(k, s). m\<lparr>serial := u, con := k, brd := s\<rparr>) e))
      | Some (Inr (u, k, s)) \<Rightarrow>
          let m = m\<lparr>serial := u, con := k, brd := s\<rparr> in
          if usingUSB s then
            (case usb_loop fuel (chdl m, s) of
               None \<Rightarrow> None
             | Some (Inl e) \<Rightarrow> Some (Inl (map_stop (\<lambda>(h, s). m\<lparr>chdl := h, brd := s\<rparr>) e))
             | Some (Inr (h, s)) \<Rightarrow> Some (Inr (m\<lparr>chdl := h, brd := s\<rparr>)))
          else net_input m)))"

section \<open>A round\<close>

text \<open>The two halves of the serial port do not touch each other.\<close>

definition same_rx :: "usart \<Rightarrow> usart \<Rightarrow> bool" where
  "same_rx u u' \<longleftrightarrow> rxBuffer u' = rxBuffer u \<and> rxM0AR u' = rxM0AR u \<and> rxBufferPos u' = rxBufferPos u \<and> rxNDTR u' = rxNDTR u"

lemma same_rx_ok: "same_rx u u' \<Longrightarrow> rx_wf u' = rx_wf u \<and> unread u' = unread u"
  by (simp add: same_rx_def rx_wf_def unread_def getRxBytesAvailable_def getRxDmaPosition_def Let_def)

lemma startTxDma_rx: "startTxDma u = Inr u' \<Longrightarrow> same_rx u u'"
  by (auto simp: startTxDma_def bindE_eq_Inr Let_def same_rx_def)

lemma serviceTxDma_rx:
  assumes "serviceTxDma u = Inr u'"
  shows "same_rx u u'"
proof (cases "shouldServiceTxDma u = 0")
  case False
  with assms obtain ls v where v: "startTxDma (u\<lparr>txBufferLengths := ls, dmaTxBuffer := next_tx (dmaTxBuffer u)\<rparr>) = Inr v \<or>
      v = u\<lparr>txBufferLengths := ls, dmaTxBuffer := next_tx (dmaTxBuffer u), txDmaActive := 0\<rparr>"
    "u' = v\<lparr>shouldServiceTxDma := 0\<rparr>"
    by (auto simp: serviceTxDma_def bindE_eq_Inr Let_def split: if_splits)
  then have "same_rx u v" using startTxDma_rx by (fastforce simp: same_rx_def)
  with v(2) show ?thesis by (simp add: same_rx_def)
qed (use assms in \<open>simp add: serviceTxDma_def same_rx_def\<close>)

definition same_tx :: "usart \<Rightarrow> usart \<Rightarrow> bool" where
  "same_tx u u' \<longleftrightarrow> (\<exists>p. u' = u\<lparr>rxBufferPos := p\<rparr>)"

lemma same_tx_refl [simp]: "same_tx u u"
  unfolding same_tx_def by (rule exI [of _ "rxBufferPos u"]) simp

lemma same_tx_ok:
  assumes "same_tx u u'"
  shows "tx_inv u' = tx_inv u \<and> unsent u' = unsent u \<and> wire u' = wire u"
proof -
  obtain p where u': "u' = u\<lparr>rxBufferPos := p\<rparr>" using assms by (auto simp: same_tx_def)
  have "queued u' = queued u" by (simp add: u' queued_def slot_len_def slot_def fun_eq_iff)
  then show ?thesis
    by (simp add: u' tx_inv_def tx_shape_def tx_idle_def tx_active_def filling_def slot_def slot_len_def
        unsent_def behind_def in_order_def)
qed

lemma usart_get_byte_tx:
  assumes "same_tx u v" and "usart_get_byte v = Inr (b, v')"
  shows "same_tx u v'"
proof -
  have "v' = v \<or> (\<exists>p. v' = v\<lparr>rxBufferPos := p\<rparr>)"
    using assms(2)
    by (auto simp: usart_get_byte_def usartRead_def bindE_eq_Inr Let_def ckd_def split: if_splits sum.splits list.splits)
  with assms(1) show ?thesis by (auto simp: same_tx_def)
qed

lemma dma_rx_tx: "tx_inv (fold dma_rx_byte bs u) = tx_inv u"
proof (induction bs arbitrary: u)
  case (Cons b bs)
  have "tx_inv (dma_rx_byte b u) = tx_inv u"
    by (simp add: dma_rx_byte_def tx_inv_def tx_shape_def tx_idle_def tx_active_def filling_def slot_def slot_len_def)
  with Cons show ?case by simp
qed simp

lemma usart_init_tx: "tx_inv (snd (commsUsartInit (f, usart_start)))"
  using usart_start_idle
  by (simp add: tx_inv_def commsUsartInit_def commsUsartDmaInit_def tx_shape_def tx_idle_def filling_def slot_def
      slot_len_def DMA_CHANNEL_5_def Let_def)

lemma console_tx:
  assumes "consoleProcessBytes fuel u c = Some (Inr (u', c'))"
  shows "same_tx u u'"
  by (rule drain_invariant [of "same_tx u", OF usart_get_byte_tx same_tx_refl assms [unfolded consoleProcessBytes_def]])



section \<open>The set-up\<close>

lemma add_first_free:
  assumes "timerList s = xs @ e # ys" and "\<forall>t\<in>set xs. resetValue t \<noteq> 0" and "resetValue e = 0"
    and "length (timerList s) = MAX_NUM_CALLBACK_TIMERS" and "count \<noteq> 0"
  shows "timerList (snd (addCallbackTimer count (Some cb) p s)) =
     xs @ \<lparr>currentValue = count, resetValue = count, callback = Some cb, parameters = p\<rparr> # ys"
proof -
  have "free_slot (xs @ e # ys) = length xs" using assms(2,3) by (induction xs) auto
  then show ?thesis using assms(1,4,5) by (simp add: addCallbackTimer_def Let_def)
qed

lemma add_olympus_frame [simp]:
  "bus (snd (addCallbackTimer c cb p s)) = bus s" "printed (snd (addCallbackTimer c cb p s)) = printed s"
  by (simp_all add: addCallbackTimer_def Let_def)

text \<open>The timers after the set-up: all were free, as the table starts out.\<close>

definition all_free :: "'z olympus_scheme \<Rightarrow> bool" where
  "all_free s \<longleftrightarrow> length (timerList s) = MAX_NUM_CALLBACK_TIMERS \<and>
     (\<forall>t\<in>set (timerList s). resetValue t = 0 \<and> CallbackTimer.callback t = None)"

definition timer :: "u32 \<Rightarrow> timer_cb \<Rightarrow> timer_cb CallbackTimer" where
  "timer c cb = \<lparr>currentValue = c, resetValue = c, callback = Some cb, parameters = 0\<rparr>"

lemma main_setup_ok:
  assumes "all_free s" and "length (cs (bus s)) = 5"
    and "status_env [(APOLLO, a), (HEPHAESTUS, h), (HERMES, e), (JANUS, j), (ZEUS, z)] (bus s) b'"
  shows "\<exists>s'. main_setup s = Inr s' \<and> bus s' = b' \<and>
     timerList s' = timer 20 SpeedDACCallback # timer 1 Startup # timer 1000 Heartbeat # drop 3 (timerList s) \<and>
     printed s' = printed s @
       concat (map status_report [(APOLLO, a), (HEPHAESTUS, h), (HERMES, e), (JANUS, j), (ZEUS, z)]) @ [''Hello.'' @ crlf]"
proof -
  obtain t0 t1 t2 ts where l: "timerList s = t0 # t1 # t2 # ts"
    using assms(1) by (auto simp: all_free_def MAX_NUM_CALLBACK_TIMERS_def numeral_eq_Suc length_Suc_conv)
  have free: "resetValue t0 = 0" "resetValue t1 = 0" "resetValue t2 = 0" "length ts = 29"
    using assms(1) by (auto simp: all_free_def l MAX_NUM_CALLBACK_TIMERS_def)
  define s1 where "s1 = initSpeedDAC s"
  have s1: "timerList s1 = timer 20 SpeedDACCallback # t1 # t2 # ts" "bus s1 = bus s" "printed s1 = printed s"
    using add_first_free [of "enableSpeedDAC (setSpeedDAC 0 s)" "[]" t0 "t1 # t2 # ts" 20 SpeedDACCallback 0] l free
    by (simp_all add: s1_def initSpeedDAC_def SPEED_DAC_INCR_PERIOD_def timer_def MAX_NUM_CALLBACK_TIMERS_def
        enableSpeedDAC_def setSpeedDAC_def writeDataMAX517_def)
  obtain s2 where s2: "setSevenSeg ''42'' (initSevenSeg s1) = Inr s2" "timerList s2 = timerList s1"
    "bus s2 = bus s" "printed s2 = printed s"
    using s1(2,3) by (simp add: setSevenSeg_def initSevenSeg_def Let_def)
  from checkAllSubmodules_ok [of s2 a h e j z b'] assms(2,3) s2(3) obtain s3 where
    s3: "checkAllSubmodules s2 = Inr s3" "bus s3 = b'" "timerList s3 = timerList s2" "printed s3 = printed s2 @
       concat (map status_report [(APOLLO, a), (HEPHAESTUS, h), (HERMES, e), (JANUS, j), (ZEUS, z)])" by auto
  define s4 where "s4 = runStartupSong s3"
  have s4: "timerList s4 = timer 20 SpeedDACCallback # timer 1 Startup # t2 # ts" "bus s4 = bus s3" "printed s4 = printed s3"
    using add_first_free [of "Tim_Init s3" "[timer 20 SpeedDACCallback]" t1 "t2 # ts" 1 Startup 0] s3(3) s2(2) s1(1) free
    by (simp_all add: s4_def runStartupSong_def timer_def MAX_NUM_CALLBACK_TIMERS_def Tim_Init_def Let_def)
  define s5 where "s5 = snd (addCallbackTimer 1000 (Some Heartbeat) 0 s4)"
  have s5: "timerList s5 = timer 20 SpeedDACCallback # timer 1 Startup # timer 1000 Heartbeat # ts" "bus s5 = bus s3"
    "printed s5 = printed s3"
    using add_first_free [of s4 "[timer 20 SpeedDACCallback, timer 1 Startup]" t2 ts 1000 Heartbeat 0] s4 free
    by (simp_all add: s5_def timer_def MAX_NUM_CALLBACK_TIMERS_def)
  have "main_setup s = Inr (printf ''Hello.'' s5)"
    using s2(1) s3(1) by (simp add: main_setup_def s1_def s4_def s5_def adc_init_def Let_def)
  then show ?thesis using s5 s3 s2(4) l by (auto simp: printf_def)
qed

text \<open>
  C20. The main board starts up: from a table of free timers, whichever submodules answer the status check, the
  set-up ends; the messages are those of the silent submodules, then the greeting; exactly the speed
  ramp, the start-up song and the heartbeat are running, and from then on the heartbeat LED changes
  once per second, whatever the other two timers do.
\<close>

theorem main_setup_starts:
  assumes "all_free s" and "length (cs (bus s)) = 5"
    and "status_env [(APOLLO, a), (HEPHAESTUS, h), (HERMES, e), (JANUS, j), (ZEUS, z)] (bus s) b'"
  shows "\<exists>s'. main_setup s = Inr s' \<and>
     timerList s' = timer 20 SpeedDACCallback # timer 1 Startup # timer 1000 Heartbeat # drop 3 (timerList s) \<and>
     printed s' = printed s @
       concat (map status_report [(APOLLO, a), (HEPHAESTUS, h), (HERMES, e), (JANUS, j), (ZEUS, z)]) @ [''Hello.'' @ crlf] \<and>
     (\<forall>n. \<exists>s''. milliseconds run_timer n s' = Inr s'' \<and>
        bit (oregs s'' (Gpio GPIOB ODR)) 0 = (odd (n div 1000) \<noteq> bit (oregs s' (Gpio GPIOB ODR)) 0))"
proof -
  obtain s' where s': "main_setup s = Inr s'"
    "timerList s' = timer 20 SpeedDACCallback # timer 1 Startup # timer 1000 Heartbeat # drop 3 (timerList s)"
    "printed s' = printed s @
       concat (map status_report [(APOLLO, a), (HEPHAESTUS, h), (HERMES, e), (JANUS, j), (ZEUS, z)]) @ [''Hello.'' @ crlf]"
    using main_setup_ok [OF assms] by blast
  have rest: "length (drop 3 (timerList s)) = 29"
    "\<forall>t\<in>set (drop 3 (timerList s)). resetValue t = 0 \<and> CallbackTimer.callback t = None"
    using assms(1) by (auto simp: all_free_def MAX_NUM_CALLBACK_TIMERS_def dest: in_set_dropD)
  have ok: "timers_ok s'" using rest by (auto simp: timers_ok_def s'(2) MAX_NUM_CALLBACK_TIMERS_def timer_def)
  have "CallbackTimer.callback (timerList s' ! i) \<noteq> Some Heartbeat" if "i < 32" "i \<noteq> 2" for i
  proof (cases "i < 3")
    case True
    with that(2) have "i = 0 \<or> i = 1" by linarith
    then show ?thesis by (auto simp: s'(2) timer_def)
  next
    case False
    then have "timerList s' ! i = drop 3 (timerList s) ! (i - 3)" by (simp add: s'(2) numeral_eq_Suc nth_Cons')
    moreover have "drop 3 (timerList s) ! (i - 3) \<in> set (drop 3 (timerList s))"
      using rest(1) that(1) False by (intro nth_mem) simp
    ultimately show ?thesis using rest(2) by auto
  qed
  with heartbeat_ok [OF ok, of 2 1000 0] have
    "\<exists>s''. milliseconds run_timer n s' = Inr s'' \<and> bit (oregs s'' (Gpio GPIOB ODR)) 0 =
      (if even (n div 1000) then bit (oregs s' (Gpio GPIOB ODR)) 0 else \<not> bit (oregs s' (Gpio GPIOB ODR)) 0)" for n
    by (simp add: s'(2) timer_def MAX_NUM_CALLBACK_TIMERS_def)
  then have "\<exists>s''. milliseconds run_timer n s' = Inr s'' \<and>
      bit (oregs s'' (Gpio GPIOB ODR)) 0 = (odd (n div 1000) \<noteq> bit (oregs s' (Gpio GPIOB ODR)) 0)" for n
    by (metis (full_types))
  with s' show ?thesis by blast
qed

theorem main_setup_starts_witness:
  "\<exists>s'. main_setup (olympus_start only_hermes) = Inr s' \<and> last (printed s') = ''Hello.'' @ crlf \<and>
     (\<exists>s''. milliseconds run_timer 1000 s' = Inr s'' \<and>
        bit (oregs s'' (Gpio GPIOB ODR)) 0 \<noteq> bit (oregs s' (Gpio GPIOB ODR)) 0)"
proof -
  obtain b' where "status_env [(APOLLO, False), (HEPHAESTUS, False), (HERMES, True), (JANUS, False), (ZEUS, False)]
      (bus (olympus_start only_hermes)) b'" using only_hermes_status by (auto simp: olympus_start_def)
  from main_setup_starts [OF _ _ this] obtain s' where s': "main_setup (olympus_start only_hermes) = Inr s'"
    "last (printed s') = ''Hello.'' @ crlf"
    "\<forall>n. \<exists>s''. milliseconds run_timer n s' = Inr s'' \<and>
       bit (oregs s'' (Gpio GPIOB ODR)) 0 = (odd (n div 1000) \<noteq> bit (oregs s' (Gpio GPIOB ODR)) 0)"
    by (auto simp: all_free_def olympus_start_def only_hermes_def mspi_idle_def MAX_NUM_CALLBACK_TIMERS_def)
  from s'(3) [rule_format, of 1000] s'(1,2) show ?thesis by auto
qed

end
