(* ===== verification/TcpServer.thy ===== *)
theory TcpServer
  imports OlympusComms
begin

text \<open>
  The Ethernet server of Olympus, \<^verbatim>\<open>olympus/peripherals/ETH/tcp_server.c\<close>: the callbacks it registers
  with the network stack. A connection is two heap objects, the connection record and its packet
  handler. The network stack is the environment: it hands over connections, chains of received
  buffers and results of \<^verbatim>\<open>mem_malloc\<close>. An access to an object that is not live is \<open>UseAfterFree\<close>,
  and \<^verbatim>\<open>mem_free\<close> of one is \<open>DoubleFree\<close>.
\<close>

section \<open>State\<close>

definition TCP_SERVER_PORT :: nat where "TCP_SERVER_PORT = 9485"
definition TCP_PRIO_MIN :: nat where "TCP_PRIO_MIN = 1"

definition SRV_NONE :: u8 where "SRV_NONE = 0"
definition SRV_CONNECTED :: u8 where "SRV_CONNECTED = 1"

datatype err_t = ERR_OK | ERR_MEM | ERR_OTHER int

text \<open>A connection record has its state and the address of its handler.\<close>

record tcp_conn_t =
  conn_state :: u8
  hdl :: "nat option"

datatype heap_obj = Conn tcp_conn_t | Handler CommsHandler_t

text \<open>What the code registers with a \<^verbatim>\<open>tcp_pcb\<close>: its argument and which callbacks are set.\<close>

record tcp_pcb =
  prio :: nat
  callback_arg :: "nat option"
  recv_set :: bool
  sent_set :: bool
  err_set :: bool
  poll_set :: bool

text \<open>
  \<open>mallocs\<close> are the results of the calls of \<^verbatim>\<open>mem_malloc\<close> to come: \<open>None\<close> is \<^verbatim>\<open>NULL\<close>, otherwise an address
  and what happens to be in the memory there. \<open>acked\<close>, \<open>closed\<close> and \<open>pbufs_freed\<close> log the calls of
  \<^verbatim>\<open>tcp_recved\<close>, \<^verbatim>\<open>tcp_close\<close> and \<^verbatim>\<open>pbuf_free\<close>.
\<close>

record tcp_server =
  server_pcb :: "nat option"
  bound_port :: "nat option"
  accepting :: bool
  heap :: "nat \<rightharpoonup> heap_obj"
  mallocs :: "(nat \<times> u8 list) option list"
  pcbs :: "nat \<Rightarrow> tcp_pcb"
  acked :: "(nat \<times> nat) list"
  closed :: "nat list"
  pbufs_freed :: nat

section \<open>Memory\<close>

definition mem_malloc :: "(u8 list \<Rightarrow> heap_obj) \<Rightarrow> tcp_server \<Rightarrow> nat option \<times> tcp_server" where
  "mem_malloc mk v =
     (case mallocs v of
        [] \<Rightarrow> (None, v)
      | None # ms \<Rightarrow> (None, v\<lparr>mallocs := ms\<rparr>)
      | Some (a, junk) # ms \<Rightarrow> (Some a, v\<lparr>mallocs := ms, heap := (heap v)(a \<mapsto> mk junk)\<rparr>))"

definition mem_free :: "nat option \<Rightarrow> tcp_server \<Rightarrow> tcp_server cres" where
  "mem_free p v =
     (case p of
        None \<Rightarrow> Inr v
      | Some a \<Rightarrow> if heap v a = None then Inl DoubleFree else Inr (v\<lparr>heap := (heap v)(a := None)\<rparr>))"

definition load_conn :: "nat \<Rightarrow> tcp_server \<Rightarrow> tcp_conn_t cres" where
  "load_conn a v = (case heap v a of Some (Conn c) \<Rightarrow> Inr c | _ \<Rightarrow> Inl UseAfterFree)"

definition load_handler :: "nat option \<Rightarrow> tcp_server \<Rightarrow> (nat \<times> CommsHandler_t) cres" where
  "load_handler p v =
     (case p of
        None \<Rightarrow> Inl NullDeref
      | Some a \<Rightarrow> (case heap v a of Some (Handler h) \<Rightarrow> Inr (a, h) | _ \<Rightarrow> Inl UseAfterFree))"

text \<open>The objects as \<^verbatim>\<open>mem_malloc\<close> gives them: their fields hold what the memory held.\<close>

definition raw_conn :: "u8 list \<Rightarrow> heap_obj" where
  "raw_conn junk = Conn \<lparr>conn_state = (case junk of [] \<Rightarrow> 0 | b # _ \<Rightarrow> b), hdl = None\<rparr>"

definition new_handler :: "u8 list \<Rightarrow> CommsHandler_t" where
  "new_handler junk = \<lparr>hstate = WAITING_FOR_START_1,
     packetBuffer = take MAX_PACKET_SIZE (junk @ replicate MAX_PACKET_SIZE 0), packetIdx = 0, harg = 0\<rparr>"

definition raw_handler :: "u8 list \<Rightarrow> heap_obj" where
  "raw_handler junk = Handler (new_handler junk)"

section \<open>Starting the server\<close>

text \<open>
  The three results of the network stack are arguments: the block \<^verbatim>\<open>tcp_new\<close> gives, whether \<^verbatim>\<open>tcp_bind\<close>
  succeeds, and what \<^verbatim>\<open>tcp_listen\<close> gives. \<^verbatim>\<open>tcp_accept\<close> ignores a null pointer.
\<close>

definition tcp_server_init :: "nat option \<Rightarrow> bool \<Rightarrow> nat option \<Rightarrow> tcp_server \<Rightarrow> tcp_server" where
  "tcp_server_init new_pcb bind_ok listen_pcb v =
     (let v = v\<lparr>server_pcb := new_pcb\<rparr> in
      case new_pcb of
        None \<Rightarrow> v
      | Some _ \<Rightarrow>
          if bind_ok
          then v\<lparr>server_pcb := listen_pcb, bound_port := Some TCP_SERVER_PORT, accepting := (listen_pcb \<noteq> None)\<rparr>
          else v)"

section \<open>Callbacks\<close>

definition tcp_server_connection_free :: "nat \<Rightarrow> tcp_server \<Rightarrow> tcp_server cres" where
  "tcp_server_connection_free conn v =
     bindE (load_conn conn v) (\<lambda>c. bindE (mem_free (hdl c) v) (\<lambda>v. mem_free (Some conn) v))"

definition tcp_server_connection_close :: "nat \<Rightarrow> nat option \<Rightarrow> tcp_server \<Rightarrow> tcp_server cres" where
  "tcp_server_connection_close tpcb conn v =
     (let v = v\<lparr>pcbs := (pcbs v)(tpcb := (pcbs v tpcb)\<lparr>callback_arg := None, recv_set := False,
                sent_set := False, err_set := False, poll_set := False\<rparr>)\<rparr> in
      bindE (case conn of None \<Rightarrow> Inr v | Some a \<Rightarrow> tcp_server_connection_free a v) (\<lambda>v.
      Inr (v\<lparr>closed := closed v @ [tpcb]\<rparr>)))"

text \<open>\<^verbatim>\<open>tcp_setprio\<close> writes through its pointer, which the stack may pass as \<^verbatim>\<open>NULL\<close>.\<close>

definition tcp_server_accept :: "nat option \<Rightarrow> err_t \<Rightarrow> tcp_server \<Rightarrow> (err_t \<times> tcp_server) cres" where
  "tcp_server_accept newpcb err v =
     (case newpcb of
        None \<Rightarrow> Inl NullDeref
      | Some p \<Rightarrow>
          let v = v\<lparr>pcbs := (pcbs v)(p := (pcbs v p)\<lparr>prio := TCP_PRIO_MIN\<rparr>)\<rparr>;
              (conn, v) = mem_malloc raw_conn v in
          case conn of
            None \<Rightarrow> bindE (tcp_server_connection_close p None v) (\<lambda>v. Inr (ERR_MEM, v))
          | Some c \<Rightarrow>
              let (h, v) = mem_malloc raw_handler v in
              bindE (load_conn c v) (\<lambda>cn.
              let v = v\<lparr>heap := (heap v)(c \<mapsto> Conn (cn\<lparr>hdl := h\<rparr>))\<rparr> in
              case h of
                None \<Rightarrow>
                  bindE (mem_free (Some c) v) (\<lambda>v.
                  bindE (tcp_server_connection_close p (Some c) v) (\<lambda>v. Inr (ERR_MEM, v)))
              | Some a \<Rightarrow>
                  bindE (load_handler h v) (\<lambda>(a, hh).
                  Inr (ERR_OK,
                    v\<lparr>heap := (heap v)(a \<mapsto> Handler (initCommsHandler p hh),
                                       c \<mapsto> Conn (cn\<lparr>hdl := h, conn_state := SRV_CONNECTED\<rparr>)),
                      pcbs := (pcbs v)(p := (pcbs v p)\<lparr>callback_arg := Some c, recv_set := True,
                        sent_set := True, err_set := True, poll_set := True\<rparr>)\<rparr>))))"

text \<open>
  A chain of buffers is a list of them, each with its payload, its length and the length of the chain
  from it on.
\<close>

record pbuf =
  payload :: "u8 list"
  plen :: nat
  tot_len :: nat

type_synonym net = "tcp_server \<times> board"

definition recv_one :: "nat \<Rightarrow> nat \<Rightarrow> pbuf \<Rightarrow> net \<Rightarrow> net stop + net" where
  "recv_one conn tpcb p = (\<lambda>(v, s).
     bindE (ckd (load_conn conn v)) (\<lambda>c.
     bindE (ckd (load_handler (hdl c) v)) (\<lambda>(a, h).
     bindE (ckd (rd_range (payload p) 0 (plen p))) (\<lambda>bytes.
     let store = (\<lambda>(h, s). (v\<lparr>heap := (heap v)(a \<mapsto> Handler h)\<rparr>, s)) in
     case runCommsFSM bytes (h, s) of
       Inl e \<Rightarrow> Inl (map_stop store e)
     | Inr hs \<Rightarrow>
         (case store hs of (v, s) \<Rightarrow> Inr (v\<lparr>acked := acked v @ [(tpcb, plen p)]\<rparr>, s))))))"

text \<open>
  The loop ends at the last buffer only if its two lengths agree; otherwise it handles that buffer again.
\<close>

fun recv_loop :: "nat \<Rightarrow> nat \<Rightarrow> nat \<Rightarrow> pbuf list \<Rightarrow> net \<Rightarrow> (net stop + net) option" where
  "recv_loop 0 conn tpcb ps vs = None"
| "recv_loop (Suc fuel) conn tpcb [] vs = Some (Inl (Faulted NullDeref))"
| "recv_loop (Suc fuel) conn tpcb [p] vs =
     (case recv_one conn tpcb p vs of
        Inl e \<Rightarrow> Some (Inl e)
      | Inr vs \<Rightarrow> if tot_len p = plen p then Some (Inr vs) else recv_loop fuel conn tpcb [p] vs)"
| "recv_loop (Suc fuel) conn tpcb (p # q # ps) vs =
     (case recv_one conn tpcb p vs of
        Inl e \<Rightarrow> Some (Inl e)
      | Inr vs \<Rightarrow> recv_loop fuel conn tpcb (q # ps) vs)"

text \<open>The argument of the callback is the connection \<^verbatim>\<open>tcp_arg\<close> registered, which is asserted not to be null.\<close>

definition tcp_server_recv :: "nat \<Rightarrow> nat \<Rightarrow> nat \<Rightarrow> pbuf list option \<Rightarrow> err_t \<Rightarrow> net \<Rightarrow>
    (net stop + (err_t \<times> net)) option" where
  "tcp_server_recv fuel conn tpcb p err = (\<lambda>(v, s).
     if err \<noteq> ERR_OK then Some (Inr (err, (v\<lparr>pbufs_freed := pbufs_freed v + (case p of None \<Rightarrow> 0 | Some ps \<Rightarrow> length ps)\<rparr>, s)))
     else case p of
       None \<Rightarrow>
         Some (bindE (ckd (tcp_server_connection_close tpcb (Some conn) v)) (\<lambda>v. Inr (ERR_OK, (v, s))))
     | Some ps \<Rightarrow>
         (case recv_loop fuel conn tpcb ps (v, s) of
            None \<Rightarrow> None
          | Some r \<Rightarrow> Some (bindE r (\<lambda>(v, s). Inr (ERR_OK, (v\<lparr>pbufs_freed := pbufs_freed v + length ps\<rparr>, s))))))"

definition tcp_server_error :: "nat option \<Rightarrow> err_t \<Rightarrow> tcp_server \<Rightarrow> tcp_server cres" where
  "tcp_server_error conn err v =
     (case conn of None \<Rightarrow> Inr v | Some a \<Rightarrow> tcp_server_connection_free a v)"

definition tcp_server_poll :: "nat option \<Rightarrow> nat \<Rightarrow> tcp_server \<Rightarrow> err_t \<times> tcp_server" where
  "tcp_server_poll conn tpcb v = (ERR_OK, v)"

definition tcp_server_sent :: "nat option \<Rightarrow> nat \<Rightarrow> nat \<Rightarrow> tcp_server \<Rightarrow> err_t \<times> tcp_server" where
  "tcp_server_sent conn tpcb len v = (ERR_OK, v)"

section \<open>Receiving a chain\<close>

definition live :: "tcp_server \<Rightarrow> nat \<Rightarrow> nat \<Rightarrow> CommsHandler_t \<Rightarrow> bool" where
  "live v conn a h \<longleftrightarrow> a \<noteq> conn \<and> (\<exists>c. heap v conn = Some (Conn c) \<and> hdl c = Some a) \<and>
     heap v a = Some (Handler h)"

text \<open>A chain as the network stack hands it over, and the bytes it carries.\<close>

definition chain_ok :: "pbuf list \<Rightarrow> bool" where
  "chain_ok ps \<longleftrightarrow> ps \<noteq> [] \<and> (\<forall>p\<in>set ps. plen p \<le> length (payload p)) \<and> tot_len (last ps) = plen (last ps)"

definition stream :: "pbuf list \<Rightarrow> u8 list" where
  "stream ps = concat (map (\<lambda>p. take (plen p) (payload p)) ps)"

lemma runCommsFSM_append: "runCommsFSM (xs @ ys) hs = bindE (runCommsFSM xs hs) (runCommsFSM ys)"
  by (cases "foldE comms_byte xs hs") (simp_all add: runCommsFSM_def foldE_append)

lemma recv_one_ok:
  assumes "live v conn a h" and "plen p \<le> length (payload p)"
    and "runCommsFSM (take (plen p) (payload p)) (h, s) = Inr (h', s')"
  shows "recv_one conn tpcb p (v, s) =
     Inr (v\<lparr>heap := (heap v)(a \<mapsto> Handler h'), acked := acked v @ [(tpcb, plen p)]\<rparr>, s')"
  using assms by (auto simp: recv_one_def live_def load_conn_def load_handler_def)

lemma recv_one_fault:
  assumes "live v conn a h" and "plen p \<le> length (payload p)"
    and "runCommsFSM (take (plen p) (payload p)) (h, s) = Inl (Faulted u)"
  shows "recv_one conn tpcb p (v, s) = Inl (Faulted u)"
  using assms by (auto simp: recv_one_def live_def load_conn_def load_handler_def)

lemma live_after:
  "live v conn a h \<Longrightarrow> live (v\<lparr>heap := (heap v)(a \<mapsto> Handler h'), acked := ack\<rparr>) conn a h'"
  by (auto simp: live_def)

lemma recv_loop_ok:
  assumes "chain_ok ps" and "length ps \<le> fuel" and "live v conn a h"
    and "runCommsFSM (stream ps) (h, s) = Inr (h', s')"
  shows "recv_loop fuel conn tpcb ps (v, s) =
     Some (Inr (v\<lparr>heap := (heap v)(a \<mapsto> Handler h'), acked := acked v @ map (\<lambda>p. (tpcb, plen p)) ps\<rparr>, s'))"
  using assms
proof (induction ps arbitrary: fuel v h s)
  case Nil
  then show ?case by (simp add: chain_ok_def)
next
  case (Cons p ps)
  obtain f where f: "fuel = Suc f" using Cons.prems(2) by (cases fuel) auto
  obtain h1 s1 where one: "runCommsFSM (take (plen p) (payload p)) (h, s) = Inr (h1, s1)"
    and rest: "runCommsFSM (stream ps) (h1, s1) = Inr (h', s')"
    using Cons.prems(4) by (auto simp: stream_def runCommsFSM_append bindE_eq_Inr)
  let ?v = "v\<lparr>heap := (heap v)(a \<mapsto> Handler h1), acked := acked v @ [(tpcb, plen p)]\<rparr>"
  have r: "recv_one conn tpcb p (v, s) = Inr (?v, s1)"
    by (rule recv_one_ok [OF Cons.prems(3) _ one]) (use Cons.prems(1) in \<open>simp add: chain_ok_def\<close>)
  show ?case
  proof (cases ps)
    case Nil
    then have "h' = h1" "s' = s1" using rest by (simp_all add: stream_def runCommsFSM_def)
    with Nil r f Cons.prems(1) show ?thesis by (simp add: chain_ok_def fun_upd_def)
  next
    case (Cons q qs)
    have "chain_ok ps" "length ps \<le> f"
      using Cons.prems(1,2) Cons f by (auto simp: chain_ok_def)
    from Cons.IH [OF this live_after [OF Cons.prems(3)] rest] r f Cons show ?thesis
      by (simp add: fun_upd_def cong: if_cong)
  qed
qed

text \<open>
  Ethernet input is one byte stream: however the network stack splits the received bytes over the buffers
  of a chain, \<^verbatim>\<open>tcp_server_recv\<close> ends, gives the packet state machine of the connection exactly the
  bytes of the chain in order, acknowledges every buffer, and frees the chain once.
\<close>

theorem tcp_recv_is_one_stream:
  assumes "chain_ok ps" and "length ps \<le> fuel" and "live v conn a h"
    and "runCommsFSM (stream ps) (h, s) = Inr (h', s')"
  shows "tcp_server_recv fuel conn tpcb (Some ps) ERR_OK (v, s) =
     Some (Inr (ERR_OK, (v\<lparr>heap := (heap v)(a \<mapsto> Handler h'),
       acked := acked v @ map (\<lambda>p. (tpcb, plen p)) ps, pbufs_freed := pbufs_freed v + length ps\<rparr>, s')))"
  using recv_loop_ok [OF assms, of tpcb] by (simp add: tcp_server_recv_def)

definition server_start :: "(nat \<times> u8 list) option list \<Rightarrow> tcp_server" where
  "server_start ms = \<lparr>server_pcb = None, bound_port = None, accepting = False, heap = (\<lambda>_. None), mallocs = ms,
     pcbs = (\<lambda>_. \<lparr>prio = 0, callback_arg = None, recv_set = False, sent_set = False, err_set = False,
       poll_set = False\<rparr>), acked = [], closed = [], pbufs_freed = 0\<rparr>"

definition buf :: "u8 list \<Rightarrow> nat \<Rightarrow> pbuf" where
  "buf bytes n = \<lparr>payload = bytes, plen = length bytes, tot_len = n\<rparr>"

lemma zeros_ignored:
  "hstate h = WAITING_FOR_START_1 \<Longrightarrow> length (packetBuffer h) = 64 \<Longrightarrow> \<exists>h'. runCommsFSM [0, 0, 0] (h, s) = Inr (h', s)"
  by (simp add: runCommsFSM_def comms_start1 START_BYTE_1_def)

theorem tcp_recv_is_one_stream_witness:
  "\<exists>v s. tcp_server_recv 2 1 7 (Some [buf [0, 0] 3, buf [0] 1]) ERR_OK
     ((server_start [])\<lparr>heap := [1 \<mapsto> Conn \<lparr>conn_state = 1, hdl = Some 2\<rparr>, 2 \<mapsto> Handler handler_start]\<rparr>,
      board_start (mspi_idle [] [] []) usb_idle) = Some (Inr (ERR_OK, (v, s))) \<and>
     acked v = [(7, 2), (7, 1)] \<and> pbufs_freed v = 2"
proof -
  let ?v = "(server_start [])\<lparr>heap := [1 \<mapsto> Conn \<lparr>conn_state = 1, hdl = Some 2\<rparr>, 2 \<mapsto> Handler handler_start]\<rparr>"
  let ?s = "board_start (mspi_idle [] [] []) usb_idle"
  let ?ps = "[buf [0, 0] 3, buf [0] 1]"
  have c: "chain_ok ?ps" "length ?ps \<le> 2" by (simp_all add: chain_ok_def buf_def)
  have l: "live ?v 1 2 handler_start" by (simp add: live_def)
  have "stream ?ps = [0, 0, 0]" by (simp add: stream_def buf_def)
  with zeros_ignored [of handler_start ?s] handler_start_idle obtain h' where
    "runCommsFSM (stream ?ps) (handler_start, ?s) = Inr (h', ?s)" by (auto simp: idle_def MAX_PACKET_SIZE_def)
  from tcp_recv_is_one_stream [OF c l this, of 7] show ?thesis by (auto simp: server_start_def buf_def)
qed

section \<open>Connections\<close>

text \<open>
  The accept callback ignores its error argument: when the stack is out of memory it calls the callback
  with a null connection and \<^verbatim>\<open>ERR_MEM\<close>, and the first statement writes through the null pointer.
\<close>

theorem tcp_accept_null_faults: "tcp_server_accept None ERR_MEM v = Inl NullDeref"
  by (simp add: tcp_server_accept_def)

text \<open>
  When the second allocation fails, the accept callback frees the connection record and then hands it to
  the function that closes the connection, which reads the freed record.
\<close>

theorem tcp_accept_use_after_free:
  assumes "mallocs v = Some (c, junk) # None # ms"
  shows "tcp_server_accept (Some p) err v = Inl UseAfterFree"
  using assms
  by (simp add: tcp_server_accept_def mem_malloc_def load_conn_def raw_conn_def mem_free_def
    tcp_server_connection_close_def tcp_server_connection_free_def Let_def)

lemma tcp_accept_ok:
  assumes "mallocs v = Some (c, jc) # Some (a, jh) # ms" and "a \<noteq> c"
  shows "\<exists>v'. tcp_server_accept (Some p) err v = Inr (ERR_OK, v') \<and>
     live v' c a (initCommsHandler p (new_handler jh)) \<and>
     (\<forall>x. x \<noteq> a \<and> x \<noteq> c \<longrightarrow> heap v' x = heap v x) \<and> callback_arg (pcbs v' p) = Some c \<and> recv_set (pcbs v' p) \<and>
     mallocs v' = ms \<and> closed v' = closed v"
  using assms
  by (auto simp: tcp_server_accept_def mem_malloc_def load_conn_def raw_conn_def load_handler_def raw_handler_def
    live_def)

lemma tcp_close_ok:
  assumes "live v conn a h"
  shows "\<exists>v'. tcp_server_recv fuel conn tpcb None ERR_OK (v, s) = Some (Inr (ERR_OK, (v', s))) \<and>
     heap v' = (heap v)(a := None, conn := None) \<and> closed v' = closed v @ [tpcb] \<and>
     callback_arg (pcbs v' tpcb) = None"
  using assms
  by (auto simp: live_def tcp_server_recv_def tcp_server_connection_close_def tcp_server_connection_free_def
    load_conn_def mem_free_def)

text \<open>
  C27. A connection leaks nothing and frees nothing twice: accepted with fresh memory, fed any chain whose
  bytes the state machine takes without stopping, and closed by the peer, it leaves the heap as it was
  before the connection.
\<close>

theorem tcp_connection_lifecycle:
  assumes "mallocs v = Some (c, jc) # Some (a, jh) # ms" and "a \<noteq> c" and "heap v c = None" "heap v a = None"
    and "chain_ok ps" and "length ps \<le> fuel"
    and "runCommsFSM (stream ps) (initCommsHandler p (new_handler jh), s) = Inr (h', s2)"
  shows "\<exists>v1 v2 v3. tcp_server_accept (Some p) err v = Inr (ERR_OK, v1) \<and>
     tcp_server_recv fuel c p (Some ps) ERR_OK (v1, s) = Some (Inr (ERR_OK, (v2, s2))) \<and>
     tcp_server_recv fuel c p None ERR_OK (v2, s2) = Some (Inr (ERR_OK, (v3, s2))) \<and>
     heap v3 = heap v \<and> closed v3 = closed v @ [p]"
proof -
  obtain v1 where v1: "tcp_server_accept (Some p) err v = Inr (ERR_OK, v1)"
    "live v1 c a (initCommsHandler p (new_handler jh))"
    "\<forall>x. x \<noteq> a \<and> x \<noteq> c \<longrightarrow> heap v1 x = heap v x" "closed v1 = closed v"
    using tcp_accept_ok [OF assms(1,2), of p err] by blast
  define v2 where "v2 = v1\<lparr>heap := (heap v1)(a \<mapsto> Handler h'),
    acked := acked v1 @ map (\<lambda>q. (p, plen q)) ps, pbufs_freed := pbufs_freed v1 + length ps\<rparr>"
  have recv: "tcp_server_recv fuel c p (Some ps) ERR_OK (v1, s) = Some (Inr (ERR_OK, (v2, s2)))"
    using recv_loop_ok [OF assms(5,6) v1(2) assms(7), of p] by (simp add: tcp_server_recv_def v2_def)
  have "live v2 c a h'" using v1(2) by (auto simp: v2_def live_def)
  then obtain v3 where v3: "tcp_server_recv fuel c p None ERR_OK (v2, s2) = Some (Inr (ERR_OK, (v3, s2)))"
    "heap v3 = (heap v2)(a := None, c := None)" "closed v3 = closed v2 @ [p]"
    using tcp_close_ok [of v2 c a h' fuel p s2] by blast
  have "heap v3 = heap v" using v3(2) v1(3) assms(3,4) by (auto simp: v2_def fun_eq_iff)
  moreover have "closed v3 = closed v @ [p]" using v3(3) v1(4) by (simp add: v2_def)
  ultimately show ?thesis using v1(1) recv v3(1) by blast
qed

theorem tcp_connection_lifecycle_witness:
  "\<exists>v1 v2 v3. tcp_server_accept (Some 7) ERR_OK (server_start [Some (1, []), Some (2, [])]) = Inr (ERR_OK, v1) \<and>
     tcp_server_recv 1 1 7 (Some [buf [0, 0, 0] 3]) ERR_OK (v1, board_start (mspi_idle [] [] []) usb_idle) =
       Some (Inr (ERR_OK, (v2, board_start (mspi_idle [] [] []) usb_idle))) \<and>
     tcp_server_recv 1 1 7 None ERR_OK (v2, board_start (mspi_idle [] [] []) usb_idle) =
       Some (Inr (ERR_OK, (v3, board_start (mspi_idle [] [] []) usb_idle))) \<and>
     heap v3 = (\<lambda>_. None)"
proof -
  let ?s = "board_start (mspi_idle [] [] []) usb_idle"
  let ?v = "server_start [Some (1, []), Some (2, [])]"
  have v: "mallocs ?v = Some (1, []) # Some (2, []) # []" "(2 :: nat) \<noteq> 1" "heap ?v 1 = None" "heap ?v 2 = None"
    by (simp_all add: server_start_def)
  have c: "chain_ok [buf [0, 0, 0] 3]" "length [buf [0, 0, 0] 3] \<le> 1"
    by (simp_all add: chain_ok_def buf_def)
  have "stream [buf [0, 0, 0] 3] = [0, 0, 0]" by (simp add: stream_def buf_def)
  with zeros_ignored [of "initCommsHandler 7 (new_handler [])" ?s] obtain h' where
    "runCommsFSM (stream [buf [0, 0, 0] 3]) (initCommsHandler 7 (new_handler []), ?s) = Inr (h', ?s)"
    by (auto simp: initCommsHandler_def new_handler_def MAX_PACKET_SIZE_def)
  from tcp_connection_lifecycle [OF v c this, of ERR_OK] show ?thesis by (auto simp: server_start_def)
qed

theorem tcp_accept_use_after_free_witness:
  "tcp_server_accept (Some 7) ERR_OK (server_start [Some (1, []), None]) = Inl UseAfterFree"
  by (rule tcp_accept_use_after_free) (simp add: server_start_def)

section \<open>A packet over Ethernet\<close>

lemma packet_answered_tcp:
  assumes "idle h" and "length data \<le> 58" and "unat (drop_bit 1 t :: u8) < 18" and "length (inputBuf s) = 256"
    and "dispatch (response ! unat (drop_bit 1 t :: u8)) data s = Inr s1"
    and "answer (response ! unat (drop_bit 1 t :: u8)) s1 resp" and "length (sendBuffer s1) = 64"
    and "\<not> usingUSB s1" and "tcp_env s1 = (room, True) # env" and "6 + length resp \<le> room"
  shows "\<exists>h' out. runCommsFSM (packet t q data) (h, s) = Inr (h', s1\<lparr>sendBuffer := out, tcp_env := env,
     tcp_log := tcp_log s1 @ [(harg h, packet (t OR 1) q resp)]\<rparr>) \<and> idle h'"
proof -
  let ?r = "response ! unat (drop_bit 1 t :: u8)"
  define pb where "pb = received (packet t q data) (packetBuffer h)"
  define out where "out = received (packet (t OR 1) q resp) (sendBuffer s1)"
  have len: "length (packetBuffer h) = 64" using assms(1) by (simp add: idle_def MAX_PACKET_SIZE_def)
  have run: "runPacket pb s = Inr s1"
    using runPacket_dispatch [OF len assms(2,4,3) refl pb_def] assms(5) by simp
  have send: "sendResponse (harg h) pb s1 = Inr (s1\<lparr>sendBuffer := out, tcp_env := env,
      tcp_log := tcp_log s1 @ [(harg h, packet (t OR 1) q resp)]\<rparr>)"
    using sendResponse_eq [OF len assms(2,7,3) refl pb_def assms(6) out_def, of "harg h"] assms(8-10)
    by (simp add: tcp_server_send_def)
  have pb: "pb = received (body t q data @ [crc8_of (body t q data)]) (packetBuffer h)" by (simp add: pb_def packet_def)
  define h' where "h' = h\<lparr>hstate := WAITING_FOR_START_1, packetBuffer := pb, packetIdx := of_nat (5 + length data)\<rparr>"
  have "runCommsFSM (packet t q data) (h, s) = Inr (h', s1\<lparr>sendBuffer := out, tcp_env := env,
      tcp_log := tcp_log s1 @ [(harg h, packet (t OR 1) q resp)]\<rparr>)"
    using packet_dispatched [OF assms(1,2) pb refl, of s] run send by (simp add: packet_def h'_def)
  moreover have "idle h'" by (rule received_idle [OF len assms(2)]) (simp_all add: h'_def pb)
  ultimately show ?thesis by blast
qed

text \<open>
  C19. A packet over Ethernet is carried out and answered on its own connection: accepted with fresh memory (in
  which the byte that will be the length of the first packet is not 5), and sent in any division into
  buffers, a packet of a known type whose callback returns runs the callback on its data, and the
  answer, with the same sequence number and a valid checksum, is written to the connection it came from.
\<close>

theorem ethernet_packet_answered:
  assumes "mallocs v = Some (c, jc) # Some (a, jh) # ms" and "a \<noteq> c" and "(jh @ replicate 64 0) ! 4 \<noteq> 5"
    and "chain_ok ps" and "length ps \<le> fuel" and "stream ps = packet t q data"
    and "length data \<le> 58" and "unat (drop_bit 1 t :: u8) < 18" and "length (inputBuf s) = 256"
    and "dispatch (response ! unat (drop_bit 1 t :: u8)) data s = Inr s1"
    and "answer (response ! unat (drop_bit 1 t :: u8)) s1 resp" and "length (sendBuffer s1) = 64"
    and "\<not> usingUSB s1" and "tcp_env s1 = (room, True) # env" and "6 + length resp \<le> room"
  shows "\<exists>v1 v2 out. tcp_server_accept (Some p) ERR_OK v = Inr (ERR_OK, v1) \<and>
     tcp_server_recv fuel c p (Some ps) ERR_OK (v1, s) = Some (Inr (ERR_OK, (v2, s1\<lparr>sendBuffer := out,
       tcp_env := env, tcp_log := tcp_log s1 @ [(p, packet (t OR 1) q resp)]\<rparr>)))"
proof -
  obtain v1 where v1: "tcp_server_accept (Some p) ERR_OK v = Inr (ERR_OK, v1)"
    "live v1 c a (initCommsHandler p (new_handler jh))"
    using tcp_accept_ok [OF assms(1,2), of p ERR_OK] by blast
  have idle: "idle (initCommsHandler p (new_handler jh))"
    using assms(3)
    by (auto simp: new_handler_def initCommsHandler_def idle_def MAX_PACKET_SIZE_def nth_append split: if_splits)
  have "harg (initCommsHandler p (new_handler jh)) = p" by (simp add: initCommsHandler_def)
  with packet_answered_tcp [OF idle assms(7-15), of q] obtain h' out where
    "runCommsFSM (stream ps) (initCommsHandler p (new_handler jh), s) = Inr (h', s1\<lparr>sendBuffer := out,
       tcp_env := env, tcp_log := tcp_log s1 @ [(p, packet (t OR 1) q resp)]\<rparr>)"
    using assms(6) by auto
  from recv_loop_ok [OF assms(4,5) v1(2) this, of p] v1(1) show ?thesis
    by (auto simp: tcp_server_recv_def)
qed

theorem ethernet_packet_answered_witness:
  "\<exists>v1 v2 out. tcp_server_accept (Some 7) ERR_OK (server_start [Some (1, []), Some (2, [])]) = Inr (ERR_OK, v1) \<and>
     tcp_server_recv 2 1 7 (Some [buf (take 3 (packet 0 9 [])) 6, buf (drop 3 (packet 0 9 [])) 3]) ERR_OK
       (v1, (board_start (mspi_idle [] [] []) usb_idle)\<lparr>usingUSB := False, tcp_env := [(100, True)]\<rparr>) =
     Some (Inr (ERR_OK, (v2, (board_start (mspi_idle [] [] []) usb_idle)\<lparr>sendBuffer := out, usingUSB := False,
       tcp_env := [], tcp_log := [(7, packet 1 9 [0, 0, 0, 0, 0])]\<rparr>)))"
proof -
  let ?s = "(board_start (mspi_idle [] [] []) usb_idle)\<lparr>usingUSB := False, tcp_env := [(100, True)]\<rparr>"
  let ?v = "server_start [Some (1, []), Some (2, [])]"
  let ?ps = "[buf (take 3 (packet 0 9 [])) 6, buf (drop 3 (packet 0 9 [])) 3]"
  have 0: "mallocs ?v = Some (1, []) # Some (2, []) # []" "(2 :: nat) \<noteq> 1" "([] @ replicate 64 0) ! 4 \<noteq> (5 :: u8)"
    by (simp_all add: server_start_def)
  have "length (packet 0 9 []) = 6" by simp
  then have 1: "chain_ok ?ps" "length ?ps \<le> 2" "stream ?ps = packet 0 9 []"
    by (simp_all add: chain_ok_def buf_def stream_def)
  have 2: "dispatch (response ! unat (drop_bit 1 0 :: u8)) [] ?s = Inr ?s" by (simp add: dispatch_def entry_at)
  have "replicate 5 (0 :: u8) = [0, 0, 0, 0, 0]" by (simp add: eval_nat_numeral)
  then have 3: "answer (response ! unat (drop_bit 1 0 :: u8)) ?s [0, 0, 0, 0, 0]"
    by (simp add: answer_def entry_at board_start_simps)
  have 4: "length [] \<le> (58 :: nat)" "unat (drop_bit 1 0 :: u8) < 18" "length (inputBuf ?s) = 256"
    "length (sendBuffer ?s) = 64" "\<not> usingUSB ?s" "tcp_env ?s = (100, True) # []"
    "6 + length [0, 0, 0, 0, 0 :: u8] \<le> 100"
    by (simp_all add: board_start_simps)
  from ethernet_packet_answered [OF 0 1 4(1-3) 2 3 4(4-7), of 7] show ?thesis
    by (auto simp: board_start_simps)
qed

end
