(* ===== verification/Buffer8.thy ===== *)
theory Buffer8
  imports ByteQueue
begin

text \<open>
  The ring buffer of \<^verbatim>\<open>olympus/utils/buffer8.c\<close>. The pointers are offsets from \<^verbatim>\<open>base\<close>; \<open>mem\<close> is the
  caller's array. Both pointers run up to the offset \<open>size\<close> itself before they wrap, so the code needs
  an array of one byte more than the size it is told.
\<close>

section \<open>Operations\<close>

record buffer8_t =
  mem :: "u8 list"
  bsize :: nat
  bstart :: nat
  bend :: nat
  bufferFullCount :: int
  messages :: "string list"

definition buffer8_init :: "u8 list \<Rightarrow> nat \<Rightarrow> buffer8_t" where
  "buffer8_init arr n = \<lparr>mem = arr, bsize = n, bstart = 0, bend = 0, bufferFullCount = 0, messages = []\<rparr>"

definition buffer8_bytes :: "buffer8_t \<Rightarrow> nat" where
  "buffer8_bytes b = (if bstart b \<ge> bend b then bstart b - bend b else bsize b - (bend b - bstart b))"

definition buffer8_space :: "buffer8_t \<Rightarrow> nat" where
  "buffer8_space b = bsize b - buffer8_bytes b"

definition buffer8_empty :: "buffer8_t \<Rightarrow> bool" where
  "buffer8_empty b \<longleftrightarrow> bstart b = bend b"

definition buffer8_full :: "buffer8_t \<Rightarrow> bool" where
  "buffer8_full b \<longleftrightarrow> buffer8_bytes b \<ge> bsize b"

definition buffer8_put :: "u8 \<Rightarrow> buffer8_t \<Rightarrow> buffer8_t cres" where
  "buffer8_put data b =
     (if \<not> buffer8_full b then
        bindE (wr (mem b) (bstart b) data) (\<lambda>m.
        let b = b\<lparr>mem := m, bstart := bstart b + 1\<rparr> in
        Inr (if bstart b > bsize b then b\<lparr>bstart := 0\<rparr> else b))
      else Inr (b\<lparr>bufferFullCount := bufferFullCount b + 1, messages := messages b @ [''FULL!!!'' @ [CHR 0x0D, CHR 0x0A]]\<rparr>))"

definition buffer8_write :: "u8 list \<Rightarrow> buffer8_t \<Rightarrow> buffer8_t cres" where
  "buffer8_write data b =
     (if buffer8_space b \<ge> length data then foldE buffer8_put data b
      else Inr (b\<lparr>messages := messages b @ [''Write Full'' @ [CHR 0x0D, CHR 0x0A]]\<rparr>))"

definition buffer8_get :: "buffer8_t \<Rightarrow> (u8 \<times> buffer8_t) cres" where
  "buffer8_get b =
     (if \<not> buffer8_empty b then
        bindE (rd (mem b) (bend b)) (\<lambda>retVal.
        let b = b\<lparr>bend := bend b + 1\<rparr> in
        Inr (retVal, if bend b > bsize b then b\<lparr>bend := 0\<rparr> else b))
      else Inr (0, b))"

definition buffer8_peek :: "buffer8_t \<Rightarrow> u8 cres" where
  "buffer8_peek b = (if \<not> buffer8_empty b then rd (mem b) (bend b) else Inr 0)"

text \<open>A number of reads in a row.\<close>

fun gets :: "nat \<Rightarrow> buffer8_t \<Rightarrow> (u8 list \<times> buffer8_t) cres" where
  "gets 0 b = Inr ([], b)"
| "gets (Suc n) b =
     bindE (buffer8_get b) (\<lambda>(x, b). bindE (gets n b) (\<lambda>(xs, b). Inr (x # xs, b)))"

section \<open>Before the first wrap\<close>

lemma put_in_order:
  assumes "length m = n" and "bsize b = n" and "bend b = 0" and "mem b = m" and "bstart b = i"
    and "i + length xs \<le> n"
  shows "foldE buffer8_put xs b = Inr (b\<lparr>mem := take i m @ xs @ drop (i + length xs) m, bstart := i + length xs\<rparr>)"
  using assms
proof (induction xs arbitrary: b m i)
  case Nil
  then show ?case by simp
next
  case (Cons x xs)
  let ?b = "b\<lparr>mem := m[i := x], bstart := Suc i\<rparr>"
  have "buffer8_put x b = Inr ?b"
    using Cons.prems by (simp add: buffer8_put_def buffer8_full_def buffer8_bytes_def)
  moreover have "foldE buffer8_put xs ?b =
      Inr (?b\<lparr>mem := take (Suc i) (m[i := x]) @ xs @ drop (Suc i + length xs) (m[i := x]), bstart := Suc i + length xs\<rparr>)"
    using Cons.prems by (intro Cons.IH) simp_all
  moreover have "take (Suc i) (m[i := x]) = take i m @ [x]"
    using Cons.prems by (intro take_Suc_update) simp
  ultimately show ?case by simp
qed

lemma gets_in_order:
  assumes "bstart b = j + k" and "bend b = j" and "j + k \<le> bsize b" and "j + k \<le> length (mem b)"
  shows "gets k b = Inr (take k (drop j (mem b)), b\<lparr>bend := j + k\<rparr>)"
  using assms
proof (induction k arbitrary: b j)
  case (Suc k)
  have "buffer8_get b = Inr (mem b ! j, b\<lparr>bend := Suc j\<rparr>)"
    using Suc.prems by (simp add: buffer8_get_def buffer8_empty_def)
  moreover have "gets k (b\<lparr>bend := Suc j\<rparr>) = Inr (take k (drop (Suc j) (mem b)), b\<lparr>bend := Suc j + k\<rparr>)"
    using Suc.IH [of "b\<lparr>bend := Suc j\<rparr>" "Suc j"] Suc.prems by simp
  moreover have "take (Suc k) (drop j (mem b)) = mem b ! j # take k (drop (Suc j) (mem b))"
    using Suc.prems by (simp add: Cons_nth_drop_Suc [symmetric])
  ultimately show ?case by simp
qed simp

lemma fill_eq:
  assumes "length m = n" and "length xs \<le> n"
  shows "foldE buffer8_put xs (buffer8_init m n) =
     Inr ((buffer8_init m n)\<lparr>mem := xs @ drop (length xs) m, bstart := length xs\<rparr>)"
  using put_in_order [of m n "buffer8_init m n" 0 xs] assms by (simp add: buffer8_init_def)

text \<open>
  What is put into a fresh buffer comes out in order: up to the size of the buffer, the bytes put are
  the bytes read.
\<close>

theorem buffer8_roundtrip:
  assumes "length m = n" and "length xs \<le> n"
  shows "\<exists>b. foldE buffer8_put xs (buffer8_init m n) = Inr b \<and> buffer8_bytes b = length xs \<and>
     (\<exists>b'. gets (length xs) b = Inr (xs, b') \<and> buffer8_empty b')"
proof -
  let ?b = "(buffer8_init m n)\<lparr>mem := xs @ drop (length xs) m, bstart := length xs\<rparr>"
  have "gets (length xs) ?b = Inr (xs, ?b\<lparr>bend := length xs\<rparr>)"
    using gets_in_order [of ?b 0 "length xs"] assms by (simp add: buffer8_init_def)
  then show ?thesis using fill_eq [OF assms]
    by (simp add: buffer8_bytes_def buffer8_empty_def buffer8_init_def)
qed

theorem buffer8_roundtrip_witness:
  "\<exists>b b'. foldE buffer8_put [1, 2, 3] (buffer8_init [0, 0, 0, 0] 4) = Inr b \<and> gets 3 b = Inr ([1, 2, 3], b')"
  using buffer8_roundtrip [of "[0, 0, 0, 0]" 4 "[1, 2, 3]"] by (auto simp: numeral_3_eq_3)

section \<open>At the wrap\<close>

text \<open>
  The wrap comes one byte too late: a buffer of \<open>n\<close> bytes over an array of \<open>n\<close> bytes, filled, read once
  and written once more, writes behind the array.
\<close>

theorem buffer8_writes_beyond_array:
  assumes "length xs = n" and "length m = n" and "0 < n"
  shows "bindE (foldE buffer8_put xs (buffer8_init m n)) (\<lambda>b. bindE (buffer8_get b) (\<lambda>(x, b). buffer8_put y b)) =
     Inl OutOfBounds"
  using fill_eq [of m n xs] assms
  by (simp add: buffer8_get_def buffer8_put_def buffer8_empty_def buffer8_full_def buffer8_bytes_def buffer8_init_def)

theorem buffer8_writes_beyond_array_witness:
  "bindE (foldE buffer8_put [1, 2] (buffer8_init [0, 0] 2)) (\<lambda>b. bindE (buffer8_get b) (\<lambda>(x, b). buffer8_put 3 b)) =
     Inl OutOfBounds"
  by (rule buffer8_writes_beyond_array) simp_all

end
