(* ===== verification/Spec2Isabelle.thy ===== *)
theory Spec2Isabelle
  imports Crc8 UsbHost Apollo Janus Hermes Hephaestus SlaveBoot MasterBoot OlympusMain TcpServer Buffer8
begin

text \<open>
  Verification of the firmware of a robot vehicle: a main board (Olympus) that talks to a host computer
  over USB or Ethernet and to five submodules over one SPI bus, the boot loaders of both sides, and the
  programs of the submodules.

  \<^bold>\<open>Parts and how they interact.\<close> The host sends packets (start bytes, type, sequence number, length,
  data, CRC-8). The USB driver queues their bytes in a double buffer; the main loop of Olympus feeds
  them to a state machine that runs the callback of an intact packet and answers it. Callbacks of
  commands send one message to a submodule: the master selects it, clocks out a start byte, the
  message type and the arguments, and waits for the submodule to raise its interrupt line. In the
  submodule an interrupt handler queues the bytes, the main loop feeds them to a second state machine,
  and the callback of the message answers through the transmit queue. To flash a new program the host
  talks to the boot loader of the main board, which programs its own flash or hands the image on to
  the boot loader of a submodule. Beside the host there is a text console on a serial port: its bytes
  arrive in a circular buffer that a DMA stream fills, lines in brackets are commands that use the
  same drivers as the packets, and all printed text leaves through four buffers that a second stream
  empties.

  \<^bold>\<open>Theories, bottom up.\<close>
  \<^item> \<open>Prelude\<close>: machine integers, undefined behaviour as a value, checked array accesses, byte order.
  \<^item> \<open>Crc8\<close> (\<^verbatim>\<open>olympus/utils/crc8.c\<close>): the table-driven checksum equals the bitwise CRC and detects
    every single-byte error.
  \<^item> \<open>ByteQueue\<close>: the interfaces \<open>byte_queue\<close> and \<open>byte_channel\<close> between a driver that collects bytes
    and a loop that consumes them; interpreted by \<open>DoubleBuffer\<close>, \<open>SlaveSpi\<close>, \<open>OlympusComms\<close>
    and \<open>Usart\<close>; and lemmas on rings.
  \<^item> \<open>DoubleBuffer\<close> (\<^verbatim>\<open>olympus/utils/doubleBuffer.c\<close>): refines a FIFO queue.
  \<^item> \<open>UsbCdc\<close> (\<^verbatim>\<open>master_lib/peripherals/USB\<close>): reception and transmission of the serial class, with the
    aliasing of endpoint buffer and queue storage.
  \<^item> \<open>UsbDescriptors\<close> (\<^verbatim>\<open>usbd_desc.c\<close> and the tables of \<^verbatim>\<open>usbd_cdc.c\<close>), \<open>UsbCore\<close> (\<^verbatim>\<open>usbd_core.c\<close>, \<^verbatim>\<open>usbd_ctlreq.c\<close>,
    \<^verbatim>\<open>usbd_ioreq.c\<close>, \<^verbatim>\<open>usbd_conf.c\<close>): the control side of the USB stack, that is descriptors, standard and class
    requests, the stages of a control transfer and the bus events.
  \<^item> \<open>UsbControl\<close>, \<open>UsbWrite\<close>, \<open>UsbHost\<close>: answers reach the host whole, enumeration ends with a device that
    receives, data of the host arrives; and a step relation over requests, packets and bus events with the
    invariant that a fair host keeps, together with what happens when a host is not fair.
  \<^item> \<open>SlaveSpi\<close>, \<open>SlaveComms\<close> (\<^verbatim>\<open>slave_lib\<close>): interrupt handler, queues and responses of a submodule,
    and its message state machine. The locale \<open>slave_app\<close> says what a table of messages owes the state
    machine and gives that no byte stream makes it fault.
  \<^item> \<open>Mmio\<close>: registers and the vendor's GPIO functions for the submodules.
  \<^item> \<open>Apollo\<close> (lights; also the table of Zeus), \<open>Janus\<close> (gear relays, display), \<open>Hermes\<close> (speed capture
    and throttle control), \<open>AdcAverage\<close> and \<open>Hephaestus\<close> (analog means, steering loop): the drivers,
    message tables and main loops of the submodules, each interpreting \<open>slave_app\<close>. Janus has a step
    relation over messages, main loop rounds and the single writes of a gear change; the relay
    interlock is an invariant of the reachable states.
  \<^item> \<open>SlaveBoot\<close> (\<^verbatim>\<open>slave_boot\<close>): flash programming and the messages of a flash session.
  \<^item> \<open>SubmoduleComms\<close> (\<^verbatim>\<open>master_lib/drivers/submoduleComms.c\<close>): the master's side of a message with its
    time limits.
  \<^item> \<open>MasterBoot\<close> (\<^verbatim>\<open>master_boot\<close>): the boot loader of the main board.
  \<^item> \<open>MasterGpio\<close> (\<^verbatim>\<open>master_lib/peripherals/gpio.c\<close>, \<^verbatim>\<open>spi.c\<close>): pins of the main board; its library's GPIO
    function equals the one of the submodules for all modes without external interrupt.
  \<^item> \<open>TimerCallback\<close> (\<^verbatim>\<open>olympus/utils/timerCallback.c\<close>): the table of callback timers; the locales
    \<open>timer_client\<close> and \<open>periodic_timer\<close> give the exact number of runs of a periodic callback.
  \<^item> \<open>OlympusBoard\<close> (\<^verbatim>\<open>olympus/drivers\<close>): LEDs, display, sounds, errors, speed ramp, power readings, the
    messages to the submodules and the status check. Its globals are fields of one record that extends
    the timer table.
  \<^item> \<open>OlympusComms\<close> (\<^verbatim>\<open>olympus/drivers/comms.c\<close>): the packet state machine of the host link, the response
    table and the USB loop of \<^verbatim>\<open>main\<close>.
  \<^item> \<open>TcpServer\<close> (\<^verbatim>\<open>olympus/peripherals/ETH/tcp_server.c\<close>): the callbacks of the network stack over an
    explicit heap; input over Ethernet is one byte stream, a packet is answered on its connection, and
    a connection leaks nothing.
  \<^item> \<open>Usart\<close>, \<open>UsartSend\<close> (\<^verbatim>\<open>olympus/peripherals/usart.c\<close>, \<^verbatim>\<open>newlib_hooks.c\<close>): the serial port. Receiving is a
    queue; sending is a step relation over writes, ends of transfers and service calls, with the
    order and delivery of all bytes, the end of the write loop and what an overrun does.
  \<^item> \<open>CString\<close>, \<open>CharacterMapping\<close> (\<^verbatim>\<open>characterMapping.c\<close>), \<open>Console\<close>, \<open>ConsoleLines\<close> (\<^verbatim>\<open>olympus/drivers/console.c\<close>):
    string functions of the C library on memory with or without a terminating zero, the console with
    all its commands, and what lines do.
  \<^item> \<open>Buffer8\<close> (\<^verbatim>\<open>olympus/utils/buffer8.c\<close>): the ring buffer.
  \<^item> \<open>OlympusMain\<close> (\<^verbatim>\<open>olympus/main.c\<close>): the set-up of the board and one round of the main loop, which
    composes the serial port, the timers, the console and the USB link.
  \<^item> This theory: properties across the parts. A host command is followed through packet, callback, bus
    message and submodule to its effect, so is a line typed at the console; a host that plugs in is
    enumerated and its first packet answered; and no bus traffic makes a submodule fault.

  \<^bold>\<open>Conventions.\<close> State is passed explicitly; a record field stands for a global or static variable of
  the same name. Undefined behaviour, endless waiting, a reset and the jump into another program are
  the left values of a sum type (\<open>ub\<close>, \<open>stop\<close>). What hardware shows the program is an input of the
  model: the interrupts that arrive while a submodule waits (\<open>irqs\<close>), the readings of the tick counter
  and of the interrupt lines and the bytes on the bus (\<open>ticks\<close>, \<open>ints\<close>, \<open>line\<close>), the room in the send
  buffer of the network stack (\<open>tcp_env\<close>), what an allocator returns (\<open>mallocs\<close>), the bytes and ends of transfers
  of the DMA streams (\<open>dma_rx_byte\<close>, \<open>dma_tx_complete\<close>). Theorems assume of it what the hardware does in the case at
  hand (for example \<open>answered\<close>: the submodule raises its line in time), never what the code computes.

  \<^bold>\<open>Fuel.\<close> Three kinds of loop have fuel. The loops that read from a queue (\<open>drain\<close>) count bytes, and the
  theorems show that one more than the number of queued bytes is enough. The loop of \<^verbatim>\<open>usartWrite\<close> has
  \<open>WRITE_FUEL\<close> = 9 rounds: it passes each of the four buffers at most twice before it stops, and
  \<open>usart_write_returns\<close> shows that nine rounds end it in every state. The loop over a chain of network
  buffers (\<open>recv_loop\<close>) counts buffers; the code runs for ever on a chain whose last buffer has a wrong
  total length, which the stack does not hand out. All other loops are structural recursion or folds
  over the index range of the source.

  \<^bold>\<open>Not modelled.\<close> The I2C, DMA, DAC and timer set-up of Olympus, which only fills structures for the
  vendor library (\<^verbatim>\<open>i2c.c\<close>, \<^verbatim>\<open>adc.c\<close> and \<^verbatim>\<open>spi.c\<close> of its peripherals are not part of the build); the network
  interface and its driver; the USB controller driver, of which \<open>UsbCore\<close> keeps what the stack sees; clock and
  start-up code; the vendor libraries CMSIS,
  HAL and lwIP beyond the GPIO functions. Interrupts of the main board are taken between rounds of the
  loops, not inside them. \<^verbatim>\<open>master_boot/drivers/crc.c\<close> and \<^verbatim>\<open>packetChain.c\<close> are not complete programs.
\<close>

section \<open>From the host to a submodule\<close>

text \<open>The bytes that a part of the bus traffic carried to one module.\<close>

definition to_module :: "module_t \<Rightarrow> (nat \<times> u8 list) list \<Rightarrow> u8 list" where
  "to_module m tr = concat (map snd (filter (\<lambda>x. fst x = module_code m) tr))"

lemma to_module_frames: "to_module m (frames m mt ds) = SUBMODULE_START_BYTE # mt # ds"
  by (simp add: to_module_def frames_def)

lemma new_traffic:
  "drop (length (traffic b)) (traffic (after_message m mt ds (b\<lparr>ticks := x, ints := y, line := z\<rparr>))) = frames m mt ds"
  by (simp add: after_message_def)

lemma answered_new_traffic:
  "answered timeout st ds' b b' \<Longrightarrow>
   to_module m (drop (length (traffic b)) (traffic (after_message m mt ds b'))) = COMMS_START_BYTE # mt # ds"
  by (auto simp: answered_def new_traffic to_module_frames SUBMODULE_START_BYTE_def COMMS_START_BYTE_def)

text \<open>A board whose link to the host is free.\<close>

definition host_ready :: "board \<Rightarrow> bool" where
  "host_ready s \<longleftrightarrow> length (inputBuf s) = 256 \<and> length (sendBuffer s) = 64 \<and> usingUSB s \<and>
     (\<exists>hcdc. pClassData (usb s) = Some hcdc \<and> TxState hcdc = 0) \<and> length (cs (bus s)) = 5"

text \<open>
  A command that ends in one message to a submodule: the packet is answered, and what the bus carried
  is the frame of that message.
\<close>

lemma command_to_bus:
  assumes "idle h" "length data \<le> 58" "unat (drop_bit 1 t :: u8) < 18" "host_ready s"
    and disp: "dispatch (response ! unat (drop_bit 1 t :: u8)) data s = Inr (s\<lparr>inputBuf := ib, bus := after_message m mt ds b1\<rparr>)"
    and "responseDataLen (response ! unat (drop_bit 1 t :: u8)) = 0"
    and "answered SPI_TIMEOUT st [] (bus s) b1"
  shows "\<exists>h' s'. OlympusComms.runCommsFSM (packet t q data) (h, s) = Inr (h', s') \<and> idle h' \<and>
    transmitted (usb s') = transmitted (usb s) @ [packet (t OR 1) q []] \<and>
    to_module m (drop (length (traffic (bus s))) (traffic (bus s'))) = COMMS_START_BYTE # mt # ds"
proof -
  obtain hcdc where u: "pClassData (usb s) = Some hcdc" "TxState hcdc = 0" using assms(4) by (auto simp: host_ready_def)
  have s: "length (inputBuf s) = 256" "length (sendBuffer s) = 64" "usingUSB s" using assms(4) by (simp_all add: host_ready_def)
  let ?s = "s\<lparr>inputBuf := ib, bus := after_message m mt ds b1\<rparr>"
  have "OlympusComms.answer (response ! unat (drop_bit 1 t :: u8)) ?s []" using assms(6) by (simp add: OlympusComms.answer_def)
  from packet_answered_ok [OF assms(1-3) s(1) disp this, of hcdc q] u s obtain h' out dev where
    "OlympusComms.runCommsFSM (packet t q data) (h, s) = Inr (h', ?s\<lparr>sendBuffer := out, usb := dev\<rparr>)" "idle h'"
    "transmitted dev = transmitted (usb s) @ [packet (t OR 1) q []]" by auto
  with answered_new_traffic [OF assms(7), of m mt ds] show ?thesis by fastforce
qed

lemma submodule_on_bus:
  assumes "length (cs (bus s)) = 5" "module_code m < 5" "answered SPI_TIMEOUT st [] (bus s) b1" "unat tx = length ds"
  shows "submodule m mt ds tx 0 s = Inr (st, ds, s\<lparr>bus := after_message m mt ds b1\<rparr>)"
  using message_answered_ok [of "bus s" m tx ds SPI_TIMEOUT st "[]" b1 0 mt] assms
  by (simp add: submodule_def mspi_wf_def)

lemma message_on_bus:
  assumes "host_ready s" "module_code m < 5" "answered SPI_TIMEOUT st [] (bus s) b1" "unat tx = length ds"
  shows "submodule m mt ds tx 0 (s\<lparr>inputBuf := ib\<rparr>) = Inr (st, ds, s\<lparr>inputBuf := ib, bus := after_message m mt ds b1\<rparr>)"
  using submodule_on_bus [of "s\<lparr>inputBuf := ib\<rparr>" m st b1 tx ds mt] assms by (simp add: host_ready_def)



text \<open>
  C11. A gear command goes all the way to the relays, and only a valid gear does: with the answer that Janus
  gives, the host gets one answer whatever the gear is, Janus switches its relays to the gear for
  the values 0, 1 and 2, and for any other value changes nothing and reports an invalid argument.
\<close>
theorem host_gear_reaches_janus:
  assumes "idle h" and "host_ready s" and "ready 1 janus"
    and "answered SPI_TIMEOUT (if g \<le> 2 then WR_OK else WR_ERR_INV_ARG) [] (bus s) b1"
  shows "\<exists>h' s' janus'. OlympusComms.runCommsFSM (packet 0x12 q [g]) (h, s) = Inr (h', s') \<and> idle h' \<and>
    transmitted (usb s') = transmitted (usb s) @ [packet 0x13 q []] \<and>
    foldE (SlaveComms.runCommsFSM janus_msgResp) (to_module JANUS (drop (length (traffic (bus s))) (traffic (bus s')))) janus
      = Inr janus' \<and>
    (if g \<le> 2
     then miso (port janus') = miso (port janus) @ [WR_OK] \<and>
          (bit (jregs (app janus') (Gpio GPIOA ODR)) 8 \<longleftrightarrow> g = fnr_code FORWARD) \<and>
          (bit (jregs (app janus') (Gpio GPIOA ODR)) 10 \<longleftrightarrow> g = fnr_code REVERSE)
     else miso (port janus') = miso (port janus) @ [WR_ERR_INV_ARG] \<and> app janus' = app janus)"
proof -
  define ib where "ib = g # drop 1 (inputBuf s)"
  have 9: "unat (drop_bit 1 0x12 :: u8) = 9" by simp
  have "dispatch (response ! 9) [g] s = commsSetFNR ib (s\<lparr>inputBuf := ib\<rparr>)"
    by (simp add: dispatch_def entry_at ib_def Let_def)
  also have "\<dots> = Inr (s\<lparr>inputBuf := ib, bus := after_message JANUS 2 [g] b1\<rparr>)"
    using message_on_bus [OF assms(2) _ assms(4), of JANUS 1 "[g]" 2 ib]
    by (simp add: commsSetFNR_def OlympusBoard.setFNR_def JANUS_SET_FNR_def ib_def)
  finally have "dispatch (response ! unat (drop_bit 1 0x12 :: u8)) [g] s =
      Inr (s\<lparr>inputBuf := ib, bus := after_message JANUS 2 [g] b1\<rparr>)" unfolding 9 .
  from command_to_bus [OF assms(1) _ _ assms(2) this _ assms(4), of q] obtain h' s' where
    1: "OlympusComms.runCommsFSM (packet 0x12 q [g]) (h, s) = Inr (h', s')" "idle h'"
       "transmitted (usb s') = transmitted (usb s) @ [packet 0x13 q []]"
       "to_module JANUS (drop (length (traffic (bus s))) (traffic (bus s'))) = [COMMS_START_BYTE, 2, g]"
    unfolding 9 by (auto simp: entry_at)
  show ?thesis using janus_set_gear_ok [OF assms(3), of g] 1 by metis
qed

theorem host_gear_reaches_janus_witness:
  "\<exists>h' s' janus'. OlympusComms.runCommsFSM (packet 0x12 9 [1])
       (handler_start, board_start (mspi_idle [0, 0, 0] [True, False] [WR_OK]) usb_idle) = Inr (h', s') \<and>
     transmitted (usb s') = [packet 0x13 9 []] \<and>
     foldE (SlaveComms.runCommsFSM janus_msgResp) (to_module JANUS (traffic (bus s')))
       (slave_start (replicate 1 (None, True)) (janus_start (\<lambda>r. 0))) = Inr janus' \<and>
     bit (jregs (app janus') (Gpio GPIOA ODR)) 8"
proof -
  let ?s = "board_start (mspi_idle [0, 0, 0] [True, False] [WR_OK]) usb_idle"
  have s: "host_ready ?s" "transmitted (usb ?s) = []" "traffic (bus ?s) = []"
    by (simp_all add: host_ready_def board_start_simps usb_idle_def mspi_idle_def)
  have "answered SPI_TIMEOUT (if (1 :: u8) \<le> 2 then WR_OK else WR_ERR_INV_ARG) [] (bus ?s) (bus ?s\<lparr>ticks := [], ints := [], line := []\<rparr>)"
    by (rule answered_at_once [of _ 0]) (simp_all add: board_start_simps mspi_idle_def SPI_TIMEOUT_def)
  from host_gear_reaches_janus [OF handler_start_idle s(1) ready_start [of 1 None "janus_start (\<lambda>r. 0)"] this, of 9]
  show ?thesis using s(2,3) by fastforce
qed

text \<open>
  A steering command goes all the way to the steering loop: for an angle from 45 to 125 degrees the
  target of Hephaestus becomes \<open>11 * angle + 580\<close>, and the host gets one answer.
\<close>
theorem host_steering_reaches_hephaestus:
  assumes "idle h" and "host_ready s" and "ready 1 heph" and "45 \<le> unat d" and "unat d \<le> 125"
    and "answered SPI_TIMEOUT COMMS_OK [] (bus s) b1"
  shows "\<exists>h' s' heph'. OlympusComms.runCommsFSM (packet 0x14 q [d]) (h, s) = Inr (h', s') \<and> idle h' \<and>
    transmitted (usb s') = transmitted (usb s) @ [packet 0x15 q []] \<and>
    foldE (SlaveComms.runCommsFSM heph_msgResp) (to_module HEPHAESTUS (drop (length (traffic (bus s))) (traffic (bus s')))) heph
      = Inr heph' \<and>
    unat (targetSteerValue (app heph')) = 11 * unat d + 580 \<and> miso (port heph') = miso (port heph) @ [COMMS_OK]"
proof -
  define ib where "ib = d # drop 1 (inputBuf s)"
  have 10: "unat (drop_bit 1 0x14 :: u8) = 10" by simp
  have e: "response ! 10 = entry 1 True 0 None (Some commsSetSteering)" by (simp add: response_def)
  have "dispatch (response ! 10) [d] s = commsSetSteering ib (s\<lparr>inputBuf := ib\<rparr>)"
    by (simp add: dispatch_def e ib_def Let_def)
  also have "\<dots> = Inr (s\<lparr>inputBuf := ib, bus := after_message HEPHAESTUS 1 [d] b1\<rparr>)"
    using message_on_bus [OF assms(2) _ assms(6), of HEPHAESTUS 1 "[d]" 1 ib]
    by (simp add: commsSetSteering_def setHephaestusSteering_def HEPH_SET_STEERING_def ib_def)
  finally have "dispatch (response ! unat (drop_bit 1 0x14 :: u8)) [d] s =
      Inr (s\<lparr>inputBuf := ib, bus := after_message HEPHAESTUS 1 [d] b1\<rparr>)" unfolding 10 .
  from command_to_bus [OF assms(1) _ _ assms(2) this _ assms(6), of q] obtain h' s' where
    1: "OlympusComms.runCommsFSM (packet 0x14 q [d]) (h, s) = Inr (h', s')" "idle h'"
       "transmitted (usb s') = transmitted (usb s) @ [packet 0x15 q []]"
       "to_module HEPHAESTUS (drop (length (traffic (bus s))) (traffic (bus s'))) = [COMMS_START_BYTE, 1, d]"
    unfolding 10 by (auto simp: e)
  have "COMMS_OK = WR_OK" by (simp add: COMMS_OK_def WR_OK_def)
  with steering_target_ok [OF assms(3), of d] assms(4,5) 1 show ?thesis by metis
qed

theorem host_steering_reaches_hephaestus_witness:
  "\<exists>h' s' heph'. OlympusComms.runCommsFSM (packet 0x14 9 [90])
       (handler_start, board_start (mspi_idle [0, 0, 0] [True, False] [COMMS_OK]) usb_idle) = Inr (h', s') \<and>
     transmitted (usb s') = [packet 0x15 9 []] \<and>
     foldE (SlaveComms.runCommsFSM heph_msgResp) (to_module HEPHAESTUS (traffic (bus s')))
       (slave_start (replicate 1 (None, True)) (heph_start (\<lambda>r. 0))) = Inr heph' \<and>
     unat (targetSteerValue (app heph')) = 1570"
proof -
  let ?s = "board_start (mspi_idle [0, 0, 0] [True, False] [COMMS_OK]) usb_idle"
  have s: "host_ready ?s" "transmitted (usb ?s) = []" "traffic (bus ?s) = []"
    by (simp_all add: host_ready_def board_start_simps usb_idle_def mspi_idle_def)
  have "answered SPI_TIMEOUT COMMS_OK [] (bus ?s) (bus ?s\<lparr>ticks := [], ints := [], line := []\<rparr>)"
    by (rule answered_at_once [of _ 0]) (simp_all add: board_start_simps mspi_idle_def SPI_TIMEOUT_def)
  from host_steering_reaches_hephaestus [OF handler_start_idle s(1) ready_start [of 1 None "heph_start (\<lambda>r. 0)"] _ _ this, of 90 9]
  show ?thesis using s(2,3) by fastforce
qed

section \<open>From the console to a submodule\<close>



section \<open>All submodules\<close>

lemma hermes_ok_start: "hermes_ok (hermes_start f)"
  by (simp add: hermes_ok_def hermes_start_def setThrottle_def)

text \<open>
  C10. No bus traffic makes a submodule fault: from its start state, with any pattern of SPI interrupts, every
  stream of bytes is processed by Apollo, Hephaestus, Hermes, Janus and Zeus without undefined
  behaviour; the only other outcomes are the reset that the reboot message asks for and waiting
  for the master to collect an answer.
\<close>
theorem submodules_never_fault:
  "no_fault (foldE (SlaveComms.runCommsFSM apollo_msgResp) bytes (slave_start evs a)) \<and>
   no_fault (foldE (SlaveComms.runCommsFSM heph_msgResp) bytes (slave_start evs (heph_start f))) \<and>
   no_fault (foldE (SlaveComms.runCommsFSM hermes_msgResp) bytes (slave_start evs (hermes_start f))) \<and>
   no_fault (foldE (SlaveComms.runCommsFSM janus_msgResp) bytes (slave_start evs (janus_start f))) \<and>
   no_fault (foldE (SlaveComms.runCommsFSM zeus_msgResp) bytes (slave_start evs z))"
  using apollo.good_foldE [OF apollo.wf_start] heph.good_foldE [OF heph.wf_start [OF heph_ok_start]]
    hermes.good_foldE [OF hermes.wf_start [OF hermes_ok_start]] janus.good_foldE [OF janus.wf_start [OF janus_ok_start]]
    zeus.good_foldE [OF zeus.wf_start]
  by (simp add: apollo.good_def heph.good_def hermes.good_def janus.good_def zeus.good_def)

section \<open>From power-on to the first answer\<close>

text \<open>
  C4. A host that plugs in is served: the board starts, the host resets the bus, assigns an address and selects the
  configuration, and sends a packet of the protocol over the serial port; then the packet is queued whole, and the
  loop of the main program carries it out and answers it with one frame on the USB link, whatever its
  type, sequence number and data are, as soon as its callback returns.
\<close>
theorem plugged_in_host_is_answered:
  assumes "0 < a" and "a < 128" and "idle h" and "length data \<le> 58" and "unat (drop_bit 1 t :: u8) < 18"
    and "length (inputBuf s) = 256" and "r = response ! unat (drop_bit 1 t :: u8)"
  shows "\<exists>p p1 p2 d. HAL_PCD_ResetCallback (MX_USB_OTG_FS_USB_Init (usb_off ident (Some blk # ms))) = Inr p \<and>
    HAL_PCD_SetupStageCallback False (setup_bytes 0 5 a 0 0) p = Inr p1 \<and> in_stages 1 p1 = Inr p1 \<and>
    HAL_PCD_SetupStageCallback False (setup_bytes 0 9 1 0 0) p1 = Inr p2 \<and> in_stages 1 p2 = Inr p2 \<and>
    dev_state p2 = USBD_STATE_CONFIGURED \<and> dev_address p2 = ucast a \<and> ep0_sent p2 = [[], []] \<and>
    usb_packet_arrives (cdc p2) (packet t q data) = Inr d \<and> usb_ready d \<and>
    (\<forall>s1 resp. dispatch r data (s\<lparr>usb := d\<rparr>) = Inr s1 \<and> OlympusComms.answer r s1 resp \<and> length (sendBuffer s1) = 64 \<and>
       usingUSB s1 \<and> usb s1 = d \<longrightarrow>
       (\<exists>h' s'. usb_loop 65 (h, s\<lparr>usb := d\<rparr>) = Some (Inr (h', s')) \<and> idle h' \<and>
          transmitted (usb s') = [packet (t OR 1) q resp] \<and> db_content (usb_dev.usbReceiveBuffer (usb s')) = []))"
proof -
  have len: "length (packet t q data) \<le> 64" using assms(4) by (simp add: length_packet)
  obtain p p1 p2 hc where p: "HAL_PCD_ResetCallback (MX_USB_OTG_FS_USB_Init (usb_off ident (Some blk # ms))) = Inr p"
    "HAL_PCD_SetupStageCallback False (setup_bytes 0 5 a 0 0) p = Inr p1" "in_stages 1 p1 = Inr p1"
    "HAL_PCD_SetupStageCallback False (setup_bytes 0 9 1 0 0) p1 = Inr p2" "in_stages 1 p2 = Inr p2"
    "dev_state p2 = USBD_STATE_CONFIGURED" "dev_address p2 = ucast a" "ep0_sent p2 = [[], []]"
    "pClassData (cdc p2) = Some hc" "TxState hc = 0" "transmitted (cdc p2) = []" "usb_ready (cdc p2)"
    "db_content (usb_dev.usbReceiveBuffer (cdc p2)) = []"
    using enumerated [OF assms(1,2), of ident blk ms False] by blast
  obtain d where d: "usb_packet_arrives (cdc p2) (packet t q data) = Inr d" "usb_ready d"
    "db_content (usb_dev.usbReceiveBuffer d) = packet t q data"
    using usb_packet_queued_when_empty [OF p(12,13) len] by blast
  obtain hd' where hd': "pClassData d = Some hd'" "TxState hd' = 0" "transmitted d = []"
    using packet_keeps_sending [OF p(12) len d(1) p(9)] p(10,11) by auto
  have "\<exists>h' s'. usb_loop 65 (h, s\<lparr>usb := d\<rparr>) = Some (Inr (h', s')) \<and> idle h' \<and>
      transmitted (usb s') = [packet (t OR 1) q resp] \<and> db_content (usb_dev.usbReceiveBuffer (usb s')) = []"
    if s1: "dispatch r data (s\<lparr>usb := d\<rparr>) = Inr s1" "OlympusComms.answer r s1 resp" "length (sendBuffer s1) = 64" "usingUSB s1" "usb s1 = d"
    for s1 resp
  proof -
    have ib: "length (inputBuf (s\<lparr>usb := d\<rparr>)) = 256" using assms(6) by simp
    obtain h' out dev where run: "OlympusComms.runCommsFSM (packet t q data) (h, s\<lparr>usb := d\<rparr>) = Inr (h', s1\<lparr>sendBuffer := out, usb := dev\<rparr>)"
      "idle h'" "transmitted dev = [packet (t OR 1) q resp]"
      using packet_answered_ok [OF assms(3-5) ib, of s1 resp hd' q] s1 hd' assms(7) by auto
    have "db_wf (usb_dev.usbReceiveBuffer (usb (s\<lparr>usb := d\<rparr>)))" "length (db_content (usb_dev.usbReceiveBuffer (usb (s\<lparr>usb := d\<rparr>)))) < 65"
      using d(2,3) len by (simp_all add: usb_ready_def)
    from usb_loop_ok [OF this, of h] show ?thesis using run d(3) by auto
  qed
  with p d(1,2) show ?thesis by blast
qed

theorem plugged_in_host_is_answered_witness:
  "\<exists>(p2 :: USBD_HandleTypeDef) d h' s'. dev_state p2 = USBD_STATE_CONFIGURED \<and> usb_packet_arrives (cdc p2) (packet 0 7 []) = Inr d \<and>
    usb_loop 65 (handler_start, (board_start (mspi_idle [] [] []) usb_idle)\<lparr>usb := d\<rparr>) = Some (Inr (h', s')) \<and>
    transmitted (usb s') = [packet 1 7 [0, 0, 0, 0, 0]]"
proof -
  define s where "s = board_start (mspi_idle [] [] []) usb_idle"
  define r where "r = response ! unat (drop_bit 1 0 :: u8)"
  have disp: "dispatch r [] (s\<lparr>usb := d\<rparr>) = Inr (s\<lparr>usb := d\<rparr>)" for d by (simp add: dispatch_def entry_at r_def)
  have "replicate 5 (0 :: u8) = [0, 0, 0, 0, 0]" by (simp add: eval_nat_numeral)
  then have ans: "OlympusComms.answer r (s\<lparr>usb := d\<rparr>) [0, 0, 0, 0, 0]" for d
    by (simp add: OlympusComms.answer_def entry_at board_start_simps r_def s_def)
  have st: "length (inputBuf s) = 256" "length (sendBuffer (s\<lparr>usb := d\<rparr>)) = 64" "usingUSB (s\<lparr>usb := d\<rparr>)" "usb (s\<lparr>usb := d\<rparr>) = d" for d
    by (simp_all add: board_start_simps s_def)
  have pre: "0 < (17 :: u16)" "(17 :: u16) < 128" "length ([] :: u8 list) \<le> 58" "unat (drop_bit 1 0 :: u8) < 18" by simp_all
  obtain p2 :: USBD_HandleTypeDef and d where d: "dev_state p2 = USBD_STATE_CONFIGURED" "usb_packet_arrives (cdc p2) (packet 0 7 []) = Inr d"
    and all: "\<forall>s1 resp. dispatch r [] (s\<lparr>usb := d\<rparr>) = Inr s1 \<and> OlympusComms.answer r s1 resp \<and> length (sendBuffer s1) = 64 \<and>
       usingUSB s1 \<and> usb s1 = d \<longrightarrow> (\<exists>h' s'. usb_loop 65 (handler_start, s\<lparr>usb := d\<rparr>) = Some (Inr (h', s')) \<and> idle h' \<and>
          transmitted (usb s') = [packet (0 OR 1) 7 resp] \<and> db_content (usb_dev.usbReceiveBuffer (usb s')) = [])"
    using plugged_in_host_is_answered [OF pre(1,2) handler_start_idle pre(3,4) st(1) r_def,
        where ident = "(1, 2, 3)" and blk = class_memory and ms = "[]" and q = 7] by blast
  from all [rule_format, OF conjI [OF disp conjI [OF ans conjI [OF st(2) conjI [OF st(3,4)]]]]] d show ?thesis
    unfolding s_def by auto
qed

end
